(* ===== verification/Prelude.thy ===== *)
theory Prelude
  imports Main
begin

text \<open>
  What every component shares: the byte strings of the service, its error values, the
  collections of facts the component proofs run on, and generic lemmas on lists and sums.

  A Go \<open>string\<close> is a sequence of bytes, and so is an Isabelle \<open>string\<close> (a list of
  8-bit characters): \<open>length\<close> is Go's \<open>len\<close>.  A Go \<open>error\<close> is a value of the
  datatype \<open>error\<close>, and a function that returns \<open>(T, error)\<close> returns
  \<open>error + T\<close>, with \<open>Inl\<close> for a non-nil error.
\<close>

named_theorems run_simps \<open>symbolic execution of the service's programs\<close>
named_theorems frame_simps \<open>what an operation leaves unchanged\<close>
named_theorems text_simps \<open>the byte-string functions of the standard library\<close>

section \<open>Errors\<close>

datatype error =
    Msg string          \<comment> \<open>\<open>errors.New\<close> and \<open>fmt.Errorf\<close>\<close>
  | Ext string          \<comment> \<open>an error the driver, the network or the system returned\<close>
  | Sql_NoRows          \<comment> \<open>\<open>sql.ErrNoRows\<close>\<close>
  | Io_EOF              \<comment> \<open>\<open>io.EOF\<close>\<close>
  | Json_Error string   \<comment> \<open>an error of \<open>encoding/json\<close>\<close>
  | Time_Error string   \<comment> \<open>an error of \<open>time.Parse\<close>\<close>

fun error_text :: "error \<Rightarrow> string" where
  "error_text (Msg s) = s"
| "error_text (Ext s) = s"
| "error_text Sql_NoRows = ''sql: no rows in result set''"
| "error_text Io_EOF = ''EOF''"
| "error_text (Json_Error s) = s"
| "error_text (Time_Error s) = s"

text \<open>The right component of a result, when there is one.\<close>

abbreviation ok :: "'e + 'a \<Rightarrow> bool" where
  "ok r \<equiv> \<not> isl r"

section \<open>Lists\<close>

text \<open>Runs a partial function over a list and stops at the first error, the shape of
  every loop that scans the rows of a query.\<close>

fun traverse :: "('a \<Rightarrow> error + 'b) \<Rightarrow> 'a list \<Rightarrow> error + 'b list" where
  "traverse f [] = Inr []"
| "traverse f (x # xs) =
     (case f x of
        Inl e \<Rightarrow> Inl e
      | Inr y \<Rightarrow> (case traverse f xs of Inl e \<Rightarrow> Inl e | Inr ys \<Rightarrow> Inr (y # ys)))"

lemma traverse_Inr_iff:
  "traverse f xs = Inr ys \<longleftrightarrow> list_all2 (\<lambda>x y. f x = Inr y) xs ys"
proof (induction xs arbitrary: ys)
  case (Cons x xs)
  show ?case
    by (cases ys; cases "f x"; cases "traverse f xs") (auto simp flip: Cons.IH)
qed auto

lemma traverse_map_Inr: "(\<And>x. x \<in> set xs \<Longrightarrow> f x = Inr (g x)) \<Longrightarrow> traverse f xs = Inr (map g xs)"
  by (induction xs) auto

end
