(* ===== verification/GoText.thy ===== *)
theory GoText
  imports Prelude
begin

text \<open>
  The functions of Go's \<open>strings\<close> and \<open>fmt\<close> the service calls, on byte strings:
  \<open>TrimSpace\<close>, \<open>TrimRight\<close>, \<open>ToLower\<close>, \<open>Contains\<close>, decimal numbers, and
  the comparison of two texts byte by byte that SQLite's \<open>BINARY\<close> collation makes.
\<close>

section \<open>Characters and numbers\<close>

abbreviation byte :: "char \<Rightarrow> nat" where
  "byte c \<equiv> of_char c"

definition digit :: "nat \<Rightarrow> char" where
  "digit n = char_of (48 + n)"

definition is_digit :: "char \<Rightarrow> bool" where
  "is_digit c \<longleftrightarrow> 48 \<le> byte c \<and> byte c \<le> 57"

definition digit_value :: "char \<Rightarrow> nat" where
  "digit_value c = byte c - 48"

lemma byte_digit [simp]: "n < 10 \<Longrightarrow> byte (digit n) = 48 + n"
  by (simp add: digit_def)

lemma is_digit_digit [simp]: "n < 10 \<Longrightarrow> is_digit (digit n)"
  by (simp add: is_digit_def)

lemma digit_value_digit [simp]: "n < 10 \<Longrightarrow> digit_value (digit n) = n"
  by (simp add: digit_value_def)

lemma digit_inject [simp]: "m < 10 \<Longrightarrow> n < 10 \<Longrightarrow> digit m = digit n \<longleftrightarrow> m = n"
  by (metis digit_value_digit)

text \<open>\<open>pad w n\<close>: the last \<open>w\<close> decimal digits of \<open>n\<close>, zeros first.\<close>

fun pad :: "nat \<Rightarrow> nat \<Rightarrow> string" where
  "pad 0 n = []"
| "pad (Suc w) n = pad w (n div 10) @ [digit (n mod 10)]"

definition read_digits :: "string \<Rightarrow> nat" where
  "read_digits s = foldl (\<lambda>x c. x * 10 + digit_value c) 0 s"

text \<open>Decimal numbers of any size, as \<open>%d\<close> prints them.\<close>

fun dec :: "nat \<Rightarrow> string" where
  "dec n = (if n < 10 then [digit n] else dec (n div 10) @ [digit (n mod 10)])"

declare dec.simps [simp del]

definition dec_int :: "int \<Rightarrow> string" where
  "dec_int i = (if i < 0 then ''-'' @ dec (nat (- i)) else dec (nat i))"

lemma length_pad [simp]: "length (pad w n) = w"
  by (induction w arbitrary: n) auto

lemma pad_is_digit: "c \<in> set (pad w n) \<Longrightarrow> is_digit c"
  by (induction w arbitrary: n) auto

lemma read_digits_snoc: "read_digits (s @ [c]) = read_digits s * 10 + digit_value c"
  by (simp add: read_digits_def)

lemma read_digits_pad: "n < 10 ^ w \<Longrightarrow> read_digits (pad w n) = n"
proof (induction w arbitrary: n)
  case 0
  then show ?case by (simp add: read_digits_def)
next
  case (Suc w)
  then have "n div 10 < 10 ^ w" by auto
  with Suc.IH show ?case by (simp add: read_digits_snoc)
qed

lemma read_digits_dec: "read_digits (dec n) = n"
  by (induction n rule: dec.induct)
    (subst dec.simps, auto simp: read_digits_snoc, simp add: read_digits_def)

section \<open>The order of texts\<close>

text \<open>
  \<open>text_less x y\<close>: the bytes of \<open>x\<close> come before those of \<open>y\<close>, as \<open>memcmp\<close>
  followed by a comparison of the lengths decides it.
\<close>

fun text_less :: "string \<Rightarrow> string \<Rightarrow> bool" where
  "text_less xs [] = False"
| "text_less [] (y # ys) = True"
| "text_less (x # xs) (y # ys) = (byte x < byte y \<or> (x = y \<and> text_less xs ys))"

definition text_le :: "string \<Rightarrow> string \<Rightarrow> bool" where
  "text_le x y \<longleftrightarrow> \<not> text_less y x"

lemma text_less_irrefl [simp]: "\<not> text_less x x"
  by (induction x) auto

lemma text_less_trans: "text_less x y \<Longrightarrow> text_less y z \<Longrightarrow> text_less x z"
proof (induction x y arbitrary: z rule: text_less.induct)
  case (3 x xs y ys)
  then show ?case by (cases z) auto
qed (auto elim: text_less.elims)

lemma text_less_linear: "text_less x y \<or> x = y \<or> text_less y x"
proof (induction x y rule: text_less.induct)
  case (3 x xs y ys)
  have "byte x = byte y \<longleftrightarrow> x = y" by simp
  then have "byte x < byte y \<or> x = y \<or> byte y < byte x" by (metis linorder_neqE_nat)
  with 3 show ?case by auto
qed (auto, metis text_less.simps(2) neq_Nil_conv)

lemma text_le_iff: "text_le x y \<longleftrightarrow> text_less x y \<or> x = y"
  using text_less_linear [of x y] text_less_trans [of x y x] by (auto simp: text_le_def)

lemma text_le_refl [simp]: "text_le x x"
  by (simp add: text_le_def)

lemma text_le_trans: "text_le x y \<Longrightarrow> text_le y z \<Longrightarrow> text_le x z"
  by (auto simp: text_le_iff dest: text_less_trans)

lemma text_less_append_same [simp]: "text_less (x @ y) (x @ z) \<longleftrightarrow> text_less y z"
  by (induction x) auto

lemma text_less_append:
  "length x = length y \<Longrightarrow> text_less x y \<Longrightarrow> text_less (x @ x') (y @ y')"
  by (induction x y rule: list_induct2) auto

lemma text_less_pad: "m < n \<Longrightarrow> n < 10 ^ w \<Longrightarrow> text_less (pad w m) (pad w n)"
proof (induction w arbitrary: m n)
  case (Suc w)
  show ?case
  proof (cases "m div 10 = n div 10")
    case True
    with Suc.prems have "m mod 10 < n mod 10" by (metis div_mult_mod_eq nat_add_left_cancel_less)
    with True show ?thesis by simp
  next
    case False
    with Suc.prems have "m div 10 < n div 10" "n div 10 < 10 ^ w"
      by (auto simp: div_le_mono le_neq_implies_less)
    then show ?thesis by (simp add: Suc.IH text_less_append)
  qed
qed auto

section \<open>Trimming\<close>

text \<open>
  \<open>strings.TrimSpace\<close> removes the white space of Unicode (\<open>unicode.IsSpace\<close>) at both
  ends.  In UTF-8 those characters are one byte (tab to carriage return, the blank), two
  bytes (U+0085, U+00A0) or three (U+1680, U+2000 to U+200A, U+2028, U+2029, U+202F,
  U+205F, U+3000); no other byte sequence decodes to white space.
\<close>

definition space1 :: "char \<Rightarrow> bool" where
  "space1 a \<longleftrightarrow> (9 \<le> byte a \<and> byte a \<le> 13) \<or> byte a = 32"

definition space2 :: "char \<Rightarrow> char \<Rightarrow> bool" where
  "space2 a b \<longleftrightarrow> byte a = 0xC2 \<and> (byte b = 0x85 \<or> byte b = 0xA0)"

definition space3 :: "char \<Rightarrow> char \<Rightarrow> char \<Rightarrow> bool" where
  "space3 a b c \<longleftrightarrow>
     (byte a = 0xE1 \<and> byte b = 0x9A \<and> byte c = 0x80) \<or>
     (byte a = 0xE2 \<and> byte b = 0x80 \<and>
        ((0x80 \<le> byte c \<and> byte c \<le> 0x8A) \<or> byte c = 0xA8 \<or> byte c = 0xA9 \<or> byte c = 0xAF)) \<or>
     (byte a = 0xE2 \<and> byte b = 0x81 \<and> byte c = 0x9F) \<or>
     (byte a = 0xE3 \<and> byte b = 0x80 \<and> byte c = 0x80)"

fun trim_by ::
  "(char \<Rightarrow> bool) \<Rightarrow> (char \<Rightarrow> char \<Rightarrow> bool) \<Rightarrow> (char \<Rightarrow> char \<Rightarrow> char \<Rightarrow> bool) \<Rightarrow> string \<Rightarrow> string"
where
  "trim_by p q r [] = []"
| "trim_by p q r [a] = (if p a then [] else [a])"
| "trim_by p q r [a, b] =
     (if p a then trim_by p q r [b] else if q a b then [] else [a, b])"
| "trim_by p q r (a # b # c # s) =
     (if p a then trim_by p q r (b # c # s)
      else if q a b then trim_by p q r (c # s)
      else if r a b c then trim_by p q r s
      else a # b # c # s)"

definition TrimLeftSpace :: "string \<Rightarrow> string" where
  "TrimLeftSpace = trim_by space1 space2 space3"

definition TrimRightSpace :: "string \<Rightarrow> string" where
  "TrimRightSpace s = rev (trim_by space1 (\<lambda>b a. space2 a b) (\<lambda>c b a. space3 a b c) (rev s))"

definition TrimSpace :: "string \<Rightarrow> string" where
  "TrimSpace s = TrimRightSpace (TrimLeftSpace s)"

text \<open>\<open>strings.TrimRight(s, "/")\<close>.\<close>

definition TrimRightSlash :: "string \<Rightarrow> string" where
  "TrimRightSlash s = rev (dropWhile (\<lambda>c. c = CHR ''/'') (rev s))"

lemma suffix_Cons: "\<exists>t. s = t @ u \<Longrightarrow> \<exists>t. a # s = t @ u"
  by (metis append_Cons)

lemma suffix_trim_by: "\<exists>t. s = t @ trim_by p q r s"
  by (induction p q r s rule: trim_by.induct) (simp_all add: suffix_Cons)

lemma trim_by_idem [simp]: "trim_by p q r (trim_by p q r s) = trim_by p q r s"
  by (induction p q r s rule: trim_by.induct) auto

text \<open>A prefix of a text that starts with no white space starts with none either.\<close>

lemma trim_by_prefix: "trim_by p q r (s @ t) = s @ t \<Longrightarrow> trim_by p q r s = s"
proof -
  have len: "length (trim_by p q r u) \<le> length u" for u
    by (metis suffix_trim_by length_append le_add2)
  have shrink: "trim_by p q r u \<noteq> v" if "length u < length v" for u v
    using len [of u] that by auto
  assume "trim_by p q r (s @ t) = s @ t"
  then show ?thesis
    by (cases s; cases "tl s"; cases "tl (tl s)"; cases t; cases "tl t")
      (auto simp: shrink split: if_splits)
qed

lemma TrimRightSpace_prefix: "\<exists>t. s = TrimRightSpace s @ t"
  using suffix_trim_by [of "rev s" space1 "\<lambda>b a. space2 a b" "\<lambda>c b a. space3 a b c"]
  by (metis TrimRightSpace_def rev_append rev_rev_ident)

lemma TrimSpace_infix: "\<exists>t u. s = t @ TrimSpace s @ u"
  using suffix_trim_by [of s] TrimRightSpace_prefix [of "TrimLeftSpace s"]
  by (metis TrimLeftSpace_def TrimSpace_def)

lemma length_TrimSpace: "length (TrimSpace s) \<le> length s"
  by (metis TrimSpace_infix le_add1 le_add2 le_trans length_append)

lemma TrimSpace_idem [simp]: "TrimSpace (TrimSpace s) = TrimSpace s"
proof -
  let ?l = "TrimLeftSpace s"
  obtain t where t: "?l = TrimRightSpace ?l @ t"
    using TrimRightSpace_prefix by blast
  have "TrimLeftSpace ?l = ?l" by (simp add: TrimLeftSpace_def)
  then have "TrimLeftSpace (TrimRightSpace ?l) = TrimRightSpace ?l"
    using t trim_by_prefix by (metis TrimLeftSpace_def)
  then show ?thesis by (simp add: TrimSpace_def TrimRightSpace_def)
qed

section \<open>Other text functions\<close>

definition to_lower :: "char \<Rightarrow> char" where
  "to_lower c = (if 65 \<le> byte c \<and> byte c \<le> 90 then char_of (byte c + 32) else c)"

text \<open>
  \<open>strings.ToLower\<close> as far as the letters of ASCII go: beyond ASCII, U+0130 and U+212A
  have an ASCII lower case (\<open>i\<close> and \<open>k\<close>) and no other character has one.  The
  other characters are left as they are; the service looks for ASCII words only.
\<close>

fun ToLower :: "string \<Rightarrow> string" where
  "ToLower [] = []"
| "ToLower (a # s) =
     (if byte a = 0xC4 \<and> take 1 s = [CHR 0xB0] then CHR ''i'' # ToLower (drop 1 s)
      else if byte a = 0xE2 \<and> take 2 s = [CHR 0x84, CHR 0xAA] then CHR ''k'' # ToLower (drop 2 s)
      else to_lower a # ToLower s)"

fun is_prefix :: "string \<Rightarrow> string \<Rightarrow> bool" where
  "is_prefix [] s = True"
| "is_prefix (c # w) s = (case s of [] \<Rightarrow> False | d # s' \<Rightarrow> (if c = d then is_prefix w s' else False))"

fun Contains :: "string \<Rightarrow> string \<Rightarrow> bool" where
  "Contains [] sub = (sub = [])"
| "Contains (c # s) sub = (is_prefix sub (c # s) \<or> Contains s sub)"

text \<open>A word of small ASCII letters is still there after \<open>ToLower\<close>.\<close>

definition small :: "char \<Rightarrow> bool" where
  "small c \<longleftrightarrow> byte c < 128 \<and> to_lower c = c"

lemma is_prefix_iff: "is_prefix w s \<longleftrightarrow> (\<exists>t. s = w @ t)"
  by (induction w arbitrary: s) (auto split: list.splits)

lemma is_prefix_ToLower:
  "is_prefix w s \<Longrightarrow> list_all small w \<Longrightarrow> is_prefix w (ToLower s)"
proof (induction w arbitrary: s)
  case (Cons c w)
  then obtain s' where s: "s = c # s'" "is_prefix w s'" by (auto split: list.splits if_splits)
  have "byte c < 128" "to_lower c = c" using Cons.prems(2) by (simp_all add: small_def)
  with s Cons show ?case by simp
qed simp

lemma is_prefix_Contains: "is_prefix w s \<Longrightarrow> Contains s w"
  by (cases s; cases w) auto

lemma Contains_ToLower:
  "Contains s w \<Longrightarrow> list_all small w \<Longrightarrow> w \<noteq> [] \<Longrightarrow> Contains (ToLower s) w"
proof (induction s rule: ToLower.induct)
  case (2 a s)
  have far: "\<not> is_prefix w (x # u)" if "128 \<le> byte x" for x u
    using that 2(5,6) by (cases w) (auto simp: small_def)
  have first: "is_prefix w (a # s) \<Longrightarrow> is_prefix w (ToLower (a # s))"
    by (rule is_prefix_ToLower) (use 2(5) in simp_all)
  have skip: "Contains s w \<Longrightarrow> take n s = us \<Longrightarrow> list_all (\<lambda>u. 128 \<le> byte u) us \<Longrightarrow> Contains (drop n s) w"
    for n us s
  proof (induction n arbitrary: s us)
    case (Suc n)
    then show ?case by (cases s) (auto simp: far)
  qed simp
  show ?case
  proof (cases "is_prefix w (a # s)")
    case True
    from is_prefix_Contains [OF first [OF this]] show ?thesis .
  next
    case False
    then have c: "Contains s w" using 2(4) by simp
    consider (i) "byte a = 0xC4 \<and> take 1 s = [CHR 0xB0]"
      | (k) "\<not> (byte a = 0xC4 \<and> take 1 s = [CHR 0xB0])" "byte a = 0xE2 \<and> take 2 s = [CHR 0x84, CHR 0xAA]"
      | (plain) "\<not> (byte a = 0xC4 \<and> take 1 s = [CHR 0xB0])" "\<not> (byte a = 0xE2 \<and> take 2 s = [CHR 0x84, CHR 0xAA])"
      by blast
    then show ?thesis
    proof cases
      case i
      from skip [OF c conjunct2 [OF i]] 2(1) [OF i] 2(5,6) i show ?thesis by simp
    next
      case k
      from skip [OF c conjunct2 [OF k(2)]] 2(2) [OF k] 2(5,6) k show ?thesis by simp
    next
      case plain
      have "ToLower (a # s) = to_lower a # ToLower s" using plain by auto
      with 2(3) [OF plain c] 2(5,6) show ?thesis by simp
    qed
  qed
qed simp

lemma duplicate_lower:
  assumes "Contains s ''duplicate column''"
  shows "Contains (ToLower s) ''duplicate''"
proof -
  have "Contains s ''duplicate''"
    using assms
  proof (induction s)
    case (Cons c s)
    have "is_prefix ''duplicate'' (c # s)" if "is_prefix ''duplicate column'' (c # s)"
      using that unfolding is_prefix_iff by force
    with Cons show ?case by (auto simp del: is_prefix.simps)
  qed simp
  then show ?thesis
    by (rule Contains_ToLower) (simp_all add: small_def to_lower_def)
qed

definition newline :: string where
  "newline = [CHR 0x0A]"

end
