(* ===== verification/GoTime.thy ===== *)
theory GoTime
  imports GoText "HOL-Library.Monad_Syntax"
begin

text \<open>
  Times and their texts.  A \<open>time.Time\<close> in UTC is the number of nanoseconds since the
  start of the year 0 of the Gregorian calendar, a \<open>time.Duration\<close> a number of
  nanoseconds.  The store keeps times as texts in the layout \<open>time.RFC3339Nano\<close> and lets
  SQLite compare them, so the printer, the parser and the order of the texts are all part of
  the program: the round trip is \<open>parse_format\<close>, and \<open>Format_less\<close> and
  \<open>Format_le_seconds\<close> say how far the order of texts follows the order of times.
\<close>

type_synonym time = int
type_synonym duration = int

definition nanosecond :: duration where "nanosecond = 1"
definition Second :: duration where "Second = 1000000000"
definition Minute :: duration where "Minute = 60 * Second"
definition Hour :: duration where "Hour = 60 * Minute"

lemmas duration_defs = nanosecond_def Second_def Minute_def Hour_def

text \<open>\<open>Time.Unix()\<close>: seconds since 1970, which is 719528 days after the start of year 0.\<close>

definition Unix :: "time \<Rightarrow> int" where
  "Unix t = t div Second - 719528 * 86400"

text \<open>The zero \<open>time.Time\<close>: midnight of the first day of year 1.\<close>

definition zero_time :: time where
  "zero_time = 366 * 24 * Hour"

section \<open>The calendar\<close>

definition leap :: "int \<Rightarrow> bool" where
  "leap y \<longleftrightarrow> y mod 4 = 0 \<and> (y mod 100 \<noteq> 0 \<or> y mod 400 = 0)"

text \<open>Days from the start of year 0 to the start of year \<open>y\<close>.\<close>

definition days_before_year :: "int \<Rightarrow> int" where
  "days_before_year y = 365 * y + (y + 3) div 4 - (y + 99) div 100 + (y + 399) div 400"

definition year_of :: "int \<Rightarrow> int" where
  "year_of d =
     (let y = d * 400 div 146097
      in if d < days_before_year y then y - 1
         else if days_before_year (y + 1) \<le> d then y + 1 else y)"

text \<open>Days of the year before month \<open>m\<close> (1 to 13), and the month of a day of the year.\<close>

definition month_start :: "bool \<Rightarrow> int \<Rightarrow> int" where
  "month_start l m =
     (if m \<le> 2 then 31 * (m - 1) else (153 * (m - 3) + 2) div 5 + 59 + of_bool l)"

definition month_of :: "bool \<Rightarrow> int \<Rightarrow> int" where
  "month_of l yd =
     (if yd < 31 then 1
      else if yd < 59 + of_bool l then 2
      else 3 + (5 * (yd - 59 - of_bool l) + 2) div 153)"

definition days_in :: "int \<Rightarrow> int \<Rightarrow> int" where
  "days_in m y = month_start (leap y) (m + 1) - month_start (leap y) m"

text \<open>Rounding up in a division, the shape of every leap-day count.\<close>

lemma div_round_up:
  fixes y n :: int
  assumes "0 < n"
  shows "(y + (n - 1)) div n = y div n + of_bool (y mod n \<noteq> 0)"
proof -
  let ?r = "y mod n"
  have "y + (n - 1) = (?r + (n - 1)) + (y div n) * n"
    using div_mult_mod_eq [of y n] by simp
  then have "(y + (n - 1)) div n = (?r + (n - 1)) div n + y div n"
    using assms by (metis div_mult_self1 less_irrefl add.commute)
  moreover have "(?r + (n - 1)) div n = of_bool (?r \<noteq> 0)"
  proof (cases "?r = 0")
    case True
    then show ?thesis using assms by simp
  next
    case False
    have "0 \<le> ?r" "?r < n" using assms by simp_all
    with False have "(?r + (n - 1)) div n = ((?r - 1) + n) div n" "(?r - 1) div n = 0"
      by (auto simp: algebra_simps)
    with False assms div_add_self2 [of n "?r - 1"] show ?thesis by simp
  qed
  ultimately show ?thesis by simp
qed

lemma days_before_year_alt:
  "days_before_year y = 365 * y + y div 4 + of_bool (y mod 4 \<noteq> 0)
     - (y div 100 + of_bool (y mod 100 \<noteq> 0)) + (y div 400 + of_bool (y mod 400 \<noteq> 0))"
proof -
  have "(y + 3) div 4 = y div 4 + of_bool (y mod 4 \<noteq> 0)"
    "(y + 99) div 100 = y div 100 + of_bool (y mod 100 \<noteq> 0)"
    "(y + 399) div 400 = y div 400 + of_bool (y mod 400 \<noteq> 0)"
    using div_round_up [of 4 y] div_round_up [of 100 y] div_round_up [of 400 y]
    by (simp_all only: diff_numeral_special numeral_One arith_simps)
  then show ?thesis by (simp only: days_before_year_def)
qed

lemma days_before_year_Suc_alt:
  "days_before_year (y + 1) = 365 * (y + 1) + (y div 4 + 1) - (y div 100 + 1) + (y div 400 + 1)"
proof -
  have "(y + 1 + (n - 1)) div n = y div n + 1" if "0 < n" for n :: int
    using that div_add_self2 [of n y] by (simp add: algebra_simps)
  from this [of 4] this [of 100] this [of 400] show ?thesis
    by (simp add: days_before_year_def)
qed

lemma leap_count:
  fixes a b c y :: int
  assumes "q \<Longrightarrow> p" "r \<Longrightarrow> q"
  shows "365 * (y + 1) + (a + 1) - (b + 1) + (c + 1) =
    365 * y + a + of_bool (\<not> p) - (b + of_bool (\<not> q)) + (c + of_bool (\<not> r)) + 365
      + of_bool (p \<and> (\<not> q \<or> r))"
  using assms by (cases p; cases q; cases r) simp_all

lemma days_before_year_Suc: "days_before_year (y + 1) = days_before_year y + 365 + of_bool (leap y)"
proof -
  have "y mod 100 = 0 \<Longrightarrow> y mod 4 = 0" "y mod 400 = 0 \<Longrightarrow> y mod 100 = 0"
    by presburger+
  then show ?thesis
    unfolding days_before_year_Suc_alt days_before_year_alt [of y] leap_def by (intro leap_count)
qed

lemma days_before_year_mono: "x \<le> y \<Longrightarrow> days_before_year x \<le> days_before_year y"
  by (induction y rule: int_ge_induct) (auto simp: days_before_year_Suc intro: order_trans)

text \<open>The average year bounds the count from both sides, so the estimate is off by one at most.\<close>

lemma days_before_year_bounds:
  "146097 * y - 396 \<le> 400 * days_before_year y" "400 * days_before_year y \<le> 146097 * y + 700"
proof -
  have "4 * ((y + 3) div 4) \<le> y + 3" "y \<le> 4 * ((y + 3) div 4)"
    "100 * ((y + 99) div 100) \<le> y + 99" "y \<le> 100 * ((y + 99) div 100)"
    "400 * ((y + 399) div 400) \<le> y + 399" "y \<le> 400 * ((y + 399) div 400)"
    by linarith+
  then show "146097 * y - 396 \<le> 400 * days_before_year y"
    "400 * days_before_year y \<le> 146097 * y + 700"
    by (simp_all add: days_before_year_def)
qed

lemma year_of_bounds: "days_before_year (year_of d) \<le> d" "d < days_before_year (year_of d + 1)"
proof -
  define y where "y = d * 400 div 146097"
  have est: "146097 * y \<le> 400 * d" "400 * d < 146097 * (y + 1)"
    by (simp_all add: y_def)
  note bounds = days_before_year_bounds
  have "days_before_year (y - 1) \<le> d"
    using est bounds [of "y - 1"] by (simp add: algebra_simps)
  moreover have "d < days_before_year (2 + y)"
    using est bounds [of "2 + y"] by (simp add: algebra_simps)
  ultimately have "days_before_year (year_of d) \<le> d \<and> d < days_before_year (year_of d + 1)"
    by (simp add: year_of_def Let_def flip: y_def)
  then show "days_before_year (year_of d) \<le> d" "d < days_before_year (year_of d + 1)"
    by blast+
qed

lemma year_of_mono: "c \<le> d \<Longrightarrow> year_of c \<le> year_of d"
proof (rule ccontr)
  assume "c \<le> d" "\<not> year_of c \<le> year_of d"
  then have "days_before_year (year_of d + 1) \<le> days_before_year (year_of c)"
    by (intro days_before_year_mono) simp
  with \<open>c \<le> d\<close> year_of_bounds [of c] year_of_bounds [of d] show False by linarith
qed

lemma year_of_unique: "days_before_year y \<le> d \<Longrightarrow> d < days_before_year (y + 1) \<Longrightarrow> year_of d = y"
  using days_before_year_mono [of "year_of d + 1" y] days_before_year_mono [of "y + 1" "year_of d"]
    year_of_bounds [of d] by linarith

lemma month_of_bounds:
  assumes "0 \<le> yd" "yd < 365 + of_bool l"
  shows "1 \<le> month_of l yd" "month_of l yd \<le> 12"
    "month_start l (month_of l yd) \<le> yd" "yd < month_start l (month_of l yd + 1)"
  using assms by (cases l; simp add: month_of_def month_start_def; linarith)+

lemma month_start_mono: "1 \<le> m \<Longrightarrow> m \<le> n \<Longrightarrow> month_start l m \<le> month_start l n"
  by (cases l; simp add: month_start_def; linarith)

lemma month_of_unique:
  "1 \<le> m \<Longrightarrow> m \<le> 12 \<Longrightarrow> month_start l m \<le> yd \<Longrightarrow> yd < month_start l (m + 1) \<Longrightarrow> month_of l yd = m"
  by (cases l; simp add: month_of_def month_start_def split: if_splits; linarith)

lemma days_in_bounds: "1 \<le> m \<Longrightarrow> m \<le> 12 \<Longrightarrow> 28 \<le> days_in m y \<and> days_in m y \<le> 31"
  by (cases "leap y"; simp add: days_in_def month_start_def; linarith)

section \<open>Printing\<close>

text \<open>\<open>appendInt(b, x, width)\<close> of package \<open>time\<close>.\<close>

definition appendInt :: "int \<Rightarrow> nat \<Rightarrow> string" where
  "appendInt x w =
     (if x < 0 then ''-'' else []) @
     (if \<bar>x\<bar> < 10 ^ w then pad w (nat \<bar>x\<bar>) else dec (nat \<bar>x\<bar>))"

text \<open>The first nineteen characters, from the seconds.\<close>

definition format_seconds :: "int \<Rightarrow> string" where
  "format_seconds s =
     (let d = s div 86400; r = s mod 86400;
          y = year_of d; yd = d - days_before_year y;
          m = month_of (leap y) yd; md = yd - month_start (leap y) m + 1
      in appendInt y 4 @ ''-'' @ appendInt m 2 @ ''-'' @ appendInt md 2 @ ''T'' @
         appendInt (r div 3600) 2 @ '':'' @ appendInt (r mod 3600 div 60) 2 @ '':'' @
         appendInt (r mod 60) 2)"

text \<open>The fraction of the layout \<open>.999999999\<close>: trailing zeros go, and the dot with them.\<close>

definition strip_zeros :: "string \<Rightarrow> string" where
  "strip_zeros s = rev (dropWhile (\<lambda>c. c = CHR ''0'') (rev s))"

definition format_fraction :: "int \<Rightarrow> string" where
  "format_fraction ns =
     (let ds = strip_zeros (pad 9 (nat ns)) in if ds = [] then [] else ''.'' @ ds)"

definition FormatRFC3339Nano :: "time \<Rightarrow> string" where
  "FormatRFC3339Nano t =
     format_seconds (t div Second) @ format_fraction (t mod Second) @ ''Z''"

definition FormatRFC3339 :: "time \<Rightarrow> string" where
  "FormatRFC3339 t = format_seconds (t div Second) @ ''Z''"

section \<open>Parsing\<close>

definition parse_uint :: "string \<Rightarrow> int \<Rightarrow> int \<Rightarrow> int option" where
  "parse_uint s lo hi =
     (let n = int (read_digits s)
      in if list_all is_digit s \<and> lo \<le> n \<and> n \<le> hi then Some n else None)"

definition slice :: "nat \<Rightarrow> nat \<Rightarrow> string \<Rightarrow> string" where
  "slice i j s = take (j - i) (drop i s)"

definition parse_seconds :: "string \<Rightarrow> int option" where
  "parse_seconds s =
     (if length s < 19 then None
      else do {
        y \<leftarrow> parse_uint (slice 0 4 s) 0 9999;
        m \<leftarrow> parse_uint (slice 5 7 s) 1 12;
        md \<leftarrow> parse_uint (slice 8 10 s) 1 (days_in m y);
        h \<leftarrow> parse_uint (slice 11 13 s) 0 23;
        mi \<leftarrow> parse_uint (slice 14 16 s) 0 59;
        sec \<leftarrow> parse_uint (slice 17 19 s) 0 59;
        if slice 4 5 s = ''-'' \<and> slice 7 8 s = ''-'' \<and> slice 10 11 s = ''T'' \<and>
           slice 13 14 s = '':'' \<and> slice 16 17 s = '':''
        then Some ((days_before_year y + month_start (leap y) m + md - 1) * 86400
                   + h * 3600 + mi * 60 + sec)
        else None })"

text \<open>Nine digits of the fraction count, and the rest of the text follows it.\<close>

definition parse_fraction :: "string \<Rightarrow> int \<times> string" where
  "parse_fraction s =
     (case s of
        c # e # r \<Rightarrow>
          (if c = CHR ''.'' \<and> is_digit e then
             let ds = take 9 (takeWhile is_digit (e # r))
             in (int (read_digits ds) * 10 ^ (9 - length ds), dropWhile is_digit (e # r))
           else (0, s))
      | _ \<Rightarrow> (0, s))"

definition parse_zone :: "string \<Rightarrow> int option" where
  "parse_zone s =
     (if s = ''Z'' then Some 0
      else if length s \<noteq> 6 then None
      else do {
        h \<leftarrow> parse_uint (slice 1 3 s) 0 23;
        m \<leftarrow> parse_uint (slice 4 6 s) 0 59;
        if (slice 0 1 s = ''-'' \<or> slice 0 1 s = ''+'') \<and> slice 3 4 s = '':''
        then Some ((if slice 0 1 s = ''-'' then -1 else 1) * (h * 60 + m) * 60)
        else None })"

text \<open>
  \<open>time.Parse(time.RFC3339Nano, s)\<close>, by the algorithm of \<open>parseRFC3339\<close>.  The
  fallback Go tries after it accepts a few texts more (a comma before the fraction, one
  digit for the hour), none of which the service writes.
\<close>

definition ParseRFC3339Nano :: "string \<Rightarrow> error + time" where
  "ParseRFC3339Nano s =
     (case do {
        sec \<leftarrow> parse_seconds s;
        let (ns, rest) = parse_fraction (drop 19 s);
        off \<leftarrow> parse_zone rest;
        Some ((sec - off) * Second + ns) }
      of None \<Rightarrow> Inl (Time_Error s) | Some t \<Rightarrow> Inr t)"

section \<open>The texts the store writes\<close>

text \<open>The times the layout can hold: years 0 to 9999.\<close>

definition storable :: "time \<Rightarrow> bool" where
  "storable t \<longleftrightarrow> 0 \<le> t \<and> t < days_before_year 10000 * 86400 * Second"

lemma storable_seconds:
  "storable t \<Longrightarrow> 0 \<le> t div Second \<and> t div Second < days_before_year 10000 * 86400"
  by (auto simp: storable_def Second_def pos_imp_zdiv_nonneg_iff div_less_iff_less_mult)

lemma appendInt_pad: "0 \<le> x \<Longrightarrow> x < 10 ^ w \<Longrightarrow> appendInt x w = pad w (nat x)"
  by (simp add: appendInt_def)

lemma parse_uint_pad:
  "0 \<le> x \<Longrightarrow> x < 10 ^ w \<Longrightarrow> lo \<le> x \<Longrightarrow> x \<le> hi \<Longrightarrow> parse_uint (pad w (nat x)) lo hi = Some x"
  using nat_less_iff [of x "10 ^ w"]
  by (auto simp: parse_uint_def Let_def read_digits_pad list_all_iff pad_is_digit)

text \<open>The calendar fields of a second, and the number they stand for.\<close>

lemma format_seconds_fields:
  fixes s :: int
  assumes "0 \<le> s" "s < days_before_year 10000 * 86400"
  defines "d \<equiv> s div 86400" and "r \<equiv> s mod 86400"
  defines "y \<equiv> year_of d"
  defines "yd \<equiv> d - days_before_year y"
  defines "m \<equiv> month_of (leap y) yd"
  defines "md \<equiv> yd - month_start (leap y) m + 1"
  shows "0 \<le> y" "y \<le> 9999" "1 \<le> m" "m \<le> 12" "1 \<le> md" "md \<le> days_in m y"
    "0 \<le> yd" "yd < 365 + of_bool (leap y)"
    "s = (days_before_year y + month_start (leap y) m + md - 1) * 86400
       + r div 3600 * 3600 + r mod 3600 div 60 * 60 + r mod 60"
    "format_seconds s = pad 4 (nat y) @ ''-'' @ pad 2 (nat m) @ ''-'' @ pad 2 (nat md) @ ''T'' @
       pad 2 (nat (r div 3600)) @ '':'' @ pad 2 (nat (r mod 3600 div 60)) @ '':'' @
       pad 2 (nat (r mod 60))"
proof -
  have d: "0 \<le> d" "d < days_before_year 10000"
    using assms(1,2) by (simp_all add: d_def pos_imp_zdiv_nonneg_iff div_less_iff_less_mult)
  have r: "0 \<le> r" "r < 86400" by (simp_all add: r_def)
  note yb = year_of_bounds [of d, folded y_def]
  show y0: "0 \<le> y"
    using year_of_mono [of 0 d] year_of_unique [of 0 0] d
    by (simp add: y_def days_before_year_def)
  show y1: "y \<le> 9999"
  proof (rule ccontr)
    assume "\<not> y \<le> 9999"
    with days_before_year_mono [of 10000 y] yb d show False by simp
  qed
  show yd: "0 \<le> yd" "yd < 365 + of_bool (leap y)"
    using yb days_before_year_Suc [of y] by (simp_all add: yd_def)
  note mb = month_of_bounds [OF yd, folded m_def]
  show m: "1 \<le> m" "m \<le> 12" by (rule mb)+
  show md: "1 \<le> md" "md \<le> days_in m y" using mb unfolding md_def days_in_def by linarith+
  have "r div 3600 * 3600 + r mod 3600 = r" by (rule div_mult_mod_eq)
  moreover have "r mod 3600 div 60 * 60 + r mod 3600 mod 60 = r mod 3600" by (rule div_mult_mod_eq)
  moreover have mm: "r mod 3600 mod 60 = r mod 60" by (simp add: mod_mod_cancel)
  moreover have "s = d * 86400 + r" by (simp add: d_def r_def)
  ultimately show "s = (days_before_year y + month_start (leap y) m + md - 1) * 86400
       + r div 3600 * 3600 + r mod 3600 div 60 * 60 + r mod 60"
    by (simp add: md_def yd_def)
  have "r div 3600 < 24" "r mod 3600 div 60 < 60"
    using r by (simp_all add: div_less_iff_less_mult)
  moreover have "0 \<le> r div 3600" "0 \<le> r mod 3600 div 60"
    using r by (simp_all add: pos_imp_zdiv_nonneg_iff)
  moreover have "md < 100" using md days_in_bounds [OF m, of y] by linarith
  ultimately show "format_seconds s = pad 4 (nat y) @ ''-'' @ pad 2 (nat m) @ ''-'' @ pad 2 (nat md) @ ''T'' @
       pad 2 (nat (r div 3600)) @ '':'' @ pad 2 (nat (r mod 3600 div 60)) @ '':'' @
       pad 2 (nat (r mod 60))"
    using y0 y1 m md
    by (simp add: format_seconds_def Let_def appendInt_pad flip: d_def r_def y_def yd_def m_def md_def)
qed

lemma length_format_seconds:
  "0 \<le> s \<Longrightarrow> s < days_before_year 10000 * 86400 \<Longrightarrow> length (format_seconds s) = 19"
  by (subst format_seconds_fields(10)) simp_all

lemma parse_seconds_fields:
  assumes "0 \<le> y" "y \<le> 9999" "1 \<le> m" "m \<le> 12" "1 \<le> md" "md \<le> days_in m y"
    "0 \<le> h" "h < 24" "0 \<le> mi" "mi < 60" "0 \<le> sec" "sec < 60"
  shows "parse_seconds (pad 4 (nat y) @ ''-'' @ pad 2 (nat m) @ ''-'' @ pad 2 (nat md) @ ''T'' @
       pad 2 (nat h) @ '':'' @ pad 2 (nat mi) @ '':'' @ pad 2 (nat sec) @ u) =
     Some ((days_before_year y + month_start (leap y) m + md - 1) * 86400 + h * 3600 + mi * 60 + sec)"
proof -
  have "md < 100" using assms(3-6) days_in_bounds [of m y] by linarith
  with assms show ?thesis
    unfolding parse_seconds_def by (simp add: slice_def parse_uint_pad)
qed

lemma parse_format_seconds:
  assumes "0 \<le> s" "s < days_before_year 10000 * 86400"
  shows "parse_seconds (format_seconds s @ u) = Some s"
proof -
  let ?r = "s mod 86400"
  note f = format_seconds_fields [OF assms]
  have "0 \<le> ?r div 3600" "?r div 3600 < 24" "0 \<le> ?r mod 3600 div 60" "?r mod 3600 div 60 < 60"
    "0 \<le> ?r mod 60" "?r mod 60 < 60"
    by (simp_all add: pos_imp_zdiv_nonneg_iff div_less_iff_less_mult)
  note p = parse_seconds_fields [OF f(1-6) this, of u]
  show ?thesis
    using p unfolding f(9) [symmetric] by (simp add: f(10))
qed

lemma strip_zeros_pad:
  "\<exists>k. s = strip_zeros s @ replicate k (CHR ''0'')"
proof -
  have "takeWhile (\<lambda>c. c = CHR ''0'') (rev s) = replicate (length (takeWhile (\<lambda>c. c = CHR ''0'') (rev s))) (CHR ''0'')"
    by (intro replicate_eqI) (auto dest: set_takeWhileD)
  then show ?thesis
    by (metis strip_zeros_def takeWhile_dropWhile_id rev_append rev_replicate rev_rev_ident)
qed

lemma read_digits_zeros: "read_digits (s @ replicate k (CHR ''0'')) = read_digits s * 10 ^ k"
proof (induction k)
  case (Suc k)
  have "s @ replicate (Suc k) (CHR ''0'') = (s @ replicate k (CHR ''0'')) @ [CHR ''0'']"
    by (simp add: replicate_append_same)
  with Suc show ?case by (simp only: read_digits_snoc) (simp add: digit_value_def)
qed simp

lemma parse_format_fraction:
  assumes "0 \<le> ns" "ns < Second"
  shows "parse_fraction (format_fraction ns @ ''Z'') = (ns, ''Z'')"
proof -
  define ds where "ds = strip_zeros (pad 9 (nat ns))"
  obtain k where k: "pad 9 (nat ns) = ds @ replicate k (CHR ''0'')"
    using strip_zeros_pad ds_def by metis
  have "length (pad 9 (nat ns)) = length ds + k" by (simp add: k)
  then have k9: "k = 9 - length ds" "length ds \<le> 9" by simp_all
  have "nat ns < 10 ^ 9" using assms by (simp add: Second_def nat_less_iff)
  then have val: "read_digits ds * 10 ^ (9 - length ds) = nat ns"
    using read_digits_zeros [of ds k] read_digits_pad [of "nat ns" 9] k k9 by simp
  have dig: "\<forall>c \<in> set ds. is_digit c"
    using pad_is_digit [of _ 9 "nat ns"] by (simp add: k)
  have fr: "format_fraction ns = (if ds = [] then [] else ''.'' @ ds)"
    by (simp add: format_fraction_def ds_def Let_def)
  have z: "\<not> is_digit (CHR ''Z'')" by (simp add: is_digit_def)
  show ?thesis
  proof (cases ds)
    case Nil
    with val assms have "ns = 0" by (simp add: read_digits_def)
    moreover have "format_fraction ns = []" using Nil by (simp add: fr)
    ultimately show ?thesis by (simp add: parse_fraction_def)
  next
    case (Cons e r)
    with dig z have "takeWhile is_digit (e # r @ ''Z'') = ds" "dropWhile is_digit (e # r @ ''Z'') = ''Z''"
      by (auto simp: takeWhile_append dropWhile_append)
    moreover from Cons dig have "is_digit e" by simp
    moreover have "int (read_digits ds) * 10 ^ (9 - length ds) = ns"
      using val assms(1) by (metis int_nat_eq of_nat_mult of_nat_numeral of_nat_power)
    ultimately show ?thesis
      using Cons k9 by (simp add: fr parse_fraction_def Let_def)
  qed
qed

lemma parse_format: "storable t \<Longrightarrow> ParseRFC3339Nano (FormatRFC3339Nano t) = Inr t"
proof -
  assume "storable t"
  note s = conjunct1 [OF storable_seconds [OF this]] conjunct2 [OF storable_seconds [OF this]]
  have "parse_fraction (format_fraction (t mod Second) @ ''Z'') = (t mod Second, ''Z'')"
    by (rule parse_format_fraction) (simp_all add: Second_def)
  moreover have "drop 19 (FormatRFC3339Nano t) = format_fraction (t mod Second) @ ''Z''"
    using length_format_seconds [OF s] by (simp add: FormatRFC3339Nano_def)
  moreover have "parse_seconds (FormatRFC3339Nano t) = Some (t div Second)"
    unfolding FormatRFC3339Nano_def by (rule parse_format_seconds [OF s])
  ultimately show ?thesis by (simp add: ParseRFC3339Nano_def parse_zone_def)
qed

section \<open>The order of the texts\<close>

lemma less_div_mod:
  fixes a b n :: int
  assumes "a < b" "0 < n"
  shows "a div n < b div n \<or> (a div n = b div n \<and> a mod n < b mod n)"
  using assms zdiv_mono1 [of a b n] div_mult_mod_eq [of a n] div_mult_mod_eq [of b n]
  by (metis add_less_cancel_left less_le nat_less_le order.strict_implies_order)

lemma text_less_field:
  "0 \<le> a \<Longrightarrow> b < 10 ^ w \<Longrightarrow> a < b \<or> (a = b \<and> text_less x y) \<Longrightarrow>
     text_less (pad w (nat a) @ x) (pad w (nat b) @ y)"
  using text_less_append [of "pad w (nat a)" "pad w (nat b)"] text_less_pad [of "nat a" "nat b" w]
  by (auto simp: nat_less_iff)

lemma date_less:
  assumes "0 \<le> a" "a < b"
  defines "f \<equiv> \<lambda>d. d - days_before_year (year_of d)"
  defines "g \<equiv> \<lambda>d. month_of (leap (year_of d)) (f d)"
  shows "year_of a < year_of b \<or> (year_of a = year_of b \<and>
    (g a < g b \<or> (g a = g b \<and> f a - month_start (leap (year_of a)) (g a) + 1 <
                              f b - month_start (leap (year_of b)) (g b) + 1)))"
proof (cases "year_of a = year_of b")
  case True
  have fb: "0 \<le> f d" "f d < 365 + of_bool (leap (year_of d))" for d
    using year_of_bounds [of d] days_before_year_Suc [of "year_of d"] by (simp_all add: f_def)
  have lt: "f a < f b" using True assms(2) by (simp add: f_def)
  note ma = month_of_bounds [OF fb [of a], folded g_def] and mb = month_of_bounds [OF fb [of b], folded g_def]
  have "\<not> g b < g a"
  proof
    assume "g b < g a"
    then have "month_start (leap (year_of a)) (g b + 1) \<le> month_start (leap (year_of a)) (g a)"
      using mb(1) by (intro month_start_mono) (simp_all add: g_def)
    with ma mb lt True show False by (simp add: g_def)
  qed
  with True lt show ?thesis by auto
next
  case False
  with year_of_mono [of a b] assms(2) show ?thesis by auto
qed

lemma text_less_fields:
  assumes "0 \<le> y" "y' < 10000" "0 \<le> m" "m' < 100" "0 \<le> d" "d' < 100"
    "0 \<le> h" "h' < 100" "0 \<le> mi" "mi' < 100" "0 \<le> sec" "sec' < 100"
    and less: "(y < y' \<or> y = y' \<and> (m < m' \<or> m = m' \<and> d < d')) \<or>
      (y = y' \<and> m = m' \<and> d = d' \<and> (h < h' \<or> h = h' \<and> (mi < mi' \<or> mi = mi' \<and> sec < sec')))"
  shows "text_less
    (pad 4 (nat y) @ ''-'' @ pad 2 (nat m) @ ''-'' @ pad 2 (nat d) @ ''T'' @
       pad 2 (nat h) @ '':'' @ pad 2 (nat mi) @ '':'' @ pad 2 (nat sec))
    (pad 4 (nat y') @ ''-'' @ pad 2 (nat m') @ ''-'' @ pad 2 (nat d') @ ''T'' @
       pad 2 (nat h') @ '':'' @ pad 2 (nat mi') @ '':'' @ pad 2 (nat sec'))"
proof -
  have last: "sec < sec' \<Longrightarrow> text_less (pad 2 (nat sec)) (pad 2 (nat sec'))"
    using assms(11,12) by (intro text_less_pad) (auto simp: nat_less_iff)
  show ?thesis
    using assms last by (intro text_less_field) (auto intro!: text_less_field)
qed

lemma format_seconds_less:
  assumes "0 \<le> a" "a < b" "b < days_before_year 10000 * 86400"
  shows "text_less (format_seconds a) (format_seconds b)"
proof -
  have a: "0 \<le> a" "a < days_before_year 10000 * 86400" and b: "0 \<le> b" "b < days_before_year 10000 * 86400"
    using assms by simp_all
  note fa = format_seconds_fields [OF a] and fb = format_seconds_fields [OF b]
  have r: "0 \<le> s mod 86400 div 3600" "s mod 86400 div 3600 < 100"
    "0 \<le> s mod 86400 mod 3600 div 60" "s mod 86400 mod 3600 div 60 < 100"
    "0 \<le> s mod 86400 mod 60" for s :: int
    by (simp_all add: pos_imp_zdiv_nonneg_iff div_less_iff_less_mult)
  have r60: "s mod 86400 mod 60 < 100" for s :: int
    by (rule less_trans [OF pos_mod_bound]) simp_all
  have a0: "a div 86400 \<ge> 0" using a by (simp add: pos_imp_zdiv_nonneg_iff)
  have clock: "x div 3600 < y div 3600 \<or> x div 3600 = y div 3600 \<and>
      (x mod 3600 div 60 < y mod 3600 div 60 \<or>
       x mod 3600 div 60 = y mod 3600 div 60 \<and> x mod 60 < y mod 60)" if "x < y" for x y :: int
    using less_div_mod [OF that, of 3600] less_div_mod [of "x mod 3600" "y mod 3600" 60]
    by (auto simp: mod_mod_cancel)
  have md: "days_in m y < 100" if "1 \<le> m" "m \<le> 12" for m y
    using days_in_bounds [OF that, of y] by linarith
  show ?thesis
    unfolding fa(10) fb(10)
  proof (rule text_less_fields, goal_cases)
    case 1 show ?case by (rule fa(1)) next
    case 2 show ?case using fb(2) by simp next
    case 3 show ?case using fa(3) by simp next
    case 4 show ?case using fb(4) by simp next
    case 5 show ?case using fa(5) by simp next
    case 6 show ?case by (rule le_less_trans [OF fb(6) md [OF fb(3,4)]]) next
    case 13
    from less_div_mod [OF assms(2), of 86400] show ?case
    proof
      assume "a div 86400 < b div 86400"
      from date_less [OF a0 this] show ?thesis by (rule disjI1)
    next
      assume "a div 86400 = b div 86400 \<and> a mod 86400 < b mod 86400"
      then have eq: "a div 86400 = b div 86400" and lt: "a mod 86400 < b mod 86400" by blast+
      show ?thesis
        unfolding eq by (rule disjI2, (rule conjI, rule refl)+, rule clock [OF lt])
    qed simp
  qed (rule r r60)+
qed

text \<open>
  Texts of times in different seconds compare like the times.  Within one second they need
  not: the layout drops trailing zeros, and \<open>Z\<close> comes after every digit and the dot.
\<close>

lemma Format_less:
  assumes "storable a" "storable b" "a div Second < b div Second"
  shows "text_less (FormatRFC3339Nano a) (FormatRFC3339Nano b)"
  using storable_seconds [OF assms(1)] storable_seconds [OF assms(2)] assms(3)
  unfolding FormatRFC3339Nano_def
  by (intro text_less_append format_seconds_less) (simp_all add: length_format_seconds)

lemma Format_le_seconds:
  assumes "storable a" "storable b" "text_le (FormatRFC3339Nano a) (FormatRFC3339Nano b)"
  shows "a div Second \<le> b div Second"
  using Format_less [OF assms(2,1)] assms(3) by (auto simp: text_le_def not_le [symmetric])

lemma Format_le_early:
  assumes "storable a" "storable b" "text_le (FormatRFC3339Nano a) (FormatRFC3339Nano b)"
  shows "a < b + Second"
proof -
  have "0 < Second" by (simp add: Second_def)
  then show ?thesis
    using Format_le_seconds [OF assms] div_mult_mod_eq [of a Second] div_mult_mod_eq [of b Second]
      pos_mod_bound [of Second a] pos_mod_sign [of Second b]
      mult_right_mono [of "a div Second" "b div Second" Second] by linarith
qed

lemma Format_le_late:
  assumes "storable a" "storable b" "a + Second \<le> b"
  shows "text_le (FormatRFC3339Nano a) (FormatRFC3339Nano b)"
proof -
  have "(a + Second) div Second \<le> b div Second"
    using assms(3) by (intro zdiv_mono1) (simp_all add: Second_def)
  then have "a div Second < b div Second" by (simp add: Second_def)
  from Format_less [OF assms(1,2) this] show ?thesis by (simp add: text_le_iff)
qed

lemma Format_inject: "storable a \<Longrightarrow> storable b \<Longrightarrow> FormatRFC3339Nano a = FormatRFC3339Nano b \<Longrightarrow> a = b"
  by (metis parse_format sum.inject(2))

text \<open>The fraction of a second is printed after a dot, and the dot comes before the \<open>Z\<close>.\<close>

lemma pad_0: "pad w 0 = replicate w (CHR ''0'')"
proof -
  have "digit 0 = CHR ''0''" by (simp add: digit_def) code_simp
  then show ?thesis by (induction w) (simp_all add: replicate_append_same)
qed

lemma format_fraction_0: "format_fraction 0 = []"
  by (simp add: format_fraction_def strip_zeros_def pad_0)

lemma Format_fraction_first:
  assumes "storable t" "t mod Second = 0" "0 < f" "f < Second"
  shows "text_less (FormatRFC3339Nano (t + f)) (FormatRFC3339Nano t)"
proof -
  have sec: "(t + f) div Second = t div Second" "(t + f) mod Second = f"
  proof -
    obtain q where t: "t = q * Second" 
      using assms(2) by (metis add.right_neutral div_mult_mod_eq)
    show "(t + f) div Second = t div Second" "(t + f) mod Second = f"
      using assms(3,4) by (simp_all add: t Second_def)
  qed
  have st: "storable (t + f)"
  proof -
    have "(t + f) div Second < days_before_year 10000 * 86400"
      using storable_seconds [OF assms(1)] sec(1) by simp
    then have "t + f < days_before_year 10000 * 86400 * Second"
      by (simp add: Second_def div_less_iff_less_mult)
    then show ?thesis using assms(1,3) by (simp add: storable_def)
  qed
  have "format_fraction f \<noteq> []"
  proof
    assume "format_fraction f = []"
    then have "FormatRFC3339Nano (t + f) = FormatRFC3339Nano t"
      by (simp add: FormatRFC3339Nano_def sec assms(2) format_fraction_0)
    from Format_inject [OF st assms(1) this] assms(3) show False by simp
  qed
  then obtain ds where "format_fraction f = ''.'' @ ds"
    by (auto simp: format_fraction_def Let_def split: if_splits)
  then show ?thesis
    by (simp add: FormatRFC3339Nano_def sec assms(2) format_fraction_0)
qed

end
