(* ===== verification/Sql.thy ===== *)
theory Sql
  imports GoTime "HOL-Library.Multiset"
begin

text \<open>
  The SQL of the service.  The statements of \<open>internal/store\<close> are the constructors of
  \<open>exec_stmt\<close>, \<open>req_query\<close> and \<open>audit_query\<close>, with the bound parameters as arguments;
  \<open>exec_sem\<close>, \<open>query_sem\<close> and \<open>audit_sem\<close> say what such a statement means on the three
  tables.  The engine itself (package \<open>modernc.org/sqlite\<close>) is not part of the repository:
  it is a parameter, and the locale \<open>sqlite\<close> states what the service relies on -- a statement
  that succeeds did what the SQL says, one that fails changed nothing.  Nothing says that a
  statement succeeds; the locale \<open>sqlite_up\<close> adds that for an engine that is healthy.
  A \<open>CREATE TABLE\<close> and the \<open>CREATE INDEX\<close> after it in the same text are one statement here: an
  index holds no rows of its own, and the next start creates one that is missing.
\<close>

section \<open>Rows\<close>

record req_row =
  c_id :: string
  c_username :: string
  c_justification :: string
  c_status :: string
  c_created_at :: string
  c_request_expires_at :: string
  c_approved_at :: "string option"
  c_approved_by :: "string option"
  c_active_expires_at :: "string option"
  c_released_at :: "string option"
  c_approval_notes :: string

record audit_row =
  a_id :: int
  a_at :: string
  a_action :: string
  a_actor :: string
  a_subject :: string
  a_request_id :: string
  a_justification :: string
  a_detail :: string
  a_break_glass :: int

record notif_row =
  n_request_id :: string
  n_kind :: string
  n_sent_at :: string

text \<open>
  The database: which tables (and the late column \<open>approval_notes\<close>) exist, the rows in
  the order of insertion, and the highest id \<open>AUTOINCREMENT\<close> has given out.
\<close>

record tables =
  has_requests :: bool
  has_notes :: bool
  has_audit :: bool
  has_notifs :: bool
  t_requests :: "req_row list"
  t_audit :: "audit_row list"
  t_seq :: int
  t_notifs :: "notif_row list"

definition empty_tables :: tables where
  "empty_tables =
     \<lparr>has_requests = False, has_notes = False, has_audit = False, has_notifs = False,
      t_requests = [], t_audit = [], t_seq = 0, t_notifs = []\<rparr>"

section \<open>Statements\<close>

text \<open>The columns \<open>byStatusBefore\<close> pastes into its query.\<close>

datatype time_col = Col_request_expires_at | Col_active_expires_at

fun col_value :: "time_col \<Rightarrow> req_row \<Rightarrow> string option" where
  "col_value Col_request_expires_at r = Some (c_request_expires_at r)"
| "col_value Col_active_expires_at r = c_active_expires_at r"

datatype exec_stmt =
    CreateTableRequests
  | CreateTableAudit
  | CreateTableNotifications
  | AddColumnApprovalNotes
  | InsertRequest req_row
  | UpdateRequest string "string option" "string option" "string option" "string option" string string
      \<comment> \<open>status, approved_at, approved_by, active_expires_at, released_at, approval_notes; id\<close>
  | InsertAudit audit_row       \<comment> \<open>the id of the row is chosen by the engine\<close>
  | InsertNotification notif_row

datatype req_query =
    SelectRequest string
  | SelectRequests
  | SelectByStatusBefore string time_col string

text \<open>The audit query: the conditions that were appended, if any, and the limit.\<close>

datatype audit_query = SelectAudit "string option" "string option" "int option" int

section \<open>Meaning\<close>

definition update_row ::
  "string \<Rightarrow> string option \<Rightarrow> string option \<Rightarrow> string option \<Rightarrow> string option \<Rightarrow> string \<Rightarrow> req_row \<Rightarrow> req_row"
where
  "update_row st aat aby aexp rel notes r =
     r\<lparr>c_status := st, c_approved_at := aat, c_approved_by := aby,
       c_active_expires_at := aexp, c_released_at := rel, c_approval_notes := notes\<rparr>"

definition notif_key :: "notif_row \<Rightarrow> string \<times> string" where
  "notif_key n = (n_request_id n, n_kind n)"

text \<open>\<open>exec_sem s t (n, i) t'\<close>: \<open>s\<close> succeeds on \<open>t\<close>, affects \<open>n\<close> rows, and \<open>i\<close> is the
  last insert id where \<open>s\<close> inserts into the audit table.\<close>

fun exec_sem :: "exec_stmt \<Rightarrow> tables \<Rightarrow> nat \<times> int \<Rightarrow> tables \<Rightarrow> bool" where
  "exec_sem CreateTableRequests t (n, i) t' =
     (t' = (if has_requests t then t
            else t\<lparr>has_requests := True, has_notes := True, t_requests := []\<rparr>))"
| "exec_sem CreateTableAudit t (n, i) t' =
     (t' = (if has_audit t then t else t\<lparr>has_audit := True, t_audit := [], t_seq := 0\<rparr>))"
| "exec_sem CreateTableNotifications t (n, i) t' =
     (t' = (if has_notifs t then t else t\<lparr>has_notifs := True, t_notifs := []\<rparr>))"
| "exec_sem AddColumnApprovalNotes t (n, i) t' =
     (has_requests t \<and> \<not> has_notes t \<and>
      t' = t\<lparr>has_notes := True,
             t_requests := map (\<lambda>r. r\<lparr>c_approval_notes := []\<rparr>) (t_requests t)\<rparr>)"
| "exec_sem (InsertRequest r) t (n, i) t' =
     (has_requests t \<and> has_notes t \<and> c_id r \<notin> c_id ` set (t_requests t) \<and> n = 1 \<and>
      t' = t\<lparr>t_requests := t_requests t @ [r]\<rparr>)"
| "exec_sem (UpdateRequest st aat aby aexp rel notes rid) t (n, i) t' =
     (has_requests t \<and> has_notes t \<and>
      n = length (filter (\<lambda>r. c_id r = rid) (t_requests t)) \<and>
      t' = t\<lparr>t_requests :=
               map (\<lambda>r. if c_id r = rid then update_row st aat aby aexp rel notes r else r)
                 (t_requests t)\<rparr>)"
| "exec_sem (InsertAudit e) t (n, i) t' =
     (has_audit t \<and> n = 1 \<and> t_seq t < i \<and>
      t' = t\<lparr>t_audit := t_audit t @ [e\<lparr>a_id := i\<rparr>], t_seq := i\<rparr>)"
| "exec_sem (InsertNotification e) t (n, i) t' =
     (has_notifs t \<and>
      (if notif_key e \<in> notif_key ` set (t_notifs t) then n = 0 \<and> t' = t
       else n = 1 \<and> t' = t\<lparr>t_notifs := t_notifs t @ [e]\<rparr>))"

text \<open>
  A query without \<open>ORDER BY\<close> may return the rows in any order, and \<open>ORDER BY created_at\<close>
  leaves ties open: the meaning of a query is the multiset of rows and, where it sorts, the
  order.
\<close>

definition same_rows :: "'a list \<Rightarrow> 'a list \<Rightarrow> bool" where
  "same_rows xs ys \<longleftrightarrow> mset xs = mset ys"

fun query_sem :: "req_query \<Rightarrow> tables \<Rightarrow> req_row list \<Rightarrow> bool" where
  "query_sem (SelectRequest rid) t rs =
     (has_requests t \<and> has_notes t \<and> same_rows rs (filter (\<lambda>r. c_id r = rid) (t_requests t)))"
| "query_sem SelectRequests t rs =
     (has_requests t \<and> has_notes t \<and> same_rows rs (t_requests t) \<and>
      sorted_wrt (\<lambda>r s. text_le (c_created_at s) (c_created_at r)) rs)"
| "query_sem (SelectByStatusBefore st col now) t rs =
     (has_requests t \<and> has_notes t \<and>
      same_rows rs
        (filter (\<lambda>r. c_status r = st \<and>
            (case col_value col r of None \<Rightarrow> False | Some v \<Rightarrow> text_le v now)) (t_requests t)))"

definition audit_match :: "string option \<Rightarrow> string option \<Rightarrow> int option \<Rightarrow> audit_row \<Rightarrow> bool" where
  "audit_match rid actor bg e \<longleftrightarrow>
     (case rid of None \<Rightarrow> True | Some x \<Rightarrow> a_request_id e = x) \<and>
     (case actor of None \<Rightarrow> True | Some x \<Rightarrow> a_actor e = x) \<and>
     (case bg of None \<Rightarrow> True | Some x \<Rightarrow> a_break_glass e = x)"

text \<open>Rows of the audit table have increasing ids, so \<open>ORDER BY id DESC\<close> reverses them.\<close>

fun audit_sem :: "audit_query \<Rightarrow> tables \<Rightarrow> audit_row list \<Rightarrow> bool" where
  "audit_sem (SelectAudit rid actor bg lim) t rs =
     (has_audit t \<and> rs = take (nat lim) (rev (filter (audit_match rid actor bg) (t_audit t))))"

lemma same_rows_refl [simp]: "same_rows xs xs"
  by (simp add: same_rows_def)

lemma same_rows_set: "same_rows xs ys \<Longrightarrow> set xs = set ys"
  unfolding same_rows_def by (rule mset_eq_setD)

lemma same_rows_distinct: "same_rows xs ys \<Longrightarrow> distinct ys \<Longrightarrow> distinct xs"
  using mset_eq_imp_distinct_iff [of xs ys] by (simp add: same_rows_def)

lemma same_rows_map_distinct:
  assumes "same_rows xs ys" "distinct (map f ys)"
  shows "distinct (map f xs)"
proof -
  from assms(1) have "mset (map f xs) = mset (map f ys)" by (simp add: same_rows_def)
  from mset_eq_imp_distinct_iff [OF this] assms(2) show ?thesis by blast
qed

lemma same_rows_single: "same_rows xs [y] \<Longrightarrow> xs = [y]"
  by (simp add: same_rows_def)

lemma same_rows_Nil: "same_rows xs [] \<longleftrightarrow> xs = []"
  by (simp add: same_rows_def)

section \<open>The engine\<close>

locale sqlite =
  fixes exec :: "exec_stmt \<Rightarrow> 'd \<Rightarrow> (error + nat \<times> int) \<times> 'd"
    and query :: "req_query \<Rightarrow> 'd \<Rightarrow> (error + req_row list) \<times> 'd"
    and query_audit :: "audit_query \<Rightarrow> 'd \<Rightarrow> (error + audit_row list) \<times> 'd"
    and tabs :: "'d \<Rightarrow> tables"
  assumes exec_ok: "exec s d = (Inr r, d') \<Longrightarrow> exec_sem s (tabs d) r (tabs d')"
    and exec_err: "exec s d = (Inl e, d') \<Longrightarrow> tabs d' = tabs d"
    and query_ok: "query q d = (Inr rs, d') \<Longrightarrow> query_sem q (tabs d) rs"
    and query_frame: "query q d = (rq, d') \<Longrightarrow> tabs d' = tabs d"
    and audit_ok: "query_audit a d = (Inr es, d') \<Longrightarrow> audit_sem a (tabs d) es"
    and audit_frame: "query_audit a d = (ra, d') \<Longrightarrow> tabs d' = tabs d"
    and duplicate: "exec AddColumnApprovalNotes d = (Inl e, d') \<Longrightarrow>
          Contains (ToLower (error_text e)) ''duplicate'' \<Longrightarrow>
          has_requests (tabs d) \<and> has_notes (tabs d)"

text \<open>An engine that is up: a statement the tables allow succeeds.\<close>

locale sqlite_up = sqlite +
  fixes healthy :: "'d \<Rightarrow> bool"
  assumes exec_healthy: "healthy d \<Longrightarrow> exec s d = (r, d') \<Longrightarrow> healthy d'"
    and query_healthy: "healthy d \<Longrightarrow> query q d = (rq, d') \<Longrightarrow> healthy d'"
    and audit_healthy: "healthy d \<Longrightarrow> query_audit a d = (ra, d') \<Longrightarrow> healthy d'"
    and exec_up: "healthy d \<Longrightarrow> exec_sem s (tabs d) n t \<Longrightarrow> ok (fst (exec s d))"
    and query_up: "healthy d \<Longrightarrow> query_sem q (tabs d) rs \<Longrightarrow> ok (fst (query q d))"
    and audit_up: "healthy d \<Longrightarrow> audit_sem a (tabs d) es \<Longrightarrow> ok (fst (query_audit a d))"
    and column_exists: "healthy d \<Longrightarrow> has_requests (tabs d) \<Longrightarrow> has_notes (tabs d) \<Longrightarrow>
          exec AddColumnApprovalNotes d = (Inl e, d') \<Longrightarrow> Contains (error_text e) ''duplicate column''"

end
