(* ===== verification/Prog.thy ===== *)
theory Prog
  imports Sql
begin

text \<open>
  Programs and how they run.  A function of the service that touches anything outside its
  arguments is a value of \<open>'a prog\<close>: a tree whose nodes are the calls it makes, in the order
  it makes them -- a statement on the database, a reading of the clock, an HTTP exchange, a
  mutex, the fields a mutex guards, a line of the log.  The same tree is run in two ways:
  \<open>run\<close> carries it out alone, and \<open>step\<close> makes one call, so that the requests the HTTP
  server handles at the same time and the expiry worker interleave call by call (\<open>pool\<close>).

  The outside is a parameter (\<open>env\<close>) with its own states: \<open>'d\<close> the database, \<open>'k\<close> the
  Keycloak server, \<open>'o\<close> the rest (clock, entropy, webhook receiver).
\<close>

section \<open>Calls\<close>

record http_request =
  hq_method :: string
  hq_url :: string
  hq_header :: "(string \<times> string) list"
  hq_body :: string

record http_response =
  hp_code :: int
  hp_status :: string
  hp_body :: string

text \<open>The two mutexes: \<open>keycloak.Client.mu\<close> and \<open>auth.Manager.mu\<close>, and what they guard.\<close>

datatype mutex = Client_mu | Manager_mu

record client_mem =
  cachedToken :: string
  tokenExpiry :: time
  groupIDs :: "string \<rightharpoonup> string"

record pendingAuth =
  pa_expiry :: time
  codeVerifier :: string

type_synonym manager_mem = "string \<rightharpoonup> pendingAuth"

datatype 'a prog =
    Ret 'a
  | Exec exec_stmt "error + nat \<times> int \<Rightarrow> 'a prog"
  | Query req_query "error + req_row list \<Rightarrow> 'a prog"
  | QueryAudit audit_query "error + audit_row list \<Rightarrow> 'a prog"
  | Now "time \<Rightarrow> 'a prog"
  | Rand nat "error + string \<Rightarrow> 'a prog"
  | Keycloak http_request "error + http_response \<Rightarrow> 'a prog"
  | Webhook http_request "error + http_response \<Rightarrow> 'a prog"
  | Log string "'a prog"
  | Lock mutex "'a prog"
  | Unlock mutex "'a prog"
  | GetClient "client_mem \<Rightarrow> 'a prog"
  | PutClient client_mem "'a prog"
  | GetManager "manager_mem \<Rightarrow> 'a prog"
  | PutManager manager_mem "'a prog"

text \<open>Sequencing, and the single calls as programs.\<close>

primrec bnd :: "'a prog \<Rightarrow> ('a \<Rightarrow> 'b prog) \<Rightarrow> 'b prog" where
  "bnd (Ret a) f = f a"
| "bnd (Exec s k) f = Exec s (\<lambda>r. bnd (k r) f)"
| "bnd (Query q k) f = Query q (\<lambda>r. bnd (k r) f)"
| "bnd (QueryAudit q k) f = QueryAudit q (\<lambda>r. bnd (k r) f)"
| "bnd (Now k) f = Now (\<lambda>r. bnd (k r) f)"
| "bnd (Rand n k) f = Rand n (\<lambda>r. bnd (k r) f)"
| "bnd (Keycloak q k) f = Keycloak q (\<lambda>r. bnd (k r) f)"
| "bnd (Webhook q k) f = Webhook q (\<lambda>r. bnd (k r) f)"
| "bnd (Log s p) f = Log s (bnd p f)"
| "bnd (Lock m p) f = Lock m (bnd p f)"
| "bnd (Unlock m p) f = Unlock m (bnd p f)"
| "bnd (GetClient k) f = GetClient (\<lambda>r. bnd (k r) f)"
| "bnd (PutClient c p) f = PutClient c (bnd p f)"
| "bnd (GetManager k) f = GetManager (\<lambda>r. bnd (k r) f)"
| "bnd (PutManager c p) f = PutManager c (bnd p f)"

definition sql_exec :: "exec_stmt \<Rightarrow> (error + nat \<times> int) prog" where
  "sql_exec s = Exec s Ret"

definition sql_query :: "req_query \<Rightarrow> (error + req_row list) prog" where
  "sql_query q = Query q Ret"

definition sql_audit :: "audit_query \<Rightarrow> (error + audit_row list) prog" where
  "sql_audit q = QueryAudit q Ret"

definition time_now :: "time prog" where
  "time_now = Now Ret"

definition rand_read :: "nat \<Rightarrow> (error + string) prog" where
  "rand_read n = Rand n Ret"

definition log_line :: "string \<Rightarrow> unit prog" where
  "log_line s = Log s (Ret ())"

lemmas call_defs = sql_exec_def sql_query_def sql_audit_def time_now_def rand_read_def log_line_def

text \<open>A loop over a slice that only acts: the bodies in order.\<close>

fun for_each :: "('a \<Rightarrow> unit prog) \<Rightarrow> 'a list \<Rightarrow> unit prog" where
  "for_each f [] = Ret ()"
| "for_each f (x # xs) = bnd (f x) (\<lambda>_. for_each f xs)"

lemma bnd_assoc: "bnd (bnd p f) g = bnd p (\<lambda>x. bnd (f x) g)"
  by (induction p) auto

lemma bnd_Ret [simp]: "bnd p Ret = p"
  by (induction p) auto

section \<open>Running alone\<close>

record ('d, 'k, 'o) env =
  e_exec :: "exec_stmt \<Rightarrow> 'd \<Rightarrow> (error + nat \<times> int) \<times> 'd"
  e_query :: "req_query \<Rightarrow> 'd \<Rightarrow> (error + req_row list) \<times> 'd"
  e_audit :: "audit_query \<Rightarrow> 'd \<Rightarrow> (error + audit_row list) \<times> 'd"
  e_keycloak :: "http_request \<Rightarrow> 'k \<Rightarrow> (error + http_response) \<times> 'k"
  e_webhook :: "http_request \<Rightarrow> 'o \<Rightarrow> (error + http_response) \<times> 'o"
  e_now :: "'o \<Rightarrow> time \<times> 'o"
  e_rand :: "nat \<Rightarrow> 'o \<Rightarrow> (error + string) \<times> 'o"

record ('d, 'k, 'o) world =
  w_db :: 'd
  w_kc :: 'k
  w_other :: 'o
  w_client :: client_mem
  w_manager :: manager_mem
  w_log :: "string list"
  w_held :: "mutex set"

text \<open>
  Running a program with nothing else going on.  A mutex is then free when it is asked for;
  \<open>run_held\<close> in \<open>Discipline\<close> shows that the service gives every mutex back.
\<close>

primrec run :: "('d, 'k, 'o) env \<Rightarrow> 'a prog \<Rightarrow> ('d, 'k, 'o) world \<Rightarrow> 'a \<times> ('d, 'k, 'o) world" where
  "run E (Ret a) w = (a, w)"
| "run E (Exec s k) w = (case e_exec E s (w_db w) of (r, d) \<Rightarrow> run E (k r) (w\<lparr>w_db := d\<rparr>))"
| "run E (Query q k) w = (case e_query E q (w_db w) of (r, d) \<Rightarrow> run E (k r) (w\<lparr>w_db := d\<rparr>))"
| "run E (QueryAudit q k) w = (case e_audit E q (w_db w) of (r, d) \<Rightarrow> run E (k r) (w\<lparr>w_db := d\<rparr>))"
| "run E (Now k) w = (case e_now E (w_other w) of (t, x) \<Rightarrow> run E (k t) (w\<lparr>w_other := x\<rparr>))"
| "run E (Rand n k) w = (case e_rand E n (w_other w) of (r, x) \<Rightarrow> run E (k r) (w\<lparr>w_other := x\<rparr>))"
| "run E (Keycloak q k) w = (case e_keycloak E q (w_kc w) of (r, x) \<Rightarrow> run E (k r) (w\<lparr>w_kc := x\<rparr>))"
| "run E (Webhook q k) w = (case e_webhook E q (w_other w) of (r, x) \<Rightarrow> run E (k r) (w\<lparr>w_other := x\<rparr>))"
| "run E (Log s p) w = run E p (w\<lparr>w_log := w_log w @ [s]\<rparr>)"
| "run E (Lock m p) w = run E p (w\<lparr>w_held := insert m (w_held w)\<rparr>)"
| "run E (Unlock m p) w = run E p (w\<lparr>w_held := w_held w - {m}\<rparr>)"
| "run E (GetClient k) w = run E (k (w_client w)) w"
| "run E (PutClient c p) w = run E p (w\<lparr>w_client := c\<rparr>)"
| "run E (GetManager k) w = run E (k (w_manager w)) w"
| "run E (PutManager c p) w = run E p (w\<lparr>w_manager := c\<rparr>)"

lemma run_bnd [run_simps]: "run E (bnd p f) w = (case run E p w of (a, w') \<Rightarrow> run E (f a) w')"
  by (induction p arbitrary: w) (auto split: prod.splits)

lemma run_calls [run_simps]:
  "run E (sql_exec s) w = (case e_exec E s (w_db w) of (r, d) \<Rightarrow> (r, w\<lparr>w_db := d\<rparr>))"
  "run E (sql_query q) w = (case e_query E q (w_db w) of (r, d) \<Rightarrow> (r, w\<lparr>w_db := d\<rparr>))"
  "run E (sql_audit a) w = (case e_audit E a (w_db w) of (r, d) \<Rightarrow> (r, w\<lparr>w_db := d\<rparr>))"
  "run E time_now w = (case e_now E (w_other w) of (t, x) \<Rightarrow> (t, w\<lparr>w_other := x\<rparr>))"
  "run E (rand_read n) w = (case e_rand E n (w_other w) of (r, x) \<Rightarrow> (r, w\<lparr>w_other := x\<rparr>))"
  "run E (log_line l) w = ((), w\<lparr>w_log := w_log w @ [l]\<rparr>)"
  by (simp_all add: call_defs)

section \<open>Running together\<close>

text \<open>One call of a program; \<open>None\<close> when it is done or waits for a mutex.\<close>

primrec step ::
  "('d, 'k, 'o) env \<Rightarrow> 'a prog \<Rightarrow> ('d, 'k, 'o) world \<Rightarrow> ('a prog \<times> ('d, 'k, 'o) world) option"
where
  "step E (Ret a) w = None"
| "step E (Exec s k) w = (case e_exec E s (w_db w) of (r, d) \<Rightarrow> Some (k r, w\<lparr>w_db := d\<rparr>))"
| "step E (Query q k) w = (case e_query E q (w_db w) of (r, d) \<Rightarrow> Some (k r, w\<lparr>w_db := d\<rparr>))"
| "step E (QueryAudit q k) w = (case e_audit E q (w_db w) of (r, d) \<Rightarrow> Some (k r, w\<lparr>w_db := d\<rparr>))"
| "step E (Now k) w = (case e_now E (w_other w) of (t, x) \<Rightarrow> Some (k t, w\<lparr>w_other := x\<rparr>))"
| "step E (Rand n k) w = (case e_rand E n (w_other w) of (r, x) \<Rightarrow> Some (k r, w\<lparr>w_other := x\<rparr>))"
| "step E (Keycloak q k) w = (case e_keycloak E q (w_kc w) of (r, x) \<Rightarrow> Some (k r, w\<lparr>w_kc := x\<rparr>))"
| "step E (Webhook q k) w = (case e_webhook E q (w_other w) of (r, x) \<Rightarrow> Some (k r, w\<lparr>w_other := x\<rparr>))"
| "step E (Log s p) w = Some (p, w\<lparr>w_log := w_log w @ [s]\<rparr>)"
| "step E (Lock m p) w =
     (if m \<in> w_held w then None else Some (p, w\<lparr>w_held := insert m (w_held w)\<rparr>))"
| "step E (Unlock m p) w = Some (p, w\<lparr>w_held := w_held w - {m}\<rparr>)"
| "step E (GetClient k) w = Some (k (w_client w), w)"
| "step E (PutClient c p) w = Some (p, w\<lparr>w_client := c\<rparr>)"
| "step E (GetManager k) w = Some (k (w_manager w), w)"
| "step E (PutManager c p) w = Some (p, w\<lparr>w_manager := c\<rparr>)"

text \<open>A step of a program does not change what the program goes on to do.\<close>

lemma step_run: "step E p w = Some (p', w') \<Longrightarrow> run E p' w' = run E p w"
  by (cases p) (auto split: prod.splits if_splits)

text \<open>
  Several programs at once: a list of threads over one world.  Thread \<open>i\<close> makes its next
  call; \<open>schedule\<close> makes the calls of a list of thread numbers, one after the other.
\<close>

definition pool_step ::
  "('d, 'k, 'o) env \<Rightarrow> nat \<Rightarrow> 'a prog list \<times> ('d, 'k, 'o) world \<Rightarrow> ('a prog list \<times> ('d, 'k, 'o) world) option"
where
  "pool_step E i c =
     (if i < length (fst c) then
        (case step E (fst c ! i) (snd c) of
           None \<Rightarrow> None
         | Some (p, w) \<Rightarrow> Some ((fst c)[i := p], w))
      else None)"

fun schedule ::
  "('d, 'k, 'o) env \<Rightarrow> nat list \<Rightarrow> 'a prog list \<times> ('d, 'k, 'o) world \<Rightarrow> ('a prog list \<times> ('d, 'k, 'o) world) option"
where
  "schedule E [] c = Some c"
| "schedule E (i # is) c =
     (case pool_step E i c of None \<Rightarrow> None | Some c' \<Rightarrow> schedule E is c')"

text \<open>The configurations of a service: threads come (an incoming request, a tick of the
  worker) and move.  \<open>new\<close> is the set of programs that may be started.\<close>

inductive pool ::
  "('d, 'k, 'o) env \<Rightarrow> 'a prog set \<Rightarrow> ('d, 'k, 'o) world \<Rightarrow> 'a prog list \<times> ('d, 'k, 'o) world \<Rightarrow> bool"
  for E new w0
where
  pool_init: "pool E new w0 ([], w0)"
| pool_spawn: "pool E new w0 (ps, w) \<Longrightarrow> p \<in> new \<Longrightarrow> pool E new w0 (ps @ [p], w)"
| pool_move: "pool E new w0 c \<Longrightarrow> pool_step E i c = Some c' \<Longrightarrow> pool E new w0 c'"

lemma pool_step_iff:
  "pool_step E i (ps, w) = Some c' \<longleftrightarrow>
     (\<exists>p' w'. i < length ps \<and> step E (ps ! i) w = Some (p', w') \<and> c' = (ps[i := p'], w'))"
  by (auto simp: pool_step_def split: option.splits)

text \<open>
  Invariants of the pool: a predicate on the world that every call of every thread keeps,
  given a predicate on programs that all threads satisfy and keep.
\<close>

lemma pool_invariant:
  assumes "pool E new w0 c"
    and start: "I w0" "\<And>p. p \<in> new \<Longrightarrow> J p"
    and keep: "\<And>p w p' w'. J p \<Longrightarrow> I w \<Longrightarrow> step E p w = Some (p', w') \<Longrightarrow> J p' \<and> I w'"
  shows "I (snd c) \<and> (\<forall>p \<in> set (fst c). J p)"
  using assms(1)
proof (induction rule: pool.induct)
  case (pool_move c i c')
  obtain ps w where c: "c = (ps, w)" by (cases c)
  with pool_move.hyps obtain p' w' where
    s: "i < length ps" "step E (ps ! i) w = Some (p', w')" "c' = (ps[i := p'], w')"
    by (auto simp: pool_step_iff)
  with keep pool_move.IH c have "J p' \<and> I w'" by (metis fst_conv nth_mem snd_conv)
  with s pool_move.IH c show ?case
    by (auto dest!: set_update_subset_insert [THEN subsetD])
qed (auto simp: start)

lemma pool_schedule:
  "pool E new w0 c \<Longrightarrow> schedule E is c = Some c' \<Longrightarrow> pool E new w0 c'"
  by (induction "is" arbitrary: c) (auto split: option.splits intro: pool_move)

end
