(* ===== verification/Discipline.thy ===== *)
theory Discipline
  imports Prog
begin

text \<open>
  Two disciplines that make the interleaved service safe, as predicates on programs, and what
  they give for every configuration of the pool.

  \<open>locked h p\<close>: a thread that holds \<open>h\<close> and goes on with \<open>p\<close> asks for a mutex only when it
  holds none, gives back what it holds, touches the fields of \<open>Client\<close> and \<open>Manager\<close> only
  under their mutex, and ends with nothing held.  Such threads never race on the fields and
  never deadlock.

  \<open>permits n p\<close>: a thread that may post \<open>n\<close> messages and goes on with \<open>p\<close> posts at most
  those and one more for every mark it sets.  Such threads post at most once per mark.
\<close>

section \<open>Mutexes\<close>

primrec locked :: "mutex option \<Rightarrow> 'a prog \<Rightarrow> bool" where
  "locked h (Ret a) = (h = None)"
| "locked h (Exec s k) = (\<forall>r. locked h (k r))"
| "locked h (Query q k) = (\<forall>r. locked h (k r))"
| "locked h (QueryAudit q k) = (\<forall>r. locked h (k r))"
| "locked h (Now k) = (\<forall>r. locked h (k r))"
| "locked h (Rand n k) = (\<forall>r. locked h (k r))"
| "locked h (Keycloak q k) = (\<forall>r. locked h (k r))"
| "locked h (Webhook q k) = (\<forall>r. locked h (k r))"
| "locked h (Log s p) = locked h p"
| "locked h (Lock m p) = (h = None \<and> locked (Some m) p)"
| "locked h (Unlock m p) = (h = Some m \<and> locked None p)"
| "locked h (GetClient k) = (h = Some Client_mu \<and> (\<forall>c. locked h (k c)))"
| "locked h (PutClient c p) = (h = Some Client_mu \<and> locked h p)"
| "locked h (GetManager k) = (h = Some Manager_mu \<and> (\<forall>c. locked h (k c)))"
| "locked h (PutManager c p) = (h = Some Manager_mu \<and> locked h p)"

named_theorems locked_intros \<open>programs that keep the mutex discipline\<close>

lemma locked_bnd: "locked h p \<Longrightarrow> (\<And>a. locked None (f a)) \<Longrightarrow> locked h (bnd p f)"
  by (induction p arbitrary: h) simp_all

lemma locked_calls [simp]:
  "locked h (sql_exec s) = (h = None)" "locked h (sql_query q) = (h = None)"
  "locked h (sql_audit a) = (h = None)" "locked h time_now = (h = None)"
  "locked h (rand_read n) = (h = None)" "locked h (log_line l) = (h = None)"
  by (auto simp: call_defs)

lemma locked_for_each: "(\<And>x. locked None (f x)) \<Longrightarrow> locked None (for_each f xs)"
  by (induction xs) (auto intro: locked_bnd)

text \<open>The mutexes held are those of the threads, each held by one thread.\<close>

definition held_by :: "mutex option list \<Rightarrow> mutex set" where
  "held_by hs = {m. Some m \<in> set hs}"

definition lock_inv :: "mutex option list \<Rightarrow> 'a prog list \<Rightarrow> ('d, 'k, 'o) world \<Rightarrow> bool" where
  "lock_inv hs ps w \<longleftrightarrow>
     list_all2 locked hs ps \<and> w_held w = held_by hs \<and>
     (\<forall>i j m. i < length hs \<longrightarrow> j < length hs \<longrightarrow> hs ! i = Some m \<longrightarrow> hs ! j = Some m \<longrightarrow> i = j)"

text \<open>One call: the thread moves from holding \<open>h\<close> to holding \<open>h'\<close>.\<close>

lemma locked_step:
  assumes "locked h p" "step E p w = Some (p', w')"
  shows "\<exists>h'. locked h' p' \<and>
    ((h' = h \<and> w_held w' = w_held w) \<or>
     (\<exists>m. h = None \<and> h' = Some m \<and> m \<notin> w_held w \<and> w_held w' = insert m (w_held w)) \<or>
     (\<exists>m. h = Some m \<and> h' = None \<and> w_held w' = w_held w - {m}))"
  using assms by (cases p) (auto split: prod.splits if_splits)

lemma held_by_update:
  "i < length hs \<Longrightarrow> held_by (hs[i := h]) = {m. h = Some m \<or> (\<exists>j < length hs. j \<noteq> i \<and> hs ! j = Some m)}"
  by (auto simp: held_by_def in_set_conv_nth nth_list_update split: if_splits)

lemma held_by_nth: "held_by hs = {m. \<exists>j < length hs. hs ! j = Some m}"
  by (auto simp: held_by_def in_set_conv_nth)

lemma lock_inv_step:
  assumes inv: "lock_inv hs ps w" and i: "i < length ps" and s: "step E (ps ! i) w = Some (p', w')"
  shows "\<exists>h'. lock_inv (hs[i := h']) (ps[i := p']) w'"
proof -
  from inv have all: "list_all2 locked hs ps" and held: "w_held w = held_by hs"
    and one: "\<And>i j m. i < length hs \<Longrightarrow> j < length hs \<Longrightarrow> hs ! i = Some m \<Longrightarrow> hs ! j = Some m \<Longrightarrow> i = j"
    unfolding lock_inv_def by blast+
  have len: "length hs = length ps" using all by (rule list_all2_lengthD)
  with all i have "locked (hs ! i) (ps ! i)" by (simp add: list_all2_nthD)
  from locked_step [OF this s] obtain h' where h': "locked h' p'"
    and m: "(h' = hs ! i \<and> w_held w' = w_held w) \<or>
     (\<exists>m. hs ! i = None \<and> h' = Some m \<and> m \<notin> w_held w \<and> w_held w' = insert m (w_held w)) \<or>
     (\<exists>m. hs ! i = Some m \<and> h' = None \<and> w_held w' = w_held w - {m})" by blast
  have "list_all2 locked (hs[i := h']) (ps[i := p'])"
    using all h' by (rule list_all2_update_cong)
  moreover have "w_held w' = held_by (hs[i := h'])"
    using m
  proof (elim disjE exE conjE)
    assume "h' = hs ! i" "w_held w' = w_held w"
    then show ?thesis using held by simp
  next
    fix m
    assume h: "hs ! i = None" "h' = Some m" and w': "w_held w' = insert m (w_held w)"
    from h(1) have "held_by (hs[i := Some m]) = insert m (held_by hs)"
      using i len by (auto simp: held_by_update) (auto simp: held_by_nth)
    with h w' held show ?thesis by simp
  next
    fix m
    assume h: "hs ! i = Some m" "h' = None" and w': "w_held w' = w_held w - {m}"
    from h(1) have "held_by (hs[i := None]) = held_by hs - {m}"
      using i len one by (auto simp: held_by_update) (auto simp: held_by_nth)
    with h w' held show ?thesis by simp
  qed
  moreover have "a = b" if "a < length (hs[i := h'])" "b < length (hs[i := h'])"
    "hs[i := h'] ! a = Some m" "hs[i := h'] ! b = Some m" for a b m
  proof (cases "h' = hs ! i \<or> h' = None")
    case True
    then show ?thesis
      using that i len one [of a b m] by (auto simp: nth_list_update split: if_splits)
  next
    case False
    with m obtain n where n: "h' = Some n" "n \<notin> held_by hs" using held by auto
    then have "\<forall>j < length hs. hs ! j \<noteq> Some n" by (auto simp: held_by_nth)
    then show ?thesis
      using that i len one [of a b m] n(1) by (auto simp: nth_list_update split: if_splits)
  qed
  ultimately show ?thesis unfolding lock_inv_def by blast
qed

lemma pool_locks:
  assumes "pool E new w0 c" "w_held w0 = {}" "\<And>p. p \<in> new \<Longrightarrow> locked None p"
  shows "\<exists>hs. lock_inv hs (fst c) (snd c)"
  using assms(1)
proof (induction rule: pool.induct)
  case pool_init
  show ?case by (rule exI [of _ "[]"]) (simp add: lock_inv_def held_by_def assms(2))
next
  case (pool_spawn ps w p)
  then obtain hs where inv: "lock_inv hs ps w" by auto
  then have "length hs = length ps" by (auto simp: lock_inv_def dest: list_all2_lengthD)
  with inv assms(3) [OF pool_spawn.hyps(2)] have "lock_inv (hs @ [None]) (ps @ [p]) w"
    by (auto simp: lock_inv_def held_by_def list_all2_appendI nth_append split: if_splits)
  then show ?case by auto
next
  case (pool_move c i c')
  obtain ps w where c: "c = (ps, w)" by (cases c)
  with pool_move.hyps obtain p' w' where
    s: "i < length ps" "step E (ps ! i) w = Some (p', w')" "c' = (ps[i := p'], w')"
    by (auto simp: pool_step_iff)
  from pool_move.IH c obtain hs where "lock_inv hs ps w" by auto
  from lock_inv_step [OF this s(1,2)] s(3) show ?case by auto
qed

text \<open>What a thread is about to touch.\<close>

fun touches :: "'a prog \<Rightarrow> mutex option" where
  "touches (GetClient k) = Some Client_mu"
| "touches (PutClient c p) = Some Client_mu"
| "touches (GetManager k) = Some Manager_mu"
| "touches (PutManager c p) = Some Manager_mu"
| "touches _ = None"

lemma touches_locked: "locked h p \<Longrightarrow> touches p = Some m \<Longrightarrow> h = Some m"
  by (cases p) auto

lemma no_race:
  assumes "lock_inv hs ps w" "i < length ps" "j < length ps"
    "touches (ps ! i) = Some m" "touches (ps ! j) = Some m"
  shows "i = j"
proof -
  have "length hs = length ps" using assms(1) by (auto simp: lock_inv_def dest: list_all2_lengthD)
  with assms have "hs ! i = Some m" "hs ! j = Some m"
    by (metis list_all2_nthD lock_inv_def touches_locked)+
  with assms \<open>length hs = length ps\<close> show ?thesis unfolding lock_inv_def by metis
qed

lemma step_None: "step E p w = None \<longleftrightarrow> (\<exists>a. p = Ret a) \<or> (\<exists>m q. p = Lock m q \<and> m \<in> w_held w)"
  by (cases p) (auto split: prod.splits)

text \<open>A thread that waits, waits for one that can move.\<close>

lemma no_deadlock:
  assumes inv: "lock_inv hs ps w" and i: "i < length ps" and p: "\<not> (\<exists>a. ps ! i = Ret a)"
  shows "\<exists>j. pool_step E j (ps, w) \<noteq> None"
proof (cases "step E (ps ! i) w")
  case None
  with p obtain m q where "ps ! i = Lock m q" "m \<in> w_held w" by (auto simp: step_None)
  with inv obtain j where j: "j < length hs" "hs ! j = Some m"
    by (auto simp: lock_inv_def held_by_nth)
  have len: "length hs = length ps" using inv by (auto simp: lock_inv_def dest: list_all2_lengthD)
  have "locked (Some m) (ps ! j)" using inv j by (metis list_all2_nthD lock_inv_def)
  then have "step E (ps ! j) w \<noteq> None" by (auto simp: step_None)
  with j(1) len show ?thesis by (auto simp: pool_step_def intro!: exI [of _ j])
next
  case (Some x)
  with i show ?thesis by (auto simp: pool_step_def intro!: exI [of _ i] split: prod.splits)
qed

definition held_of :: "mutex option \<Rightarrow> mutex set" where
  "held_of h = {m. h = Some m}"

lemma held_of_simps [simp]: "held_of None = {}" "held_of (Some m) = {m}"
  by (auto simp: held_of_def)

text \<open>Run alone, a program gives back what it took, and a schedule of its own calls gets to its
  end: no program of the service can hang on itself.\<close>

lemma run_held:
  "locked h p \<Longrightarrow> run E p w = (a, w') \<Longrightarrow> w_held w = held_of h \<Longrightarrow> w_held w' = {}"
proof (induction p arbitrary: h w)
  case (Ret x)
  then show ?case by simp
next
  case (Lock m p)
  then show ?case by (auto dest: Lock.IH)
next
  case (Unlock m p)
  then show ?case by (auto dest: Unlock.IH)
qed (fastforce split: prod.splits)+

definition ends :: "('d, 'k, 'o) env \<Rightarrow> 'a prog \<Rightarrow> ('d, 'k, 'o) world \<Rightarrow> bool" where
  "ends E p w \<longleftrightarrow> (\<exists>n a w'. schedule E (replicate n 0) ([p], w) = Some ([Ret a], w'))"

lemma ends_step:
  assumes "case step E p w of None \<Rightarrow> False | Some (p', w') \<Rightarrow> ends E p' w'"
  shows "ends E p w"
proof -
  from assms obtain p' w' n a w'' where "step E p w = Some (p', w')"
    "schedule E (replicate n 0) ([p'], w') = Some ([Ret a], w'')"
    by (auto simp: ends_def split: option.splits)
  then have "schedule E (replicate (Suc n) 0) ([p], w) = Some ([Ret a], w'')"
    by (simp add: pool_step_def)
  then show ?thesis unfolding ends_def by blast
qed

lemma locked_ends:
  "locked h p \<Longrightarrow> w_held w = held_of h \<Longrightarrow> ends E p w"
proof (induction p arbitrary: h w)
  case (Ret a)
  show ?case unfolding ends_def by (rule exI [of _ 0]) simp
next
  case (Lock m p)
  show ?case by (rule ends_step) (use Lock.prems in \<open>auto intro!: Lock.IH\<close>)
next
  case (Unlock m p)
  show ?case by (rule ends_step) (use Unlock.prems in \<open>auto intro!: Unlock.IH\<close>)
next
  case (Exec s k)
  have "ends E (k r) (w\<lparr>w_db := d\<rparr>)" for r d
    using Exec.prems by (intro Exec.IH) auto
  then show ?case by (intro ends_step) (simp split: prod.split)
next
  case (Query q k)
  have "ends E (k r) (w\<lparr>w_db := d\<rparr>)" for r d
    using Query.prems by (intro Query.IH) auto
  then show ?case by (intro ends_step) (simp split: prod.split)
next
  case (QueryAudit q k)
  have "ends E (k r) (w\<lparr>w_db := d\<rparr>)" for r d
    using QueryAudit.prems by (intro QueryAudit.IH) auto
  then show ?case by (intro ends_step) (simp split: prod.split)
next
  case (Now k)
  have "ends E (k r) (w\<lparr>w_other := d\<rparr>)" for r d
    using Now.prems by (intro Now.IH) auto
  then show ?case by (intro ends_step) (simp split: prod.split)
next
  case (Rand n k)
  have "ends E (k r) (w\<lparr>w_other := d\<rparr>)" for r d
    using Rand.prems by (intro Rand.IH) auto
  then show ?case by (intro ends_step) (simp split: prod.split)
next
  case (Keycloak q k)
  have "ends E (k r) (w\<lparr>w_kc := d\<rparr>)" for r d
    using Keycloak.prems by (intro Keycloak.IH) auto
  then show ?case by (intro ends_step) (simp split: prod.split)
next
  case (Webhook q k)
  have "ends E (k r) (w\<lparr>w_other := d\<rparr>)" for r d
    using Webhook.prems by (intro Webhook.IH) auto
  then show ?case by (intro ends_step) (simp split: prod.split)
next
  case (Log l p)
  show ?case by (rule ends_step) (use Log.prems Log.IH [of h] in auto)
next
  case (GetClient k)
  show ?case by (rule ends_step) (use GetClient.prems GetClient.IH [of "k (w_client w)" h] in auto)
next
  case (PutClient c p)
  show ?case by (rule ends_step) (use PutClient.prems PutClient.IH [of h] in auto)
next
  case (GetManager k)
  show ?case by (rule ends_step) (use GetManager.prems GetManager.IH [of "k (w_manager w)" h] in auto)
next
  case (PutManager c p)
  show ?case by (rule ends_step) (use PutManager.prems PutManager.IH [of h] in auto)
qed

lemma schedule_run:
  "schedule E (replicate n 0) ([p], w) = Some ([Ret a], w') \<Longrightarrow> run E p w = (a, w')"
proof (induction n arbitrary: p w)
  case (Suc n)
  then obtain p1 w1 where s: "step E p w = Some (p1, w1)"
    "schedule E (replicate n 0) ([p1], w1) = Some ([Ret a], w')"
    by (auto simp: pool_step_def split: option.splits)
  from Suc.IH [OF s(2)] step_run [OF s(1)] show ?case by simp
qed simp

lemma steps_complete:
  assumes "locked None p" "w_held w = {}"
  shows "\<exists>n. schedule E (replicate n 0) ([p], w) = Some ([Ret (fst (run E p w))], snd (run E p w))"
proof -
  have "ends E p w" by (rule locked_ends [OF assms(1)]) (simp add: assms(2))
  then obtain n a w' where n: "schedule E (replicate n 0) ([p], w) = Some ([Ret a], w')"
    unfolding ends_def by blast
  from schedule_run [OF n] n show ?thesis by auto
qed

section \<open>Posts\<close>

definition is_mark :: "exec_stmt \<Rightarrow> error + nat \<times> int \<Rightarrow> nat" where
  "is_mark s r =
     (case s of InsertNotification _ \<Rightarrow> (case r of Inr (n, _) \<Rightarrow> of_bool (n = 1) | Inl _ \<Rightarrow> 0) | _ \<Rightarrow> 0)"

primrec permits :: "nat \<Rightarrow> 'a prog \<Rightarrow> bool" where
  "permits n (Ret a) = True"
| "permits n (Exec s k) = (\<forall>r. permits (n + is_mark s r) (k r))"
| "permits n (Query q k) = (\<forall>r. permits n (k r))"
| "permits n (QueryAudit q k) = (\<forall>r. permits n (k r))"
| "permits n (Now k) = (\<forall>r. permits n (k r))"
| "permits n (Rand m k) = (\<forall>r. permits n (k r))"
| "permits n (Keycloak q k) = (\<forall>r. permits n (k r))"
| "permits n (Webhook q k) = (0 < n \<and> (\<forall>r. permits (n - 1) (k r)))"
| "permits n (Log s p) = permits n p"
| "permits n (Lock m p) = permits n p"
| "permits n (Unlock m p) = permits n p"
| "permits n (GetClient k) = (\<forall>c. permits n (k c))"
| "permits n (PutClient c p) = permits n p"
| "permits n (GetManager k) = (\<forall>c. permits n (k c))"
| "permits n (PutManager c p) = permits n p"

lemma permits_mono: "permits m p \<Longrightarrow> m \<le> n \<Longrightarrow> permits n p"
proof (induction p arbitrary: m n)
  case (Exec s k)
  then show ?case by simp (meson add_le_mono1 rangeI)
next
  case (Webhook q k)
  then show ?case by simp (meson diff_le_mono le_trans less_le_trans rangeI)
qed (simp; blast)+

lemma permits_bnd: "permits n p \<Longrightarrow> (\<And>a. permits 0 (f a)) \<Longrightarrow> permits n (bnd p f)"
  by (induction p arbitrary: n) (auto intro: permits_mono)

lemma permits_calls [simp]:
  "permits n (sql_query q)" "permits n (sql_audit a)" "permits n time_now" "permits n (rand_read m)"
  "permits n (log_line l)" "permits n (sql_exec s)"
  by (auto simp: call_defs)

lemma permits_for_each: "(\<And>x. permits 0 (f x)) \<Longrightarrow> permits 0 (for_each f xs)"
  by (induction xs) (auto intro: permits_bnd)

text \<open>Programs that neither mark nor post are fine whatever the count; so are those that only
  use the other calls.\<close>

text \<open>The marks that are set, also when the table is not there yet.\<close>

definition mark_len :: "tables \<Rightarrow> nat" where
  "mark_len t = (if has_notifs t then length (t_notifs t) else 0)"

locale posting =
  sqlite "e_exec E" "e_query E" "e_audit E" tabs
  for E :: "('d, 'k, 'o) env" and tabs :: "'d \<Rightarrow> tables" +
  fixes posts :: "'o \<Rightarrow> nat"
  assumes webhook_posts: "e_webhook E q x = (res, x') \<Longrightarrow> posts x' \<le> Suc (posts x)"
    and now_posts: "e_now E x = (t, x') \<Longrightarrow> posts x' = posts x"
    and rand_posts: "e_rand E m x = (bs, x') \<Longrightarrow> posts x' = posts x"
begin

definition mark_count :: "('d, 'k, 'o) world \<Rightarrow> nat" where
  "mark_count w = mark_len (tabs (w_db w))"

lemma exec_marks:
  assumes "e_exec E s d = (r, d')"
  shows "mark_len (tabs d) + is_mark s r \<le> mark_len (tabs d')"
proof (cases r)
  case (Inl e)
  with assms exec_err show ?thesis by (fastforce simp: is_mark_def split: exec_stmt.splits)
next
  case (Inr p)
  obtain n i where p: "p = (n, i)" by fastforce
  with assms Inr exec_ok have sem: "exec_sem s (tabs d) (n, i) (tabs d')" by blast
  show ?thesis
  proof (cases s)
    case (InsertNotification row)
    with sem Inr p show ?thesis
      by (cases "notif_key row \<in> notif_key ` set (t_notifs (tabs d))") (simp_all add: is_mark_def mark_len_def)
  qed (use sem Inr p in \<open>auto simp: is_mark_def mark_len_def\<close>)
qed

lemma permits_step:
  assumes "permits n p" "step E p w = Some (p', w')"
  shows "\<exists>n'. permits n' p' \<and> posts (w_other w') + n' + mark_count w \<le> mark_count w' + posts (w_other w) + n"
proof (cases p)
  case (Exec s k)
  with assms obtain r d where e: "e_exec E s (w_db w) = (r, d)" "p' = k r" "w' = w\<lparr>w_db := d\<rparr>"
    by (auto split: prod.splits)
  from exec_marks [OF e(1)] Exec assms(1) e(2,3) show ?thesis
    by (intro exI [of _ "n + is_mark s r"]) (simp add: mark_count_def)
next
  case (Webhook q k)
  with assms obtain r x where e: "e_webhook E q (w_other w) = (r, x)" "p' = k r" "w' = w\<lparr>w_other := x\<rparr>"
    by (auto split: prod.splits)
  from webhook_posts [OF e(1)] Webhook assms(1) e(2,3) show ?thesis
    by (intro exI [of _ "n - 1"]) (simp add: mark_count_def)
next
  case (Query q k)
  with assms query_frame show ?thesis
    by (intro exI [of _ n]) (auto simp: mark_count_def split: prod.splits)
next
  case (QueryAudit q k)
  with assms audit_frame show ?thesis
    by (intro exI [of _ n]) (auto simp: mark_count_def split: prod.splits)
next
  case (Now k)
  with assms now_posts show ?thesis
    by (intro exI [of _ n]) (auto simp: mark_count_def split: prod.splits)
next
  case (Rand m k)
  with assms rand_posts show ?thesis
    by (intro exI [of _ n]) (auto simp: mark_count_def split: prod.splits)
qed (use assms in \<open>auto simp: mark_count_def intro!: exI [of _ n] split: prod.splits if_splits\<close>)

text \<open>In every configuration: no more posts than marks, and what the threads may still post is
  covered as well.\<close>

lemma pool_posts:
  assumes "pool E new w0 c" "\<And>p. p \<in> new \<Longrightarrow> permits 0 p"
  shows "\<exists>ns. list_all2 permits ns (fst c) \<and>
       posts (w_other (snd c)) + sum_list ns + mark_count w0 \<le> mark_count (snd c) + posts (w_other w0)"
  using assms(1)
proof (induction rule: pool.induct)
  case pool_init
  show ?case by (auto intro!: exI [of _ "[]"])
next
  case (pool_spawn ps w p)
  then obtain ns where ns: "list_all2 permits ns ps"
    "posts (w_other w) + sum_list ns + mark_count w0 \<le> mark_count w + posts (w_other w0)" by auto
  from ns(1) assms(2) [OF pool_spawn.hyps(2)] have "list_all2 permits (ns @ [0]) (ps @ [p])"
    by (simp add: list_all2_appendI)
  with ns(2) pool_spawn.IH show ?case by (auto intro!: exI [of _ "ns @ [0]"])
next
  case (pool_move c i c')
  obtain ps w where c: "c = (ps, w)" by (cases c)
  with pool_move.hyps obtain p' w' where
    s: "i < length ps" "step E (ps ! i) w = Some (p', w')" "c' = (ps[i := p'], w')"
    by (auto simp: pool_step_iff)
  from pool_move.IH c obtain ns where ns: "list_all2 permits ns ps"
    "posts (w_other w) + sum_list ns + mark_count w0 \<le> mark_count w + posts (w_other w0)" by auto
  have i: "i < length ns" using ns(1) s(1) by (simp add: list_all2_lengthD)
  have "permits (ns ! i) (ps ! i)" using ns(1) i by (rule list_all2_nthD)
  from permits_step [OF this s(2)] obtain n' where n': "permits n' p'"
    "posts (w_other w') + n' + mark_count w \<le> mark_count w' + posts (w_other w) + ns ! i" by blast
  have "list_all2 permits (ns[i := n']) (ps[i := p'])"
    using ns(1) n'(1) by (rule list_all2_update_cong)
  moreover have "sum_list (ns[i := n']) + ns ! i = sum_list ns + n'"
    using i elem_le_sum_list [OF i] by (simp add: sum_list_update)
  ultimately show ?case
    using n'(2) ns(2) s(3) by (intro conjI exI [of _ "ns[i := n']"]) simp_all
qed

end

end
