(* ===== verification/Membership.thy ===== *)
theory Membership
  imports Discipline
begin

text \<open>
  The interface \<open>Groups\<close> of \<open>internal/api/api.go\<close>: the three membership operations the
  handlers call, as a record of programs, and the contract the handlers rely on
  (\<open>groups_iface\<close>): an answer of \<open>InGroup\<close> is the membership at that moment, a call that
  succeeds did what it says, one that fails may have been carried out all the same, and
  nothing else in the service changes.
\<close>

record groups =
  kc_InGroup :: "string \<Rightarrow> string \<Rightarrow> (error + bool) prog"
  kc_AddToGroup :: "string \<Rightarrow> string \<Rightarrow> (error + unit) prog"
  kc_RemoveFromGroup :: "string \<Rightarrow> string \<Rightarrow> (error + unit) prog"

text \<open>
  A clock that is set to some year from 1000 to 9000: the times of the service and the
  deadlines it derives from them then fit the layout of the texts.
\<close>

definition sane :: "time \<Rightarrow> bool" where
  "sane t \<longleftrightarrow> 31557600000000000000 \<le> t \<and> t \<le> 284018400000000000000"

locale clock =
  fixes E :: "('d, 'k, 'o) env" and fair :: "'o \<Rightarrow> bool"
  assumes now_fair: "fair x \<Longrightarrow> e_now E x = (t, x') \<Longrightarrow> fair x' \<and> sane t"
    and rand_fair: "fair x \<Longrightarrow> e_rand E n x = (bs, x') \<Longrightarrow> fair x'"
    and webhook_fair: "fair x \<Longrightarrow> e_webhook E q x = (res, x') \<Longrightarrow> fair x'"

text \<open>What an operation on the groups leaves alone.\<close>

definition calm ::
  "(client_mem \<Rightarrow> bool) \<Rightarrow> ('o \<Rightarrow> bool) \<Rightarrow> ('d, 'k, 'o) world \<Rightarrow> ('d, 'k, 'o) world \<Rightarrow> bool"
where
  "calm ready fair w w' \<longleftrightarrow>
     w_db w' = w_db w \<and> w_manager w' = w_manager w \<and> w_log w' = w_log w \<and>
     (ready (w_client w) \<longrightarrow> ready (w_client w')) \<and> (fair (w_other w) \<longrightarrow> fair (w_other w'))"

lemma calm_refl [simp]: "calm ready fair w w"
  by (simp add: calm_def)

lemma calm_trans: "calm ready fair w w' \<Longrightarrow> calm ready fair w' w'' \<Longrightarrow> calm ready fair w w''"
  by (simp add: calm_def)

locale groups_iface =
  fixes E :: "('d, 'k, 'o) env" and G :: groups
    and who :: "string \<Rightarrow> string" and holds :: "'k \<Rightarrow> (string \<times> string) set"
    and ready :: "client_mem \<Rightarrow> bool" and fair :: "'o \<Rightarrow> bool"
  assumes in_frame: "ready (w_client w) \<Longrightarrow> run E (kc_InGroup G u g) w = (r, w') \<Longrightarrow>
          calm ready fair w w' \<and> holds (w_kc w') = holds (w_kc w)"
    and in_ok: "ready (w_client w) \<Longrightarrow> run E (kc_InGroup G u g) w = (Inr b, w') \<Longrightarrow>
          b \<longleftrightarrow> (who u, g) \<in> holds (w_kc w)"
    and add_frame: "ready (w_client w) \<Longrightarrow> run E (kc_AddToGroup G u g) w = (a, w') \<Longrightarrow>
          calm ready fair w w' \<and> holds (w_kc w') \<in> {holds (w_kc w), insert (who u, g) (holds (w_kc w))}"
    and add_ok: "ready (w_client w) \<Longrightarrow> run E (kc_AddToGroup G u g) w = (Inr (), w') \<Longrightarrow>
          (who u, g) \<in> holds (w_kc w')"
    and remove_frame: "ready (w_client w) \<Longrightarrow> run E (kc_RemoveFromGroup G u g) w = (a, w') \<Longrightarrow>
          calm ready fair w w' \<and> holds (w_kc w') \<in> {holds (w_kc w), holds (w_kc w) - {(who u, g)}}"
    and remove_ok: "ready (w_client w) \<Longrightarrow> run E (kc_RemoveFromGroup G u g) w = (Inr (), w') \<Longrightarrow>
          (who u, g) \<notin> holds (w_kc w')"

text \<open>A membership server that is up for some users and groups: there no call fails, and no
  call changes for which ones it is up.\<close>

locale groups_up =
  groups_iface E G who holds ready fair
  for E :: "('d, 'k, 'o) env" and G :: groups
    and who :: "string \<Rightarrow> string" and holds :: "'k \<Rightarrow> (string \<times> string) set"
    and ready :: "client_mem \<Rightarrow> bool" and fair :: "'o \<Rightarrow> bool" +
  fixes reach :: "'k \<Rightarrow> string \<Rightarrow> string \<Rightarrow> bool"
  assumes in_up: "ready (w_client w) \<Longrightarrow> run E (kc_InGroup G u g) w = (r, w') \<Longrightarrow>
          reach (w_kc w') = reach (w_kc w) \<and> (reach (w_kc w) u g \<longrightarrow> ok r)"
    and add_up: "ready (w_client w) \<Longrightarrow> run E (kc_AddToGroup G u g) w = (a, w') \<Longrightarrow>
          reach (w_kc w') = reach (w_kc w) \<and> (reach (w_kc w) u g \<longrightarrow> ok a)"
    and remove_up: "ready (w_client w) \<Longrightarrow> run E (kc_RemoveFromGroup G u g) w = (a, w') \<Longrightarrow>
          reach (w_kc w') = reach (w_kc w) \<and> (reach (w_kc w) u g \<longrightarrow> ok a)"

text \<open>Operations that keep the two disciplines of the pool.\<close>

definition disciplined :: "groups \<Rightarrow> bool" where
  "disciplined G \<longleftrightarrow>
     (\<forall>u g. locked None (kc_InGroup G u g) \<and> permits 0 (kc_InGroup G u g) \<and>
            locked None (kc_AddToGroup G u g) \<and> permits 0 (kc_AddToGroup G u g) \<and>
            locked None (kc_RemoveFromGroup G u g) \<and> permits 0 (kc_RemoveFromGroup G u g))"

end
