(* ===== verification/Json.thy ===== *)
theory Json
  imports GoText
begin

text \<open>
  \<open>encoding/json\<close>, as far as the service uses it, on byte strings: the parser behind
  \<open>Unmarshal\<close> and \<open>Decoder.Decode\<close>, the rules by which object members fill string and
  integer fields of a struct, and the printer behind \<open>Marshal\<close>.  The parser takes fuel, one
  unit per nested call, and starts with \<open>fuel_for s\<close>, two units per byte of the text and two
  more; the nesting limit of the package is \<open>max_depth\<close>.  \<open>JsonRound\<close> shows that the fuel is
  enough for every printed value.
\<close>

datatype json =
    JNull
  | JBool bool
  | JNum string
  | JStr string
  | JArr "json list"
  | JObj "(string \<times> json) list"

section \<open>UTF-8\<close>

definition cont :: "char \<Rightarrow> bool" where
  "cont c \<longleftrightarrow> 0x80 \<le> byte c \<and> byte c \<le> 0xBF"

text \<open>The number of bytes of the rune at the head of a text; 0 when the bytes are not UTF-8.\<close>

definition rune_width :: "string \<Rightarrow> nat" where
  "rune_width s =
     (case s of [] \<Rightarrow> 0
      | a # r \<Rightarrow>
          if byte a < 0x80 then 1
          else case r of [] \<Rightarrow> 0
          | b # r \<Rightarrow>
              if 0xC2 \<le> byte a \<and> byte a \<le> 0xDF \<and> cont b then 2
              else case r of [] \<Rightarrow> 0
              | c # r \<Rightarrow>
                  if 0xE0 \<le> byte a \<and> byte a \<le> 0xEF \<and> cont b \<and> cont c \<and>
                     (byte a = 0xE0 \<longrightarrow> 0xA0 \<le> byte b) \<and> (byte a = 0xED \<longrightarrow> byte b \<le> 0x9F) then 3
                  else case r of [] \<Rightarrow> 0
                  | d # _ \<Rightarrow>
                      if 0xF0 \<le> byte a \<and> byte a \<le> 0xF4 \<and> cont b \<and> cont c \<and> cont d \<and>
                         (byte a = 0xF0 \<longrightarrow> 0x90 \<le> byte b) \<and> (byte a = 0xF4 \<longrightarrow> byte b \<le> 0x8F) then 4
                      else 0)"

definition rune_error :: string where
  "rune_error = [CHR 0xEF, CHR 0xBF, CHR 0xBD]"

definition encode_rune :: "nat \<Rightarrow> string" where
  "encode_rune u =
     (if u < 0x80 then [char_of u]
      else if u < 0x800 then [char_of (0xC0 + u div 64), char_of (0x80 + u mod 64)]
      else if u < 0x10000 then
        [char_of (0xE0 + u div 4096), char_of (0x80 + u div 64 mod 64), char_of (0x80 + u mod 64)]
      else
        [char_of (0xF0 + u div 262144), char_of (0x80 + u div 4096 mod 64),
         char_of (0x80 + u div 64 mod 64), char_of (0x80 + u mod 64)])"

section \<open>Parsing\<close>

definition is_ws :: "char \<Rightarrow> bool" where
  "is_ws c \<longleftrightarrow> byte c = 32 \<or> byte c = 9 \<or> byte c = 10 \<or> byte c = 13"

definition skip_ws :: "string \<Rightarrow> string" where
  "skip_ws s = dropWhile is_ws s"

definition hex_value :: "char \<Rightarrow> nat option" where
  "hex_value c =
     (if 48 \<le> byte c \<and> byte c \<le> 57 then Some (byte c - 48)
      else if 97 \<le> byte c \<and> byte c \<le> 102 then Some (byte c - 87)
      else if 65 \<le> byte c \<and> byte c \<le> 70 then Some (byte c - 55)
      else None)"

definition hex4 :: "string \<Rightarrow> (nat \<times> string) option" where
  "hex4 s =
     (case s of a # b # c # d # r \<Rightarrow>
        (case (hex_value a, hex_value b, hex_value c, hex_value d) of
           (Some i, Some j, Some k, Some l) \<Rightarrow> Some (((i * 16 + j) * 16 + k) * 16 + l, r)
         | _ \<Rightarrow> None)
      | _ \<Rightarrow> None)"

definition escape_char :: "char \<Rightarrow> char option" where
  "escape_char e =
     (if byte e = 34 \<or> byte e = 92 \<or> byte e = 47 then Some e
      else if e = CHR ''b'' then Some (CHR 0x08)
      else if e = CHR ''f'' then Some (CHR 0x0C)
      else if e = CHR ''n'' then Some (CHR 0x0A)
      else if e = CHR ''r'' then Some (CHR 0x0D)
      else if e = CHR ''t'' then Some (CHR 0x09)
      else None)"

text \<open>
  The escape after a backslash: its text and the rest.  A pair of surrogates is one rune, a
  lone surrogate the replacement character.
\<close>

definition parse_escape :: "string \<Rightarrow> (string \<times> string) option" where
  "parse_escape s =
     (case s of [] \<Rightarrow> None
      | e # r \<Rightarrow>
          if e = CHR ''u'' then
            (case hex4 r of None \<Rightarrow> None
             | Some (u, r4) \<Rightarrow>
                 if 0xD800 \<le> u \<and> u \<le> 0xDFFF then
                   (case (if take 2 r4 = [CHR 0x5C, CHR ''u''] then hex4 (drop 2 r4) else None) of
                      Some (v, r8) \<Rightarrow>
                        if u \<le> 0xDBFF \<and> 0xDC00 \<le> v \<and> v \<le> 0xDFFF
                        then Some (encode_rune ((u - 0xD800) * 1024 + (v - 0xDC00) + 0x10000), r8)
                        else Some (rune_error, r4)
                    | None \<Rightarrow> Some (rune_error, r4))
                 else Some (encode_rune u, r4))
          else (case escape_char e of None \<Rightarrow> None | Some c \<Rightarrow> Some ([c], r)))"

lemma hex4_shorter: "hex4 s = Some (u, r) \<Longrightarrow> length r < length s"
  by (auto simp: hex4_def split: list.splits option.splits)

lemma parse_escape_shorter: "parse_escape s = Some (t, r) \<Longrightarrow> length r < length s"
  by (auto simp: parse_escape_def split: list.splits option.splits if_splits prod.splits
      dest!: hex4_shorter)

text \<open>A string literal after its opening quote: the decoded text and what follows.\<close>

function parse_string :: "string \<Rightarrow> (string \<times> string) option" where
  "parse_string s =
     (case s of [] \<Rightarrow> None
      | c # r \<Rightarrow>
          if byte c = 34 then Some ([], r)
          else if byte c = 92 then
            (case parse_escape r of None \<Rightarrow> None
             | Some (t, r') \<Rightarrow> map_option (apfst (append t)) (parse_string r'))
          else if byte c < 32 then None
          else if rune_width s = 0 then map_option (apfst (append rune_error)) (parse_string r)
          else map_option (apfst (append (take (rune_width s) s)))
                 (parse_string (drop (rune_width s) s)))"
  by pat_completeness auto
termination
  by (relation "measure length") (auto dest: parse_escape_shorter)

declare parse_string.simps [simp del]

text \<open>Numbers: the literal and what follows.\<close>

definition parse_int_part :: "string \<Rightarrow> (string \<times> string) option" where
  "parse_int_part s =
     (case s of [] \<Rightarrow> None
      | c # r \<Rightarrow>
          if c = CHR ''0'' then Some ([c], r)
          else if is_digit c then Some (c # takeWhile is_digit r, dropWhile is_digit r)
          else None)"

definition parse_digits1 :: "string \<Rightarrow> (string \<times> string) option" where
  "parse_digits1 s =
     (if takeWhile is_digit s = [] then None else Some (takeWhile is_digit s, dropWhile is_digit s))"

definition parse_frac_part :: "string \<Rightarrow> (string \<times> string) option" where
  "parse_frac_part s =
     (case s of c # r \<Rightarrow>
        if c = CHR ''.'' then map_option (apfst (Cons c)) (parse_digits1 r) else Some ([], s)
      | [] \<Rightarrow> Some ([], s))"

definition parse_exp_part :: "string \<Rightarrow> (string \<times> string) option" where
  "parse_exp_part s =
     (case s of c # r \<Rightarrow>
        if c = CHR ''e'' \<or> c = CHR ''E'' then
          (case r of g # r' \<Rightarrow>
             if g = CHR ''+'' \<or> g = CHR ''-''
             then map_option (apfst (append [c, g])) (parse_digits1 r')
             else map_option (apfst (Cons c)) (parse_digits1 r)
           | [] \<Rightarrow> None)
        else Some ([], s)
      | [] \<Rightarrow> Some ([], s))"

definition parse_number :: "string \<Rightarrow> (string \<times> string) option" where
  "parse_number s =
     (let (sign, s1) = (case s of c # r \<Rightarrow> if c = CHR ''-'' then ([c], r) else ([], s) | [] \<Rightarrow> ([], s))
      in case parse_int_part s1 of None \<Rightarrow> None
         | Some (i, s2) \<Rightarrow>
             (case parse_frac_part s2 of None \<Rightarrow> None
              | Some (f, s3) \<Rightarrow>
                  (case parse_exp_part s3 of None \<Rightarrow> None
                   | Some (e, s4) \<Rightarrow> Some (sign @ i @ f @ e, s4))))"

definition parse_word :: "string \<Rightarrow> json \<Rightarrow> string \<Rightarrow> (json \<times> string) option" where
  "parse_word w v s = (if is_prefix w s then Some (v, drop (length w) s) else None)"

definition max_depth :: nat where
  "max_depth = 10000"

text \<open>
  Values, the elements of an array after \<open>[\<close> or a comma, and the members of an object after
  \<open>{\<close> or a comma.  The second argument is the nesting still allowed.
\<close>

fun parse_value :: "nat \<Rightarrow> nat \<Rightarrow> string \<Rightarrow> (json \<times> string) option"
  and parse_elems :: "nat \<Rightarrow> nat \<Rightarrow> string \<Rightarrow> (json list \<times> string) option"
  and parse_members :: "nat \<Rightarrow> nat \<Rightarrow> string \<Rightarrow> ((string \<times> json) list \<times> string) option"
where
  "parse_value 0 d s = None"
| "parse_value (Suc n) d s =
     (case skip_ws s of [] \<Rightarrow> None
      | c # r \<Rightarrow>
          if c = CHR ''{'' then
            (if d = 0 then None
             else if take 1 (skip_ws r) = ''}'' then Some (JObj [], drop 1 (skip_ws r))
             else map_option (apfst JObj) (parse_members n (d - 1) r))
          else if c = CHR ''['' then
            (if d = 0 then None
             else if take 1 (skip_ws r) = '']'' then Some (JArr [], drop 1 (skip_ws r))
             else map_option (apfst JArr) (parse_elems n (d - 1) r))
          else if byte c = 34 then map_option (apfst JStr) (parse_string r)
          else if c = CHR ''t'' then parse_word ''true'' (JBool True) (c # r)
          else if c = CHR ''f'' then parse_word ''false'' (JBool False) (c # r)
          else if c = CHR ''n'' then parse_word ''null'' JNull (c # r)
          else map_option (apfst JNum) (parse_number (c # r)))"
| "parse_elems 0 d s = None"
| "parse_elems (Suc n) d s =
     (case parse_value n d s of None \<Rightarrow> None
      | Some (v, r) \<Rightarrow>
          (case skip_ws r of [] \<Rightarrow> None
           | c # r' \<Rightarrow>
               if c = CHR '']'' then Some ([v], r')
               else if c = CHR '','' then map_option (apfst (Cons v)) (parse_elems n d r')
               else None))"
| "parse_members 0 d s = None"
| "parse_members (Suc n) d s =
     (case skip_ws s of [] \<Rightarrow> None
      | q # r \<Rightarrow>
          if byte q \<noteq> 34 then None
          else (case parse_string r of None \<Rightarrow> None
          | Some (k, r1) \<Rightarrow>
              (case skip_ws r1 of [] \<Rightarrow> None
               | c # r2 \<Rightarrow>
                   if c \<noteq> CHR '':'' then None
                   else (case parse_value n d r2 of None \<Rightarrow> None
                   | Some (v, r3) \<Rightarrow>
                       (case skip_ws r3 of [] \<Rightarrow> None
                        | e # r4 \<Rightarrow>
                            if e = CHR ''}'' then Some ([(k, v)], r4)
                            else if e = CHR '','' then
                              map_option (apfst (Cons (k, v))) (parse_members n d r4)
                            else None)))))"

definition fuel_for :: "string \<Rightarrow> nat" where
  "fuel_for s = 2 * length s + 2"

text \<open>\<open>json.Unmarshal\<close> wants one value and nothing after it but white space.\<close>

definition parse_all :: "string \<Rightarrow> error + json" where
  "parse_all s =
     (case parse_value (fuel_for s) max_depth s of
        None \<Rightarrow> Inl (Json_Error ''invalid JSON'')
      | Some (v, r) \<Rightarrow> if skip_ws r = [] then Inr v else Inl (Json_Error ''invalid JSON''))"

text \<open>\<open>Decoder.Decode\<close> takes the first value; a body with nothing in it is \<open>io.EOF\<close>.\<close>

definition parse_first :: "string \<Rightarrow> error + json" where
  "parse_first s =
     (if skip_ws s = [] then Inl Io_EOF
      else (case parse_value (fuel_for s) max_depth s of
        None \<Rightarrow> Inl (Json_Error ''invalid JSON'')
      | Some (v, r) \<Rightarrow> Inr v))"

section \<open>Filling structs\<close>

text \<open>
  Names match exactly or after folding case; folding takes U+017F to \<open>S\<close> and U+212A to
  \<open>K\<close>, the two runes outside ASCII that fold into it.
\<close>

fun fold_name :: "string \<Rightarrow> string" where
  "fold_name [] = []"
| "fold_name (a # s) =
     (if 97 \<le> byte a \<and> byte a \<le> 122 then char_of (byte a - 32) # fold_name s
      else if byte a = 0xC5 \<and> take 1 s = [CHR 0xBF] then CHR ''S'' # fold_name (drop 1 s)
      else if byte a = 0xE2 \<and> take 2 s = [CHR 0x84, CHR 0xAA] then CHR ''K'' # fold_name (drop 2 s)
      else a # fold_name s)"

definition key_matches :: "string \<Rightarrow> string \<Rightarrow> bool" where
  "key_matches name k \<longleftrightarrow> k = name \<or> fold_name k = fold_name name"

text \<open>
  A field reads the members with its name in order, each on top of the value so far: the
  last one wins, \<open>null\<close> leaves a string or a number as it is and empties a slice, and a
  value of another type is an error of the whole decoding.
\<close>

fun field_from :: "(json \<Rightarrow> 'a \<Rightarrow> 'a option) \<Rightarrow> string \<Rightarrow> 'a \<Rightarrow> (string \<times> json) list \<Rightarrow> 'a option" where
  "field_from conv name z [] = Some z"
| "field_from conv name z ((k, v) # ms) =
     (if key_matches name k then
        (case conv v z of None \<Rightarrow> None | Some x \<Rightarrow> field_from conv name x ms)
      else field_from conv name z ms)"

fun as_string :: "json \<Rightarrow> string \<Rightarrow> string option" where
  "as_string (JStr s) z = Some s"
| "as_string JNull z = Some z"
| "as_string _ z = None"

text \<open>An integer field takes a literal without fraction and exponent that fits 64 bits.\<close>

definition parse_int64 :: "string \<Rightarrow> int option" where
  "parse_int64 s =
     (let (neg, ds) = (case s of c # r \<Rightarrow> if c = CHR ''-'' then (True, r) else (False, s) | [] \<Rightarrow> (False, s));
          i = (if neg then - int (read_digits ds) else int (read_digits ds))
      in if ds \<noteq> [] \<and> list_all is_digit ds \<and> - (2 ^ 63) \<le> i \<and> i < 2 ^ 63 then Some i else None)"

fun as_int :: "json \<Rightarrow> int \<Rightarrow> int option" where
  "as_int (JNum s) z = parse_int64 s"
| "as_int JNull z = Some z"
| "as_int _ z = None"

fun all_some :: "'a option list \<Rightarrow> 'a list option" where
  "all_some [] = Some []"
| "all_some (None # xs) = None"
| "all_some (Some x # xs) = map_option (Cons x) (all_some xs)"

text \<open>A slice of strings; \<open>None\<close> is the nil slice.\<close>

fun as_strings :: "json \<Rightarrow> string list option \<Rightarrow> string list option option" where
  "as_strings (JArr vs) z = map_option Some (all_some (map (\<lambda>v. as_string v []) vs))"
| "as_strings JNull z = Some None"
| "as_strings _ z = None"

text \<open>The members of a struct: an object has them, \<open>null\<close> leaves the struct as it is.\<close>

fun members_of :: "json \<Rightarrow> (string \<times> json) list option" where
  "members_of (JObj ms) = Some ms"
| "members_of JNull = Some []"
| "members_of _ = None"

text \<open>A slice of structs.\<close>

fun structs_of :: "json \<Rightarrow> (string \<times> json) list list option" where
  "structs_of (JArr vs) = all_some (map members_of vs)"
| "structs_of JNull = Some []"
| "structs_of _ = None"

definition decoded :: "'a option \<Rightarrow> error + 'a" where
  "decoded x = (case x of None \<Rightarrow> Inl (Json_Error ''cannot unmarshal'') | Some y \<Rightarrow> Inr y)"

section \<open>Printing\<close>

definition hex_digit :: "nat \<Rightarrow> char" where
  "hex_digit n = (if n < 10 then char_of (48 + n) else char_of (87 + n))"

definition backslash :: char where
  "backslash = CHR 0x5C"

definition quote :: char where
  "quote = CHR 0x22"

text \<open>A byte of ASCII in a string literal, HTML escaping included.\<close>

definition print_ascii :: "char \<Rightarrow> string" where
  "print_ascii c =
     (if c = quote \<or> c = backslash then [backslash, c]
      else if byte c = 8 then [backslash, CHR ''b'']
      else if byte c = 12 then [backslash, CHR ''f'']
      else if byte c = 10 then [backslash, CHR ''n'']
      else if byte c = 13 then [backslash, CHR ''r'']
      else if byte c = 9 then [backslash, CHR ''t'']
      else if byte c < 32 \<or> c = CHR ''<'' \<or> c = CHR ''>'' \<or> c = CHR ''&'' then
        [backslash, CHR ''u'', CHR ''0'', CHR ''0'', hex_digit (byte c div 16), hex_digit (byte c mod 16)]
      else [c])"

function print_chars :: "string \<Rightarrow> string" where
  "print_chars s =
     (case s of [] \<Rightarrow> []
      | c # r \<Rightarrow>
          if byte c < 0x80 then print_ascii c @ print_chars r
          else if rune_width s = 0 then [backslash] @ ''ufffd'' @ print_chars r
          else if take 3 s = [CHR 0xE2, CHR 0x80, CHR 0xA8] then
            [backslash] @ ''u2028'' @ print_chars (drop 3 s)
          else if take 3 s = [CHR 0xE2, CHR 0x80, CHR 0xA9] then
            [backslash] @ ''u2029'' @ print_chars (drop 3 s)
          else take (rune_width s) s @ print_chars (drop (rune_width s) s))"
  by pat_completeness auto
termination
  by (relation "measure length") auto

declare print_chars.simps [simp del]

definition print_string :: "string \<Rightarrow> string" where
  "print_string s = [quote] @ print_chars s @ [quote]"

fun print_list :: "string list \<Rightarrow> string" where
  "print_list [] = []"
| "print_list [x] = x"
| "print_list (x # xs) = x @ '','' @ print_list xs"

end
