(* ===== verification/GoDuration.thy ===== *)
theory GoDuration
  imports Complex_Main GoTime "HOL-Library.Log_Nat"
begin

text \<open>
  \<open>time.ParseDuration\<close> and \<open>Duration.String\<close>.  The fraction of a number is scaled in
  binary floating point, so \<open>float64\<close> is here as well: \<open>round53\<close> rounds a positive rational
  to the nearest one with 53 significant bits, ties to even.  (The exponents that occur are
  far from the limits of the format.)
\<close>

section \<open>float64\<close>

definition round_half_even :: "rat \<Rightarrow> int" where
  "round_half_even y =
     (let n = \<lfloor>y\<rfloor>; r = y - of_int n in
      if r > 1 / 2 \<or> (r = 1 / 2 \<and> odd n) then n + 1 else n)"

definition pow2 :: "int \<Rightarrow> rat" where
  "pow2 e = (if e \<ge> 0 then 2 ^ nat e else 1 / 2 ^ nat (- e))"

definition round53 :: "rat \<Rightarrow> rat" where
  "round53 x =
     (if x \<le> 0 then 0
      else
        let (p, q) = quotient_of x;
            e0 = bitlen p - bitlen q - 53;
            e = (if x / pow2 e0 \<ge> 2 ^ 53 then e0 + 1 else e0)
        in of_int (round_half_even (x / pow2 e)) * pow2 e)"

text \<open>\<open>scale\<close> starts at 1 and is multiplied by 10 for every digit of the fraction.\<close>

primrec frac_scale :: "nat \<Rightarrow> rat" where
  "frac_scale 0 = 1"
| "frac_scale (Suc n) = round53 (frac_scale n * 10)"

text \<open>\<open>uint64(float64(f) * (float64(unit) / scale))\<close>.\<close>

definition scaled :: "nat \<Rightarrow> nat \<Rightarrow> nat \<Rightarrow> nat" where
  "scaled f unit digits =
     nat \<lfloor>round53 (round53 (of_nat f) * round53 (of_nat unit / frac_scale digits))\<rfloor>"

section \<open>Parsing\<close>

text \<open>\<open>leadingInt\<close>: the digits at the head; \<open>None\<close> when the number is above \<open>2 ^ 63\<close>.\<close>

fun leadingInt :: "nat \<Rightarrow> string \<Rightarrow> (nat \<times> string) option" where
  "leadingInt x [] = Some (x, [])"
| "leadingInt x (c # s) =
     (if \<not> is_digit c then Some (x, c # s)
      else if x > 2 ^ 63 div 10 then None
      else if x * 10 + digit_value c > 2 ^ 63 then None
      else leadingInt (x * 10 + digit_value c) s)"

text \<open>\<open>leadingFraction\<close>: the digits that fit, how many they are, and the rest; the digits
  after an overflow are skipped.\<close>

fun leadingFraction :: "bool \<Rightarrow> nat \<Rightarrow> nat \<Rightarrow> string \<Rightarrow> nat \<times> nat \<times> string" where
  "leadingFraction over x k [] = (x, k, [])"
| "leadingFraction over x k (c # s) =
     (if \<not> is_digit c then (x, k, c # s)
      else if over \<or> x > (2 ^ 63 - 1) div 10 \<or> x * 10 + digit_value c > 2 ^ 63
      then leadingFraction True x k s
      else leadingFraction False (x * 10 + digit_value c) (Suc k) s)"

definition unit_char :: "char \<Rightarrow> bool" where
  "unit_char c \<longleftrightarrow> \<not> (c = CHR ''.'' \<or> is_digit c)"

definition unitMap :: "string \<Rightarrow> nat option" where
  "unitMap u =
     (if u = ''ns'' then Some 1
      else if u = ''us'' \<or> u = [CHR 0xC2, CHR 0xB5, CHR ''s''] \<or> u = [CHR 0xCE, CHR 0xBC, CHR ''s'']
      then Some 1000
      else if u = ''ms'' then Some 1000000
      else if u = ''s'' then Some 1000000000
      else if u = ''m'' then Some 60000000000
      else if u = ''h'' then Some 3600000000000
      else None)"

lemma leadingInt_length: "leadingInt x s = Some (y, r) \<Longrightarrow> length r \<le> length s"
  by (induction x s rule: leadingInt.induct) (auto split: if_splits)

lemma leadingFraction_length: "leadingFraction over x k s = (y, j, r) \<Longrightarrow> length r \<le> length s"
  by (induction over x k s rule: leadingFraction.induct) (auto split: if_splits)

text \<open>The number: its integer part, its fraction, the digits of the fraction, and the rest.\<close>

definition parse_mantissa :: "string \<Rightarrow> (nat \<times> nat \<times> nat \<times> string) option" where
  "parse_mantissa s =
     (case leadingInt 0 s of None \<Rightarrow> None
      | Some (v, s1) \<Rightarrow>
          if take 1 s1 = ''.'' then
            (case leadingFraction False 0 0 (drop 1 s1) of (f, k, s2) \<Rightarrow>
               if length s = length s1 \<and> length (drop 1 s1) = length s2 then None
               else Some (v, f, k, s2))
          else if length s = length s1 then None
          else Some (v, 0, 0, s1))"

text \<open>A number with its unit: the nanoseconds and the rest.\<close>

definition parse_term :: "string \<Rightarrow> (nat \<times> string) option" where
  "parse_term s =
     (if s = [] \<or> unit_char (hd s) then None
      else (case parse_mantissa s of None \<Rightarrow> None
      | Some (v, f, k, r) \<Rightarrow>
          if takeWhile unit_char r = [] then None
          else (case unitMap (takeWhile unit_char r) of None \<Rightarrow> None
          | Some unit \<Rightarrow>
              if v > 2 ^ 63 div unit then None
              else
                (let v' = (if f > 0 then v * unit + scaled f unit k else v * unit) in
                 if v' > 2 ^ 63 then None else Some (v', dropWhile unit_char r)))))"

lemma parse_mantissa_length: "parse_mantissa s = Some (v, f, k, r) \<Longrightarrow> length r \<le> length s"
  by (auto simp: parse_mantissa_def split: option.splits if_splits prod.splits
      dest!: leadingInt_length leadingFraction_length)

lemma dropWhile_shorter: "takeWhile p t \<noteq> [] \<Longrightarrow> length (dropWhile p t) < length t"
  by (cases t) (auto simp: le_imp_less_Suc length_dropWhile_le split: if_splits)

lemma parse_term_shorter: "parse_term s = Some (v, r) \<Longrightarrow> length r < length s"
  by (auto simp: parse_term_def Let_def split: option.splits if_splits prod.splits
      dest!: parse_mantissa_length dropWhile_shorter)

function parse_terms :: "nat \<Rightarrow> string \<Rightarrow> nat option" where
  "parse_terms d s =
     (if s = [] then Some d
      else (case parse_term s of None \<Rightarrow> None
      | Some (v, r) \<Rightarrow> if d + v > 2 ^ 63 then None else parse_terms (d + v) r))"
  by pat_completeness auto
termination
  by (relation "measure (\<lambda>(d, s). length s)") (auto dest: parse_term_shorter)

declare parse_terms.simps [simp del]

definition ParseDuration :: "string \<Rightarrow> error + duration" where
  "ParseDuration s =
     (let (neg, t) =
        (case s of [] \<Rightarrow> (False, s)
         | c # r \<Rightarrow> if c = CHR ''-'' then (True, r) else if c = CHR ''+'' then (False, r) else (False, s))
      in if t = ''0'' then Inr 0
         else if t = [] then Inl (Time_Error ''invalid duration'')
         else (case parse_terms 0 t of
             None \<Rightarrow> Inl (Time_Error ''invalid duration'')
           | Some d \<Rightarrow>
               if neg then Inr (- int d)
               else if d > 2 ^ 63 - 1 then Inl (Time_Error ''invalid duration'')
               else Inr (int d)))"

lemma parse_terms_le: "parse_terms d s = Some n \<Longrightarrow> d \<le> 2 ^ 63 \<Longrightarrow> n \<le> 2 ^ 63"
proof (induction d s rule: parse_terms.induct)
  case (1 d s)
  show ?case
  proof (cases "s = []")
    case True
    with 1(2,3) show ?thesis by (simp add: parse_terms.simps)
  next
    case False
    with 1(2) obtain v r where
      "parse_term s = Some (v, r)" "\<not> d + v > 2 ^ 63" "parse_terms (d + v) r = Some n"
      by (subst (asm) parse_terms.simps) (auto split: if_splits option.splits)
    with 1(1) [OF False this(1) refl this(2)] show ?thesis by linarith
  qed
qed

text \<open>A duration that parses fits the 64 bits of \<open>time.Duration\<close>.\<close>

lemma ParseDuration_range: "ParseDuration s = Inr d \<Longrightarrow> - (2 ^ 63) \<le> d \<and> d < 2 ^ 63"
  by (auto simp: ParseDuration_def Let_def split: if_splits option.splits list.splits prod.splits
      dest!: parse_terms_le)

section \<open>Printing\<close>

definition fmtFrac :: "nat \<Rightarrow> nat \<Rightarrow> string" where
  "fmtFrac prec u =
     (let s = strip_zeros (pad prec (u mod 10 ^ prec)) in if s = [] then [] else ''.'' @ s)"

definition fmtSeconds :: "nat \<Rightarrow> string" where
  "fmtSeconds u =
     (let secs = u div 10 ^ 9; mins = secs div 60; hours = mins div 60 in
      (if hours > 0 then dec hours @ ''h'' else []) @
      (if mins > 0 then dec (mins mod 60) @ ''m'' else []) @
      dec (secs mod 60) @ fmtFrac 9 u @ ''s'')"

definition Duration_String :: "duration \<Rightarrow> string" where
  "Duration_String d =
     (let u = nat \<bar>d\<bar> in
      (if d < 0 then ''-'' else []) @
      (if u = 0 then ''0s''
       else if u < 1000 then dec u @ ''ns''
       else if u < 1000000 then dec (u div 1000) @ fmtFrac 3 u @ [CHR 0xC2, CHR 0xB5, CHR ''s'']
       else if u < 1000000000 then dec (u div 1000000) @ fmtFrac 6 u @ ''ms''
       else fmtSeconds u))"

end
