(* ===== verification/Config.thy ===== *)
theory Config
  imports GoDuration
begin

text \<open>
  \<open>internal/config/config.go\<close>: the settings and how they come out of the environment.  An
  environment is a function from names to values, with the empty text for a variable that is
  not set, as \<open>os.Getenv\<close> has it.
\<close>

type_synonym environment = "string \<Rightarrow> string"

record config =
  ListenAddr :: string
  DBPath :: string
  PublicURL :: string
  BaseURL :: string
  PublicBaseURL :: string
  Realm :: string
  ClientID :: string
  ClientSecret :: string
  OIDCEnabled :: bool
  OIDCClientID :: string
  OIDCClientSecret :: string
  OIDCRedirectURL :: string
  SessionSecret :: string
  AllowHeaderAuth :: bool
  NotifyWebhookURL :: string
  GroupEligible :: string
  GroupActive :: string
  GroupPermanent :: string
  GroupBreakGlass :: string
  RequestTTL :: duration
  ActiveTTL :: duration
  PollInterval :: duration

definition getenv :: "environment \<Rightarrow> string \<Rightarrow> string \<Rightarrow> string" where
  "getenv os k dflt = (if os k \<noteq> [] then os k else dflt)"

definition durationEnv :: "environment \<Rightarrow> string \<Rightarrow> duration \<Rightarrow> duration" where
  "durationEnv os k dflt =
     (if os k = [] then dflt
      else (case ParseDuration (os k) of Inl e \<Rightarrow> dflt | Inr d \<Rightarrow> d))"

definition boolEnv :: "environment \<Rightarrow> string \<Rightarrow> bool \<Rightarrow> bool" where
  "boolEnv os k dflt =
     (let v = ToLower (TrimSpace (os k)) in
      if v = [] then dflt
      else v = ''1'' \<or> v = ''true'' \<or> v = ''yes'' \<or> v = ''on'')"

definition FromEnv :: "environment \<Rightarrow> config" where
  "FromEnv os =
     \<lparr>ListenAddr = getenv os ''LISTEN_ADDR'' '':8080'',
      DBPath = getenv os ''DB_PATH'' ''/data/pim.db'',
      PublicURL = TrimRightSlash (getenv os ''PUBLIC_URL'' ''http://127.0.0.1:8081''),
      BaseURL = getenv os ''KC_BASE_URL'' ''http://keycloak.keycloak.svc.cluster.local:8080'',
      PublicBaseURL = TrimRightSlash (getenv os ''KC_PUBLIC_URL'' []),
      Realm = getenv os ''KC_REALM'' ''pim-test'',
      ClientID = getenv os ''PIM_CLIENT_ID'' ''pim-service'',
      ClientSecret = os ''PIM_CLIENT_SECRET'',
      OIDCEnabled = boolEnv os ''OIDC_ENABLED'' True,
      OIDCClientID = getenv os ''OIDC_CLIENT_ID'' ''pim-web'',
      OIDCClientSecret = os ''OIDC_CLIENT_SECRET'',
      OIDCRedirectURL = getenv os ''OIDC_REDIRECT_URL'' [],
      SessionSecret = getenv os ''SESSION_SECRET'' ''lab-only-change-me'',
      AllowHeaderAuth = boolEnv os ''ALLOW_HEADER_AUTH'' True,
      NotifyWebhookURL = TrimSpace (os ''NOTIFY_WEBHOOK_URL''),
      GroupEligible = getenv os ''GROUP_ADMIN_ELIGIBLE'' ''admin-eligible'',
      GroupActive = getenv os ''GROUP_ADMIN_ACTIVE'' ''admin-active'',
      GroupPermanent = getenv os ''GROUP_ADMIN_PERMANENT'' ''admin-permanent'',
      GroupBreakGlass = getenv os ''GROUP_BREAKGLASS'' ''break-glass'',
      RequestTTL = durationEnv os ''REQUEST_TTL'' Hour,
      ActiveTTL = durationEnv os ''ACTIVE_TTL'' (9 * Hour),
      PollInterval = durationEnv os ''POLL_INTERVAL'' (30 * Second)\<rparr>"

definition RedirectURL :: "config \<Rightarrow> string" where
  "RedirectURL c =
     (if OIDCRedirectURL c \<noteq> [] then OIDCRedirectURL c else PublicURL c @ ''/auth/callback'')"

definition BrowserIssuer :: "config \<Rightarrow> string" where
  "BrowserIssuer c = (if PublicBaseURL c \<noteq> [] then PublicBaseURL c else BaseURL c)"

text \<open>The durations fit 64 bits; those that do not parse fall back to the default.\<close>

lemma durationEnv_range:
  "- (2 ^ 63) \<le> dflt \<Longrightarrow> dflt < 2 ^ 63 \<Longrightarrow>
   - (2 ^ 63) \<le> durationEnv os k dflt \<and> durationEnv os k dflt < 2 ^ 63"
  by (auto simp: durationEnv_def split: sum.splits dest: ParseDuration_range)

lemma TrimRightSlash_no_slash: "TrimRightSlash s = [] \<or> last (TrimRightSlash s) \<noteq> CHR ''/''"
  using hd_dropWhile [of "\<lambda>c. c = CHR ''/''" "rev s"]
  by (auto simp: TrimRightSlash_def last_rev)

text \<open>
  With nothing set, header authentication is on and the session secret is the constant in the
  source: both are the configuration of a lab.
\<close>

lemma FromEnv_default:
  "AllowHeaderAuth (FromEnv (\<lambda>_. [])) \<and> SessionSecret (FromEnv (\<lambda>_. [])) = ''lab-only-change-me''"
  by (simp add: FromEnv_def boolEnv_def getenv_def TrimSpace_def TrimRightSpace_def TrimLeftSpace_def)

end
