(* ===== verification/GoNet.thy ===== *)
theory GoNet
  imports GoText
begin

text \<open>
  \<open>url.QueryEscape\<close>, \<open>url.Values.Encode\<close> and \<open>strconv.Quote\<close> on byte strings.  Of the
  runes beyond ASCII, \<open>Quote\<close> escapes those Unicode does not call printable; the model
  leaves them all as they are (they occur in the text of two error messages only).
\<close>

definition upper_hex :: "nat \<Rightarrow> char" where
  "upper_hex n = (if n < 10 then char_of (48 + n) else char_of (55 + n))"

definition unreserved :: "char \<Rightarrow> bool" where
  "unreserved c \<longleftrightarrow>
     (65 \<le> byte c \<and> byte c \<le> 90) \<or> (97 \<le> byte c \<and> byte c \<le> 122) \<or> is_digit c \<or>
     c = CHR ''-'' \<or> c = CHR ''_'' \<or> c = CHR ''.'' \<or> c = CHR ''~''"

definition escape_byte :: "char \<Rightarrow> string" where
  "escape_byte c =
     (if unreserved c then [c]
      else if c = CHR '' '' then ''+''
      else [CHR ''%'', upper_hex (byte c div 16), upper_hex (byte c mod 16)])"

definition QueryEscape :: "string \<Rightarrow> string" where
  "QueryEscape s = concat (map escape_byte s)"

text \<open>Parameters with one value each, sorted by name.\<close>

fun insert_param :: "string \<times> string \<Rightarrow> (string \<times> string) list \<Rightarrow> (string \<times> string) list" where
  "insert_param p [] = [p]"
| "insert_param p (q # qs) = (if text_le (fst p) (fst q) then p # q # qs else q # insert_param p qs)"

fun join_with :: "string \<Rightarrow> string list \<Rightarrow> string" where
  "join_with sep [] = []"
| "join_with sep [x] = x"
| "join_with sep (x # xs) = x @ sep @ join_with sep xs"

definition Values_Encode :: "(string \<times> string) list \<Rightarrow> string" where
  "Values_Encode kvs =
     join_with ''&'' (map (\<lambda>(k, v). QueryEscape k @ ''='' @ QueryEscape v) (foldr insert_param kvs []))"

text \<open>An escaped text holds no separator, and the escaping loses nothing.\<close>

lemma escape_byte_clean: "c \<in> set (escape_byte d) \<Longrightarrow> unreserved c \<or> c = CHR ''+'' \<or> c = CHR ''%''"
proof -
  have hex: "unreserved (upper_hex n)" if "n < 16" for n
    using that by (auto simp: upper_hex_def unreserved_def is_digit_def)
  assume "c \<in> set (escape_byte d)"
  moreover have "byte d div 16 < 16"
    using of_char_mod_256 [of d, where 'a = nat] by (metis less_mult_imp_div_less mod_less_divisor
        numeral_times_numeral semiring_norm(14) semiring_norm(13) semiring_norm(11) zero_less_numeral)
  ultimately show ?thesis using hex by (auto simp: escape_byte_def split: if_splits)
qed

lemma QueryEscape_clean: "CHR ''&'' \<notin> set (QueryEscape s) \<and> CHR ''='' \<notin> set (QueryEscape s)"
proof -
  have "\<not> unreserved (CHR ''&'')" "\<not> unreserved (CHR ''='')"
    by (simp_all add: unreserved_def is_digit_def)
  then show ?thesis by (auto simp: QueryEscape_def dest!: escape_byte_clean)
qed

text \<open>Reading an escaped text back.\<close>

definition unhex :: "char \<Rightarrow> nat" where
  "unhex c = (if byte c \<le> 57 then byte c - 48 else byte c - 55)"

fun unescape :: "string \<Rightarrow> string" where
  "unescape [] = []"
| "unescape (c # r) =
     (if c = CHR ''+'' then CHR '' '' # unescape r
      else if c = CHR ''%'' then
        (case r of a # b # s \<Rightarrow> char_of (unhex a * 16 + unhex b) # unescape (drop 2 r) | _ \<Rightarrow> [])
      else c # unescape r)"

lemma unhex_upper: "n < 16 \<Longrightarrow> unhex (upper_hex n) = n"
  by (auto simp: unhex_def upper_hex_def)

lemma unescape_byte: "unescape (escape_byte c @ r) = c # unescape r"
proof -
  have "byte c < 256" using of_char_mod_256 [of c, where 'a = nat] by (metis mod_less_divisor zero_less_numeral)
  then have "byte c div 16 < 16" by (simp add: div_less_iff_less_mult)
  moreover have "byte c mod 16 < 16" by simp
  moreover have "unreserved c \<Longrightarrow> c \<noteq> CHR ''+'' \<and> c \<noteq> CHR ''%''"
    by (auto simp: unreserved_def is_digit_def)
  ultimately show ?thesis by (auto simp: escape_byte_def unhex_upper)
qed

lemma unescape_QueryEscape: "unescape (QueryEscape s) = s"
  by (induction s) (simp_all add: QueryEscape_def unescape_byte)

lemma QueryEscape_inj: "QueryEscape s = QueryEscape t \<longleftrightarrow> s = t"
  by (metis unescape_QueryEscape)

section \<open>Quoting\<close>

definition quote_byte :: "char \<Rightarrow> string" where
  "quote_byte c =
     (let bs = CHR 0x5C in
      if byte c = 34 \<or> byte c = 92 then [bs, c]
      else if byte c = 7 then [bs, CHR ''a'']
      else if byte c = 8 then [bs, CHR ''b'']
      else if byte c = 12 then [bs, CHR ''f'']
      else if byte c = 10 then [bs, CHR ''n'']
      else if byte c = 13 then [bs, CHR ''r'']
      else if byte c = 9 then [bs, CHR ''t'']
      else if byte c = 11 then [bs, CHR ''v'']
      else if byte c < 32 \<or> byte c = 127 then
        [bs, CHR ''x''] @
        map (\<lambda>n. if n < 10 then char_of (48 + n) else char_of (87 + n)) [byte c div 16, byte c mod 16]
      else [c])"

definition Quote :: "string \<Rightarrow> string" where
  "Quote s = [CHR 0x22] @ concat (map quote_byte s) @ [CHR 0x22]"

end
