(* ===== verification/Keycloak.thy ===== *)
theory Keycloak
  imports Membership Json Config GoNet
begin

text \<open>
  \<open>internal/keycloak/client.go\<close>: the client of the Keycloak admin interface.  Every
  operation is a program of calls on the server, the clock and the fields of \<open>Client\<close>, which
  \<open>Client.mu\<close> guards.  A URL that \<open>net/url\<close> refuses and a header value the transport
  refuses are among the errors an exchange may end with.
\<close>

section \<open>Exchanges\<close>

definition slashless :: "config \<Rightarrow> string" where
  "slashless cfg = TrimRightSlash (BaseURL cfg)"

text \<open>\<open>http.Client.PostForm\<close>.\<close>

definition form_request :: "string \<Rightarrow> (string \<times> string) list \<Rightarrow> http_request" where
  "form_request url kvs =
     \<lparr>hq_method = ''POST'', hq_url = url,
      hq_header = [(''Content-Type'', ''application/x-www-form-urlencoded'')],
      hq_body = Values_Encode kvs\<rparr>"

definition bearer_request :: "string \<Rightarrow> string \<Rightarrow> string \<Rightarrow> http_request" where
  "bearer_request verb url tok =
     \<lparr>hq_method = verb, hq_url = url, hq_header = [(''Authorization'', ''Bearer '' @ tok)], hq_body = []\<rparr>"

definition token_url :: "config \<Rightarrow> string" where
  "token_url cfg = slashless cfg @ ''/realms/'' @ Realm cfg @ ''/protocol/openid-connect/token''"

text \<open>A \<open>time.Duration\<close> has 64 bits, and a product of durations wraps.\<close>

definition wrap64 :: "int \<Rightarrow> int" where
  "wrap64 x = (x + 2 ^ 63) mod 2 ^ 64 - 2 ^ 63"

definition token_fields :: "json \<Rightarrow> (string \<times> int) option" where
  "token_fields j =
     (case members_of j of None \<Rightarrow> None
      | Some ms \<Rightarrow>
          (case field_from as_string ''access_token'' [] ms of None \<Rightarrow> None
           | Some tok \<Rightarrow> map_option (Pair tok) (field_from as_int ''expires_in'' 0 ms)))"

text \<open>The exchange for a new token, up to the decoded answer.\<close>

definition read_token :: "http_response \<Rightarrow> error + string \<times> int" where
  "read_token resp =
     (if hp_code resp \<ge> 300 then Inl (Msg (''token: '' @ hp_status resp @ '': '' @ hp_body resp))
      else (case parse_all (hp_body resp) of
          Inl e \<Rightarrow> Inl e
        | Inr j \<Rightarrow>
            (case decoded (token_fields j) of
               Inl e \<Rightarrow> Inl e
             | Inr (tok, secs) \<Rightarrow>
                 (if tok = [] then Inl (Msg ''empty access_token'') else Inr (tok, secs)))))"

definition fetch_token :: "config \<Rightarrow> (error + string) prog" where
  "fetch_token cfg =
     Keycloak (form_request (token_url cfg)
         [(''grant_type'', ''client_credentials''), (''client_id'', ClientID cfg),
          (''client_secret'', ClientSecret cfg)])
       (\<lambda>res. case res of
          Inl e \<Rightarrow> Unlock Client_mu (Ret (Inl e))
        | Inr resp \<Rightarrow>
            (case read_token resp of
               Inl e \<Rightarrow> Unlock Client_mu (Ret (Inl e))
             | Inr (tok, secs) \<Rightarrow>
                 Now (\<lambda>now. GetClient (\<lambda>c.
                   PutClient (c\<lparr>cachedToken := tok, tokenExpiry := now + wrap64 (secs * Second)\<rparr>)
                     (Unlock Client_mu (Ret (Inr tok)))))))"

definition accessToken :: "config \<Rightarrow> (error + string) prog" where
  "accessToken cfg =
     Lock Client_mu (GetClient (\<lambda>c.
       if cachedToken c \<noteq> [] then
         Now (\<lambda>now.
           if now < tokenExpiry c - 30 * Second
           then Unlock Client_mu (Ret (Inr (cachedToken c)))
           else fetch_token cfg)
       else fetch_token cfg))"

text \<open>\<open>Client.do\<close>: \<open>out\<close> decodes the body; \<open>None\<close> for a nil \<open>out\<close>, and \<open>z\<close> is what the
  target holds before.\<close>

definition read_answer ::
  "string \<Rightarrow> string \<Rightarrow> (json \<Rightarrow> 'a option) option \<Rightarrow> 'a \<Rightarrow> http_response \<Rightarrow> error + 'a"
where
  "read_answer verb path out z resp =
     (if hp_code resp \<ge> 300
      then Inl (Msg (verb @ '' '' @ path @ '': '' @ hp_status resp @ '': '' @ hp_body resp))
      else (case out of
          None \<Rightarrow> Inr z
        | Some conv \<Rightarrow>
            (if hp_body resp = [] then Inr z
             else (case parse_all (hp_body resp) of Inl e \<Rightarrow> Inl e | Inr j \<Rightarrow> decoded (conv j)))))"

definition do_request ::
  "config \<Rightarrow> string \<Rightarrow> string \<Rightarrow> (json \<Rightarrow> 'a option) option \<Rightarrow> 'a \<Rightarrow> (error + 'a) prog"
where
  "do_request cfg verb path out z =
     bnd (accessToken cfg) (\<lambda>t. case t of
       Inl e \<Rightarrow> Ret (Inl e)
     | Inr tok \<Rightarrow>
         Keycloak (bearer_request verb (slashless cfg @ path) tok) (\<lambda>res. Ret (case res of
           Inl e \<Rightarrow> Inl e
         | Inr resp \<Rightarrow> read_answer verb path out z resp)))"

section \<open>Users and groups\<close>

definition decode_structs :: "((string \<times> json) list \<Rightarrow> 'a option) \<Rightarrow> json \<Rightarrow> 'a list option" where
  "decode_structs f j = (case structs_of j of None \<Rightarrow> None | Some mss \<Rightarrow> all_some (map f mss))"

definition user_fields :: "json \<Rightarrow> string list option" where
  "user_fields = decode_structs (field_from as_string ''id'' [])"

definition group_names :: "json \<Rightarrow> string list option" where
  "group_names = decode_structs (field_from as_string ''name'' [])"

definition group_fields :: "json \<Rightarrow> (string \<times> string) list option" where
  "group_fields = decode_structs (\<lambda>ms.
     case field_from as_string ''id'' [] ms of None \<Rightarrow> None
     | Some i \<Rightarrow> map_option (Pair i) (field_from as_string ''name'' [] ms))"

definition users_path :: "config \<Rightarrow> string \<Rightarrow> string" where
  "users_path cfg username =
     ''/admin/realms/'' @ Realm cfg @ ''/users?'' @ Values_Encode [(''username'', username), (''exact'', ''true'')]"

definition user_groups_path :: "config \<Rightarrow> string \<Rightarrow> string" where
  "user_groups_path cfg uid = ''/admin/realms/'' @ Realm cfg @ ''/users/'' @ uid @ ''/groups''"

definition groups_path :: "config \<Rightarrow> string \<Rightarrow> string" where
  "groups_path cfg name =
     ''/admin/realms/'' @ Realm cfg @ ''/groups?'' @ Values_Encode [(''search'', name), (''exact'', ''true'')]"

definition membership_path :: "config \<Rightarrow> string \<Rightarrow> string \<Rightarrow> string" where
  "membership_path cfg uid gid =
     ''/admin/realms/'' @ Realm cfg @ ''/users/'' @ uid @ ''/groups/'' @ gid"

text \<open>Different names are asked for on different paths.\<close>

lemma users_path_inj: "users_path cfg u = users_path cfg v \<longleftrightarrow> u = v"
  by (simp add: users_path_def Values_Encode_def text_le_def QueryEscape_inj)

lemma groups_path_inj: "groups_path cfg g = groups_path cfg h \<longleftrightarrow> g = h"
  by (simp add: groups_path_def Values_Encode_def text_le_def QueryEscape_inj)

definition userID :: "config \<Rightarrow> string \<Rightarrow> (error + string) prog" where
  "userID cfg username =
     bnd (do_request cfg ''GET'' (users_path cfg username) (Some user_fields) []) (\<lambda>res. Ret (case res of
       Inl e \<Rightarrow> Inl e
     | Inr users \<Rightarrow>
         (if users = [] \<or> hd users = []
          then Inl (Msg (''user '' @ Quote username @ '' not found''))
          else Inr (hd users))))"

definition userGroups :: "config \<Rightarrow> string \<Rightarrow> (error + string list) prog" where
  "userGroups cfg uid = do_request cfg ''GET'' (user_groups_path cfg uid) (Some group_names) []"

definition groupID :: "config \<Rightarrow> string \<Rightarrow> (error + string) prog" where
  "groupID cfg name =
     Lock Client_mu (GetClient (\<lambda>c. case groupIDs c name of
       Some i \<Rightarrow> Unlock Client_mu (Ret (Inr i))
     | None \<Rightarrow> Unlock Client_mu (
         bnd (do_request cfg ''GET'' (groups_path cfg name) (Some group_fields) []) (\<lambda>res. case res of
           Inl e \<Rightarrow> Ret (Inl e)
         | Inr gs \<Rightarrow>
             (case find (\<lambda>(i, n). n = name \<and> i \<noteq> []) gs of
                Some (i, _) \<Rightarrow>
                  Lock Client_mu (GetClient (\<lambda>c.
                    PutClient (c\<lparr>groupIDs := (groupIDs c)(name \<mapsto> i)\<rparr>)
                      (Unlock Client_mu (Ret (Inr i)))))
              | None \<Rightarrow> Ret (Inl (Msg (''group '' @ Quote name @ '' not found''))))))))"

definition InGroup :: "config \<Rightarrow> string \<Rightarrow> string \<Rightarrow> (error + bool) prog" where
  "InGroup cfg username groupName =
     bnd (userID cfg username) (\<lambda>u. case u of
       Inl e \<Rightarrow> Ret (Inl e)
     | Inr uid \<Rightarrow>
         bnd (userGroups cfg uid) (\<lambda>g. Ret (case g of
           Inl e \<Rightarrow> Inl e
         | Inr gs \<Rightarrow> Inr (groupName \<in> set gs))))"

text \<open>\<open>AddToGroup\<close> and \<open>RemoveFromGroup\<close> differ in the method of the last request.\<close>

definition change_membership :: "config \<Rightarrow> string \<Rightarrow> string \<Rightarrow> string \<Rightarrow> (error + unit) prog" where
  "change_membership cfg verb username groupName =
     bnd (userID cfg username) (\<lambda>u. case u of
       Inl e \<Rightarrow> Ret (Inl e)
     | Inr uid \<Rightarrow>
         bnd (groupID cfg groupName) (\<lambda>g. case g of
           Inl e \<Rightarrow> Ret (Inl e)
         | Inr gid \<Rightarrow> do_request cfg verb (membership_path cfg uid gid) None ()))"

definition AddToGroup :: "config \<Rightarrow> string \<Rightarrow> string \<Rightarrow> (error + unit) prog" where
  "AddToGroup cfg = change_membership cfg ''PUT''"

definition RemoveFromGroup :: "config \<Rightarrow> string \<Rightarrow> string \<Rightarrow> (error + unit) prog" where
  "RemoveFromGroup cfg = change_membership cfg ''DELETE''"

definition new_client_mem :: client_mem where
  "new_client_mem = \<lparr>cachedToken = [], tokenExpiry = zero_time, groupIDs = Map.empty\<rparr>"

text \<open>The client as an implementation of the interface.\<close>

definition Client_groups :: "config \<Rightarrow> groups" where
  "Client_groups cfg =
     \<lparr>kc_InGroup = InGroup cfg, kc_AddToGroup = AddToGroup cfg,
      kc_RemoveFromGroup = RemoveFromGroup cfg\<rparr>"

section \<open>Mutexes and posts\<close>

lemma locked_fetch_token: "locked (Some Client_mu) (fetch_token cfg)"
  by (auto simp: fetch_token_def split: sum.splits)

lemma locked_accessToken: "locked None (accessToken cfg)"
  by (simp add: accessToken_def locked_fetch_token)

lemma locked_do_request: "locked None (do_request cfg verb path out z)"
  unfolding do_request_def
  by (intro locked_bnd locked_accessToken) (simp split: sum.split)

lemma locked_groupID: "locked None (groupID cfg name)"
  by (auto simp: groupID_def locked_do_request intro!: locked_bnd split: option.split sum.split)

lemma locked_userID: "locked None (userID cfg u)"
  by (simp add: userID_def locked_do_request locked_bnd)

lemma locked_change: "locked None (change_membership cfg verb u g)"
  by (auto simp: change_membership_def locked_userID locked_groupID locked_do_request
      intro!: locked_bnd split: sum.split)

lemma locked_InGroup: "locked None (InGroup cfg u g)"
  by (auto simp: InGroup_def userGroups_def locked_userID locked_do_request
      intro!: locked_bnd split: sum.split)

lemma permits_accessToken: "permits 0 (accessToken cfg)"
  by (auto simp: accessToken_def fetch_token_def split: sum.splits)

lemma permits_do_request: "permits 0 (do_request cfg verb path out z)"
  unfolding do_request_def
  by (intro permits_bnd permits_accessToken) (simp split: sum.split)

lemma permits_userID: "permits 0 (userID cfg u)"
  by (simp add: userID_def permits_do_request permits_bnd)

lemma permits_groupID: "permits 0 (groupID cfg name)"
  by (auto simp: groupID_def permits_do_request intro!: permits_bnd split: option.split sum.split)

lemma permits_InGroup: "permits 0 (InGroup cfg u g)"
  by (auto simp: InGroup_def userGroups_def permits_userID permits_do_request
      intro!: permits_bnd split: sum.split)

lemma permits_change: "permits 0 (change_membership cfg verb u g)"
  by (auto simp: change_membership_def permits_userID permits_groupID permits_do_request
      intro!: permits_bnd split: sum.split)

lemma disciplined_Client: "disciplined (Client_groups cfg)"
  by (simp add: disciplined_def Client_groups_def AddToGroup_def RemoveFromGroup_def locked_change
      locked_InGroup permits_InGroup permits_change)

section \<open>The contract\<close>

text \<open>
  The admin interface of the server, as documented: reading changes no membership, the search
  for a user by exact name returns that user, the groups of a user are those it is in, and
  \<open>PUT\<close> and \<open>DELETE\<close> on a membership set and clear it -- which an exchange that fails may
  have done as well.  The ids of users and groups are fixed.
\<close>

locale keycloak_api =
  clock E fair
  for E :: "('d, 'k, 'o) env" and fair :: "'o \<Rightarrow> bool" +
  fixes cfg :: config
    and user_id :: "string \<Rightarrow> string option" and group_id :: "string \<Rightarrow> string option"
    and in_grp :: "'k \<Rightarrow> (string \<times> string) set"
  assumes token_frame: "e_keycloak E (form_request url kvs) k = (r, k') \<Longrightarrow> in_grp k' = in_grp k"
    and get_frame: "e_keycloak E (bearer_request ''GET'' url tok) k = (r, k') \<Longrightarrow> in_grp k' = in_grp k"
    and users_api: "e_keycloak E (bearer_request ''GET'' (slashless cfg @ users_path cfg u) tok) k = (Inr resp, k') \<Longrightarrow>
          read_answer ''GET'' (users_path cfg u) (Some user_fields) [] resp = Inr us \<Longrightarrow>
          us \<noteq> [] \<Longrightarrow> hd us \<noteq> [] \<Longrightarrow> user_id u = Some (hd us)"
    and user_groups_api: "e_keycloak E (bearer_request ''GET'' (slashless cfg @ user_groups_path cfg uid) tok) k = (Inr resp, k') \<Longrightarrow>
          user_id u = Some uid \<Longrightarrow>
          read_answer ''GET'' (user_groups_path cfg uid) (Some group_names) [] resp = Inr names \<Longrightarrow>
          g \<in> set names \<longleftrightarrow> (uid, g) \<in> in_grp k"
    and groups_api: "e_keycloak E (bearer_request ''GET'' (slashless cfg @ groups_path cfg g) tok) k = (Inr resp, k') \<Longrightarrow>
          read_answer ''GET'' (groups_path cfg g) (Some group_fields) [] resp = Inr gs \<Longrightarrow>
          (gid, g) \<in> set gs \<Longrightarrow> gid \<noteq> [] \<Longrightarrow> group_id g = Some gid"
    and put_api: "e_keycloak E (bearer_request ''PUT'' (slashless cfg @ membership_path cfg uid gid) tok) k = (r, k') \<Longrightarrow>
          user_id u = Some uid \<Longrightarrow> group_id g = Some gid \<Longrightarrow>
          in_grp k' \<in> {in_grp k, insert (uid, g) (in_grp k)} \<and>
          ((\<exists>resp. r = Inr resp \<and> hp_code resp < 300) \<longrightarrow> (uid, g) \<in> in_grp k')"
    and delete_api: "e_keycloak E (bearer_request ''DELETE'' (slashless cfg @ membership_path cfg uid gid) tok) k = (r, k') \<Longrightarrow>
          user_id u = Some uid \<Longrightarrow> group_id g = Some gid \<Longrightarrow>
          in_grp k' \<in> {in_grp k, in_grp k - {(uid, g)}} \<and>
          ((\<exists>resp. r = Inr resp \<and> hp_code resp < 300) \<longrightarrow> (uid, g) \<notin> in_grp k')"
begin

definition ids_ok :: "client_mem \<Rightarrow> bool" where
  "ids_ok c \<longleftrightarrow> (\<forall>n i. groupIDs c n = Some i \<longrightarrow> group_id n = Some i)"

definition identity :: "string \<Rightarrow> string" where
  "identity u = (case user_id u of None \<Rightarrow> [] | Some i \<Rightarrow> i)"

abbreviation calmly :: "('d, 'k, 'o) world \<Rightarrow> ('d, 'k, 'o) world \<Rightarrow> bool" where
  "calmly w w' \<equiv> calm ids_ok fair w w' \<and> in_grp (w_kc w') = in_grp (w_kc w)"

lemma calmly_trans: "calmly w w' \<Longrightarrow> calmly w' w'' \<Longrightarrow> calmly w w''"
  by (auto intro: calm_trans)

lemma fetch_token_calm: "run E (fetch_token cfg) w = (r, w') \<Longrightarrow> calmly w w'"
  by (auto simp: fetch_token_def calm_def ids_ok_def split: prod.splits sum.splits
      dest: token_frame now_fair)

lemma accessToken_calm:
  assumes "run E (accessToken cfg) w = (r, w')"
  shows "calmly w w'"
proof -
  let ?w = "w\<lparr>w_held := insert Client_mu (w_held w)\<rparr>"
  have hold: "calmly ?w w' \<Longrightarrow> calmly w w'" by (simp add: calm_def)
  show ?thesis
  proof (cases "cachedToken (w_client w) = []")
    case True
    with assms have "run E (fetch_token cfg) ?w = (r, w')" by (simp add: accessToken_def)
    from fetch_token_calm [OF this] show ?thesis by (rule hold)
  next
    case False
    obtain t x where now: "e_now E (w_other w) = (t, x)" by fastforce
    show ?thesis
    proof (cases "t < tokenExpiry (w_client w) - 30 * Second")
      case True
      with False assms now now_fair [OF _ now] show ?thesis by (auto simp: accessToken_def calm_def)
    next
      case later: False
      with False assms now have "run E (fetch_token cfg) (?w\<lparr>w_other := x\<rparr>) = (r, w')"
        by (simp add: accessToken_def)
      from fetch_token_calm [OF this] now_fair [OF _ now] show ?thesis by (auto simp: calm_def)
    qed
  qed
qed

text \<open>A request: either it is not made, or it is made once, after calm preparations.\<close>

lemma do_request_cases:
  assumes "run E (do_request cfg verb path out z) w = (x, w')"
  obtains e where "x = Inl e" "calmly w w'"
  | tok w1 r k where "calmly w w1"
      "e_keycloak E (bearer_request verb (slashless cfg @ path) tok) (w_kc w1) = (r, k)"
      "w' = w1\<lparr>w_kc := k\<rparr>"
      "x = (case r of Inl e \<Rightarrow> Inl e | Inr resp \<Rightarrow> read_answer verb path out z resp)"
proof -
  obtain t w1 where a: "run E (accessToken cfg) w = (t, w1)" by fastforce
  note calm = accessToken_calm [OF a]
  show thesis
  proof (cases t)
    case (Inl e)
    with a assms have "x = Inl e" "w1 = w'" by (auto simp: do_request_def run_simps)
    with calm that(1) show thesis by blast
  next
    case (Inr tok)
    obtain r k where r: "e_keycloak E (bearer_request verb (slashless cfg @ path) tok) (w_kc w1) = (r, k)"
      by fastforce
    with Inr a assms calm that(2) show thesis by (simp add: do_request_def run_simps)
  qed
qed

lemma get_request_calm:
  assumes "run E (do_request cfg ''GET'' path out z) w = (x, w')"
  shows "calmly w w'"
  using assms
proof (rule do_request_cases)
  fix tok w1 r k
  assume "calmly w w1" "e_keycloak E (bearer_request ''GET'' (slashless cfg @ path) tok) (w_kc w1) = (r, k)"
    "w' = w1\<lparr>w_kc := k\<rparr>"
  then show ?thesis using get_frame by (simp add: calm_def)
qed

lemma userID_calm:
  assumes "run E (userID cfg u) w = (x, w')"
  shows "calmly w w'" "x = Inr uid \<Longrightarrow> user_id u = Some uid"
proof -
  obtain y where d: "run E (do_request cfg ''GET'' (users_path cfg u) (Some user_fields) []) w = (y, w')"
    and x: "x = (case y of Inl e \<Rightarrow> Inl e | Inr users \<Rightarrow>
        if users = [] \<or> hd users = [] then Inl (Msg (''user '' @ Quote u @ '' not found''))
        else Inr (hd users))"
    using assms by (auto simp: userID_def run_simps split: prod.splits)
  show "calmly w w'" by (rule get_request_calm [OF d])
  assume "x = Inr uid"
  with x obtain us where y: "y = Inr us" "us \<noteq> []" "hd us \<noteq> []" "uid = hd us"
    by (auto split: sum.splits if_splits)
  from d show "user_id u = Some uid"
  proof (rule do_request_cases)
    fix tok w1 r k
    assume k: "e_keycloak E (bearer_request ''GET'' (slashless cfg @ users_path cfg u) tok) (w_kc w1) = (r, k)"
      and "y = (case r of Inl e \<Rightarrow> Inl e
        | Inr resp \<Rightarrow> read_answer ''GET'' (users_path cfg u) (Some user_fields) [] resp)"
    with y(1) obtain resp where "r = Inr resp"
      "read_answer ''GET'' (users_path cfg u) (Some user_fields) [] resp = Inr us"
      by (auto split: sum.splits)
    with users_api k y show ?thesis by blast
  qed (use y in simp)
qed

lemma userGroups_calm:
  assumes "run E (userGroups cfg uid) w = (x, w')"
  shows "calmly w w'"
    "x = Inr names \<Longrightarrow> user_id u = Some uid \<Longrightarrow> g \<in> set names \<longleftrightarrow> (uid, g) \<in> in_grp (w_kc w)"
proof -
  note d = assms [unfolded userGroups_def]
  show "calmly w w'" by (rule get_request_calm [OF d])
  assume x: "x = Inr names" and u: "user_id u = Some uid"
  from d show "g \<in> set names \<longleftrightarrow> (uid, g) \<in> in_grp (w_kc w)"
  proof (rule do_request_cases)
    fix tok w1 r k
    assume calm: "calmly w w1"
      and k: "e_keycloak E (bearer_request ''GET'' (slashless cfg @ user_groups_path cfg uid) tok) (w_kc w1) = (r, k)"
      and "x = (case r of Inl e \<Rightarrow> Inl e
        | Inr resp \<Rightarrow> read_answer ''GET'' (user_groups_path cfg uid) (Some group_names) [] resp)"
    with x obtain resp where "r = Inr resp"
      "read_answer ''GET'' (user_groups_path cfg uid) (Some group_names) [] resp = Inr names"
      by (auto split: sum.splits)
    with user_groups_api [OF _ u] k calm show ?thesis by simp
  qed (use x in simp)
qed

lemma groupID_calm:
  assumes "ids_ok (w_client w)" "run E (groupID cfg g) w = (x, w')"
  shows "calmly w w' \<and> (\<forall>gid. x = Inr gid \<longrightarrow> group_id g = Some gid)"
proof (cases "groupIDs (w_client w) g")
  case (Some i)
  with assms show ?thesis by (auto simp: groupID_def calm_def ids_ok_def)
next
  case None
  let ?w = "w\<lparr>w_held := insert Client_mu (w_held w) - {Client_mu}\<rparr>"
  obtain y w1 where d: "run E (do_request cfg ''GET'' (groups_path cfg g) (Some group_fields) []) ?w = (y, w1)"
    by fastforce
  from get_request_calm [OF d] have calm: "calmly w w1" by (simp add: calm_def)
  then have ids: "ids_ok (w_client w1)" using assms(1) by (simp add: calm_def)
  have run: "run E (case y of
        Inl e \<Rightarrow> Ret (Inl e)
      | Inr gs \<Rightarrow>
          (case find (\<lambda>(i, n). n = g \<and> i \<noteq> []) gs of
             Some (i, _) \<Rightarrow>
               Lock Client_mu (GetClient (\<lambda>c.
                 PutClient (c\<lparr>groupIDs := (groupIDs c)(g \<mapsto> i)\<rparr>) (Unlock Client_mu (Ret (Inr i)))))
           | None \<Rightarrow> Ret (Inl (Msg (''group '' @ Quote g @ '' not found''))))) w1 = (x, w')"
    using assms(2) None d by (simp add: groupID_def run_simps)
  show ?thesis
  proof (cases y)
    case (Inl e)
    with run calm show ?thesis by auto
  next
    case (Inr gs)
    show ?thesis
    proof (cases "find (\<lambda>(i, n). n = g \<and> i \<noteq> []) gs")
      case none: None
      with run calm Inr show ?thesis by auto
    next
      case (Some p)
      then obtain i where p: "p = (i, g)" "i \<noteq> []" "(i, g) \<in> set gs"
        by (auto simp: find_Some_iff) (metis nth_mem)
      have gid: "group_id g = Some i"
        using d
      proof (rule do_request_cases)
        fix tok w2 r k
        assume k: "e_keycloak E (bearer_request ''GET'' (slashless cfg @ groups_path cfg g) tok) (w_kc w2) = (r, k)"
          and "y = (case r of Inl e \<Rightarrow> Inl e
            | Inr resp \<Rightarrow> read_answer ''GET'' (groups_path cfg g) (Some group_fields) [] resp)"
        with Inr obtain resp where "r = Inr resp"
          "read_answer ''GET'' (groups_path cfg g) (Some group_fields) [] resp = Inr gs"
          by (auto split: sum.splits)
        with groups_api k p show ?thesis by blast
      qed (use Inr in simp)
      from run Inr Some p have "x = Inr i" and
        w': "w' = w1\<lparr>w_held := w_held w' , w_client := (w_client w1)\<lparr>groupIDs := (groupIDs (w_client w1))(g \<mapsto> i)\<rparr>\<rparr>"
        by auto
      moreover have "calmly w1 w'"
        by (subst w', subst w') (use gid in \<open>simp add: calm_def ids_ok_def\<close>)
      ultimately show ?thesis using calm gid by (auto intro: calm_trans)
    qed
  qed
qed

lemma InGroup_contract:
  assumes "run E (InGroup cfg u g) w = (x, w')"
  shows "calmly w w'" "x = Inr b \<Longrightarrow> b \<longleftrightarrow> (identity u, g) \<in> in_grp (w_kc w)"
proof -
  obtain y w1 where u: "run E (userID cfg u) w = (y, w1)" by fastforce
  note uc = userID_calm [OF u]
  have "calmly w w' \<and> (x = Inr b \<longrightarrow> (b \<longleftrightarrow> (identity u, g) \<in> in_grp (w_kc w)))"
  proof (cases y)
    case (Inl e)
    with u uc assms show ?thesis by (auto simp: InGroup_def run_simps)
  next
    case (Inr uid)
    obtain z w2 where gr: "run E (userGroups cfg uid) w1 = (z, w2)" by fastforce
    with Inr u assms have w': "w' = w2" and
      x: "x = (case z of Inl e \<Rightarrow> Inl e | Inr gs \<Rightarrow> Inr (g \<in> set gs))"
      by (auto simp: InGroup_def run_simps)
    have id: "user_id u = Some uid" by (rule uc(2) [OF Inr])
    have "calmly w w'" using uc(1) userGroups_calm(1) [OF gr] w' by (auto intro: calm_trans)
    moreover have "b \<longleftrightarrow> (identity u, g) \<in> in_grp (w_kc w)" if "x = Inr b"
    proof -
      from that x obtain names where "z = Inr names" "b = (g \<in> set names)" by (cases z) auto
      with userGroups_calm(2) [OF gr _ id, of names g] uc(1) id show ?thesis by (simp add: identity_def)
    qed
    ultimately show ?thesis by blast
  qed
  then show "calmly w w'" "x = Inr b \<Longrightarrow> b \<longleftrightarrow> (identity u, g) \<in> in_grp (w_kc w)" by blast+
qed

text \<open>A change of membership: nothing, or one request for the right ids.\<close>

lemma change_cases:
  assumes "ids_ok (w_client w)" "run E (change_membership cfg verb u g) w = (x, w')"
  obtains e where "x = Inl e" "calmly w w'"
  | uid gid tok w1 r k where "calmly w w1" "user_id u = Some uid" "group_id g = Some gid"
      "e_keycloak E (bearer_request verb (slashless cfg @ membership_path cfg uid gid) tok) (w_kc w1) = (r, k)"
      "w' = w1\<lparr>w_kc := k\<rparr>"
      "x = Inr () \<Longrightarrow> \<exists>resp. r = Inr resp \<and> hp_code resp < 300"
proof -
  obtain y w1 where u: "run E (userID cfg u) w = (y, w1)" by fastforce
  note uc = userID_calm [OF u]
  show thesis
  proof (cases y)
    case (Inl e)
    with u uc assms that(1) show thesis by (auto simp: change_membership_def run_simps)
  next
    case (Inr uid)
    obtain z w2 where gr: "run E (groupID cfg g) w1 = (z, w2)" by fastforce
    have "ids_ok (w_client w1)" using uc(1) assms(1) by (simp add: calm_def)
    note gc = groupID_calm [OF this gr]
    have calm2: "calmly w w2" using uc(1) gc by (auto intro: calm_trans)
    show thesis
    proof (cases z)
      case (Inl e)
      with u gr \<open>y = Inr uid\<close> assms(2) have "x = Inl e" "w' = w2"
        by (auto simp: change_membership_def run_simps)
      with that(1) calm2 show thesis by blast
    next
      case gid: (Inr gid)
      with u gr Inr assms(2) have
        d: "run E (do_request cfg verb (membership_path cfg uid gid) None ()) w2 = (x, w')"
        by (simp add: change_membership_def run_simps)
      from d show thesis
      proof (rule do_request_cases)
        fix e assume "x = Inl e" "calmly w2 w'"
        with calm2 calmly_trans that(1) show thesis by blast
      next
        fix tok w3 r k
        assume c: "calmly w2 w3" and k:
          "e_keycloak E (bearer_request verb (slashless cfg @ membership_path cfg uid gid) tok) (w_kc w3) = (r, k)"
          "w' = w3\<lparr>w_kc := k\<rparr>"
          "x = (case r of Inl e \<Rightarrow> Inl e | Inr resp \<Rightarrow> read_answer verb (membership_path cfg uid gid) None () resp)"
        have "\<exists>resp. r = Inr resp \<and> hp_code resp < 300" if "x = Inr ()"
          using that k(3) by (cases r) (auto simp: read_answer_def split: if_splits)
        then show thesis
          using that(2) [OF calmly_trans [OF calm2 c] uc(2) [OF Inr] _ k(1,2)] gc gid by blast
      qed
    qed
  qed
qed

end

text \<open>The client implements the interface.\<close>

sublocale keycloak_api \<subseteq> groups_iface E "Client_groups cfg" identity in_grp ids_ok fair
proof (unfold_locales, goal_cases)
  case (1 w u g r w')
  then show ?case using InGroup_contract(1) by (simp add: Client_groups_def)
next
  case (2 w u g b w')
  then show ?case using InGroup_contract(2) by (simp add: Client_groups_def)
next
  case (3 w u g a w')
  then have "run E (change_membership cfg ''PUT'' u g) w = (a, w')"
    by (simp add: Client_groups_def AddToGroup_def)
  from 3(1) this show ?case
  proof (rule change_cases)
    fix uid gid tok w1 r k
    assume "calmly w w1" "user_id u = Some uid" "group_id g = Some gid"
      "e_keycloak E (bearer_request ''PUT'' (slashless cfg @ membership_path cfg uid gid) tok) (w_kc w1) = (r, k)"
      "w' = w1\<lparr>w_kc := k\<rparr>"
    with put_api show ?case by (fastforce simp: calm_def identity_def)
  qed auto
next
  case (4 w u g w')
  then have "run E (change_membership cfg ''PUT'' u g) w = (Inr (), w')"
    by (simp add: Client_groups_def AddToGroup_def)
  from 4(1) this show ?case
    by (rule change_cases) (use put_api in \<open>fastforce simp: identity_def\<close>)+
next
  case (5 w u g a w')
  then have "run E (change_membership cfg ''DELETE'' u g) w = (a, w')"
    by (simp add: Client_groups_def RemoveFromGroup_def)
  from 5(1) this show ?case
  proof (rule change_cases)
    fix uid gid tok w1 r k
    assume "calmly w w1" "user_id u = Some uid" "group_id g = Some gid"
      "e_keycloak E (bearer_request ''DELETE'' (slashless cfg @ membership_path cfg uid gid) tok) (w_kc w1) = (r, k)"
      "w' = w1\<lparr>w_kc := k\<rparr>"
    with delete_api show ?case by (fastforce simp: calm_def identity_def)
  qed auto
next
  case (6 w u g w')
  then have "run E (change_membership cfg ''DELETE'' u g) w = (Inr (), w')"
    by (simp add: Client_groups_def RemoveFromGroup_def)
  from 6(1) this show ?case
    by (rule change_cases) (use delete_api in \<open>fastforce simp: identity_def\<close>)+
qed

end
