(* ===== verification/JsonText.thy ===== *)
theory JsonText
  imports Json
begin

text \<open>
  What \<open>Marshal\<close> prints, \<open>Unmarshal\<close> reads back: strings in UTF-8, lists of strings,
  integers, and the members of an object one by one.
\<close>

section \<open>Strings\<close>

function utf8 :: "string \<Rightarrow> bool" where
  "utf8 s =
     (if s = [] then True
      else if rune_width s = 0 then False
      else utf8 (drop (rune_width s) s))"
  by pat_completeness auto
termination
  by (relation "measure length") auto

declare utf8.simps [simp del]

lemma utf8_Nil [simp]: "utf8 []"
  by (simp add: utf8.simps)

lemma hex_value_digit [simp]: "n < 16 \<Longrightarrow> hex_value (hex_digit n) = Some n"
proof -
  assume n: "n < 16"
  then have "byte (hex_digit n) = (if n < 10 then 48 + n else 87 + n)" by (simp add: hex_digit_def)
  with n show ?thesis by (simp add: hex_value_def split: if_splits)
qed

lemma rune_width_ascii: "byte c < 0x80 \<Longrightarrow> rune_width (c # s) = 1"
  by (simp add: rune_width_def)

lemma rune_width_le: "rune_width s \<le> length s"
  by (auto simp: rune_width_def split: list.split)

lemma rune_width_multi: "\<not> byte c < 0x80 \<Longrightarrow> rune_width (c # s) \<in> {0, 2, 3, 4}"
  by (auto simp: rune_width_def split: list.split)

lemma rune_width_take:
  assumes "rune_width s \<noteq> 0"
  shows "rune_width (take (rune_width s) s @ t) = rune_width s"
proof -
  consider "s = []" | a where "s = [a]" | a b where "s = [a, b]" | a b c where "s = [a, b, c]"
    | a b c d s' where "s = a # b # c # d # s'"
    by (metis neq_Nil_conv)
  then show ?thesis
    by cases (use assms in \<open>auto simp: rune_width_def split: if_splits list.split\<close>)
qed

lemma byte_eq: "byte c = byte d \<longleftrightarrow> c = d"
  by simp

lemma control_chars:
  "byte c = 8 \<Longrightarrow> c = CHR 0x08" "byte c = 9 \<Longrightarrow> c = CHR 0x09" "byte c = 10 \<Longrightarrow> c = CHR 0x0A"
  "byte c = 12 \<Longrightarrow> c = CHR 0x0C" "byte c = 13 \<Longrightarrow> c = CHR 0x0D"
  "byte c = 34 \<Longrightarrow> c = quote" "byte c = 92 \<Longrightarrow> c = backslash"
proof -
  have "byte (CHR 0x08) = (8 :: nat)" "byte (CHR 0x09) = (9 :: nat)" "byte (CHR 0x0A) = (10 :: nat)"
    "byte (CHR 0x0C) = (12 :: nat)" "byte (CHR 0x0D) = (13 :: nat)" "byte quote = 34" "byte backslash = 92"
    by (simp_all add: quote_def backslash_def)
  then show
    "byte c = 8 \<Longrightarrow> c = CHR 0x08" "byte c = 9 \<Longrightarrow> c = CHR 0x09" "byte c = 10 \<Longrightarrow> c = CHR 0x0A"
    "byte c = 12 \<Longrightarrow> c = CHR 0x0C" "byte c = 13 \<Longrightarrow> c = CHR 0x0D"
    "byte c = 34 \<Longrightarrow> c = quote" "byte c = 92 \<Longrightarrow> c = backslash"
    by (metis byte_eq)+
qed

lemma parse_string_quote [simp]: "parse_string (quote # r) = Some ([], r)"
  by (subst parse_string.simps) (simp add: quote_def)

lemma parse_string_escape:
  "parse_escape (e @ r) = Some (t, r) \<Longrightarrow>
   parse_string (backslash # e @ r) = map_option (apfst (append t)) (parse_string r)"
  by (subst parse_string.simps) (simp add: backslash_def)

lemma parse_string_plain:
  "byte c < 0x80 \<Longrightarrow> 32 \<le> byte c \<Longrightarrow> byte c \<noteq> 34 \<Longrightarrow> byte c \<noteq> 92 \<Longrightarrow>
   parse_string (c # r) = map_option (apfst (Cons c)) (parse_string r)"
  by (subst parse_string.simps) (cases "parse_string r"; auto simp: rune_width_ascii)

lemma parse_string_multi:
  assumes "rune_width s \<noteq> 0" "\<not> byte (hd s) < 0x80"
  shows "parse_string (take (rune_width s) s @ r) =
    map_option (apfst (append (take (rune_width s) s))) (parse_string r)"
proof -
  let ?w = "rune_width s"
  obtain c s' where s: "s = c # s'" using assms(1) by (cases s) (auto simp: rune_width_def)
  have len: "length (take ?w s) = ?w" using rune_width_le [of s] by simp
  have w: "rune_width (take ?w s @ r) = ?w" by (rule rune_width_take [OF assms(1)])
  obtain u where u: "take ?w s = c # u" using assms(1) s by (cases ?w) auto
  have c: "\<not> byte c < 0x80" using assms(2) s by simp
  have "parse_string (c # u @ r) =
      map_option (apfst (append (take ?w (c # u @ r)))) (parse_string (drop ?w (c # u @ r)))"
    using c w u assms(1) by (subst parse_string.simps) simp
  moreover have "take ?w (c # u @ r) = take ?w s" "drop ?w (c # u @ r) = r"
    using len u by (metis append_Cons append_eq_conv_conj)+
  ultimately show ?thesis using u by simp
qed

lemma print_control:
  "print_ascii (CHR 0x08) = [backslash, CHR ''b'']" "print_ascii (CHR 0x09) = [backslash, CHR ''t'']"
  "print_ascii (CHR 0x0A) = [backslash, CHR ''n'']" "print_ascii (CHR 0x0C) = [backslash, CHR ''f'']"
  "print_ascii (CHR 0x0D) = [backslash, CHR ''r'']"
  by (simp_all add: print_ascii_def quote_def backslash_def)

lemma parse_print_ascii:
  assumes "byte c < 0x80"
  shows "parse_string (print_ascii c @ r) = map_option (apfst (Cons c)) (parse_string r)"
proof -
  have app: "append [c] = Cons c" by auto
  consider (quoted) "c = quote \<or> c = backslash" | (named) "byte c \<in> {8, 9, 10, 12, 13}"
    | (hex) "\<not> (c = quote \<or> c = backslash)" "byte c \<notin> {8, 9, 10, 12, 13}"
        "byte c < 32 \<or> c = CHR ''<'' \<or> c = CHR ''>'' \<or> c = CHR ''&''"
    | (plain) "\<not> (c = quote \<or> c = backslash)" "byte c \<notin> {8, 9, 10, 12, 13}"
        "\<not> (byte c < 32 \<or> c = CHR ''<'' \<or> c = CHR ''>'' \<or> c = CHR ''&'')"
    by blast
  then show ?thesis
  proof cases
    case quoted
    have "escape_char quote = Some quote" "escape_char backslash = Some backslash"
      "quote \<noteq> CHR ''u''" "backslash \<noteq> CHR ''u''"
      by (simp_all add: escape_char_def quote_def backslash_def)
    with quoted have "escape_char c = Some c" "c \<noteq> CHR ''u''" by metis+
    then have "parse_escape ([c] @ r) = Some ([c], r)" by (simp add: parse_escape_def)
    from parse_string_escape [OF this] app
    have "parse_string (backslash # c # r) = map_option (apfst (Cons c)) (parse_string r)" by simp
    moreover have "print_ascii c = [backslash, c]" using quoted by (simp add: print_ascii_def)
    ultimately show ?thesis by simp
  next
    case named
    have esc: "parse_string ([backslash, e] @ r) = map_option (apfst (Cons d)) (parse_string r)"
      if "escape_char e = Some d" "e \<noteq> CHR ''u''" for d e
    proof -
      have "append [d] = Cons d" by auto
      with parse_string_escape [of "[e]" r "[d]"] that show ?thesis by (simp add: parse_escape_def)
    qed
    from named consider "c = CHR 0x08" | "c = CHR 0x09" | "c = CHR 0x0A" | "c = CHR 0x0C" | "c = CHR 0x0D"
      using control_chars [of c] by blast
    then show ?thesis
      by cases (simp_all add: print_control esc [simplified] escape_char_def)
  next
    case hex
    have "byte c div 16 < 16" using assms by auto
    then have "parse_escape ([CHR ''u'', CHR ''0'', CHR ''0'', hex_digit (byte c div 16), hex_digit (byte c mod 16)] @ r) =
        Some ([c], r)"
      using assms by (auto simp: parse_escape_def hex4_def hex_value_def [of "CHR ''0''"] encode_rune_def)
    from parse_string_escape [OF this] app
    have "parse_string (backslash # CHR ''u'' # CHR ''0'' # CHR ''0'' # hex_digit (byte c div 16) #
        hex_digit (byte c mod 16) # r) = map_option (apfst (Cons c)) (parse_string r)" by simp
    moreover have "print_ascii c = [backslash, CHR ''u'', CHR ''0'', CHR ''0'', hex_digit (byte c div 16),
        hex_digit (byte c mod 16)]"
      using hex by (simp add: print_ascii_def)
    ultimately show ?thesis by simp
  next
    case plain
    then have "byte c \<noteq> 34" "byte c \<noteq> 92"
      using control_chars(6,7) by blast+
    with plain assms show ?thesis by (simp add: print_ascii_def parse_string_plain)
  qed
qed

lemma print_chars_Cons:
  "print_chars (c # r) =
     (if byte c < 0x80 then print_ascii c @ print_chars r
      else if rune_width (c # r) = 0 then [backslash] @ ''ufffd'' @ print_chars r
      else if take 3 (c # r) = [CHR 0xE2, CHR 0x80, CHR 0xA8] then
        [backslash] @ ''u2028'' @ print_chars (drop 3 (c # r))
      else if take 3 (c # r) = [CHR 0xE2, CHR 0x80, CHR 0xA9] then
        [backslash] @ ''u2029'' @ print_chars (drop 3 (c # r))
      else take (rune_width (c # r)) (c # r) @ print_chars (drop (rune_width (c # r)) (c # r)))"
  by (subst print_chars.simps) (simp only: list.case)

lemma parse_print_chars: "utf8 s \<Longrightarrow> parse_string (print_chars s @ quote # r) = Some (s, r)"
proof (induction s rule: print_chars.induct)
  case (1 s)
  show ?case
  proof (cases s)
    case Nil
    then show ?thesis by (simp add: print_chars.simps)
  next
    case (Cons c s')
    let ?w = "rune_width s"
    have "if s = [] then True else if ?w = 0 then False else utf8 (drop ?w s)"
      using "1.prems" by (subst (asm) utf8.simps)
    then have w: "?w \<noteq> 0" "utf8 (drop ?w s)" using Cons by (auto split: if_splits)
    show ?thesis
    proof (cases "byte c < 0x80")
      case True
      then have "utf8 s'" using w(2) Cons by (simp add: rune_width_ascii)
      with 1(1) [OF Cons True] have "parse_string (print_chars s' @ quote # r) = Some (s', r)" .
      with True Cons show ?thesis
        by (subst print_chars.simps) (simp add: parse_print_ascii)
    next
      case False
      have sep: "parse_string ([backslash] @ ''u202'' @ [x] @ t) =
          map_option (apfst (append [CHR 0xE2, CHR 0x80, y])) (parse_string t)"
        if "(x, y) \<in> {(CHR ''8'', CHR 0xA8), (CHR ''9'', CHR 0xA9)}" for x y t
      proof -
        have "char_of (226 :: nat) = CHR 0xE2" "char_of (128 :: nat) = CHR 0x80"
          "char_of (168 :: nat) = CHR 0xA8" "char_of (169 :: nat) = CHR 0xA9"
          by code_simp+
        with that parse_string_escape [of "''u202'' @ [x]" t "[CHR 0xE2, CHR 0x80, y]"] show ?thesis
          by (auto simp: parse_escape_def hex4_def hex_value_def encode_rune_def)
      qed
      show ?thesis
      proof (cases "take 3 s = [CHR 0xE2, CHR 0x80, CHR 0xA8] \<or> take 3 s = [CHR 0xE2, CHR 0x80, CHR 0xA9]")
        case special: True
        then obtain y where y: "take 3 s = [CHR 0xE2, CHR 0x80, y]" "y = CHR 0xA8 \<or> y = CHR 0xA9" by auto
        then have s: "s = [CHR 0xE2, CHR 0x80, y] @ drop 3 s" by (metis append_take_drop_id)
        have "?w = 3" by (subst s) (use y(2) in \<open>auto simp: rune_width_def cont_def\<close>)
        with w have "utf8 (drop 3 s)" by simp
        with 1 Cons False w special
        have ih: "parse_string (print_chars (drop 3 s) @ quote # r) = Some (drop 3 s, r)" by blast
        let ?x = "if y = CHR 0xA8 then CHR ''8'' else CHR ''9''"
        have pc: "print_chars s = [backslash] @ ''u202'' @ [?x] @ print_chars (drop 3 s)"
          using y Cons False w(1) by (subst print_chars.simps) auto
        have esc: "parse_string ([backslash] @ ''u202'' @ [?x] @ t) =
            map_option (apfst ((@) [CHR 0xE2, CHR 0x80, y])) (parse_string t)" for t
          by (rule sep) (use y(2) in auto)
        have "parse_string (print_chars s @ quote # r) =
            parse_string ([backslash] @ ''u202'' @ [?x] @ (print_chars (drop 3 s) @ quote # r))"
          by (simp only: pc append_assoc)
        also have "\<dots> = Some ([CHR 0xE2, CHR 0x80, y] @ drop 3 s, r)"
          by (simp only: esc ih option.map apfst_conv)
        also have "[CHR 0xE2, CHR 0x80, y] @ drop 3 s = s" by (rule s [symmetric])
        finally show ?thesis .
      next
        case general: False
        have ih: "parse_string (print_chars (drop ?w s) @ quote # r) = Some (drop ?w s, r)"
          by (rule "1.IH"(5) [OF Cons False]) (use w general in blast)+
        have pc: "print_chars s = take ?w s @ print_chars (drop ?w s)"
          using general False w(1) unfolding Cons
          by (simp only: print_chars_Cons if_False de_Morgan_disj not_False_eq_True simp_thms)
        have hd: "\<not> byte (hd s) < 0x80" using Cons False by simp
        have "parse_string (print_chars s @ quote # r) =
            parse_string (take ?w s @ (print_chars (drop ?w s) @ quote # r))"
          by (simp only: pc append_assoc)
        also have "\<dots> = Some (take ?w s @ drop ?w s, r)"
          by (simp only: parse_string_multi [OF w(1) hd] ih option.map apfst_conv)
        finally show ?thesis by (simp only: append_take_drop_id)
      qed
    qed
  qed
qed

section \<open>Values\<close>

lemma skip_ws_id: "\<not> is_ws c \<Longrightarrow> skip_ws (c # s) = c # s"
  by (simp add: skip_ws_def)

lemma not_ws [simp]:
  "\<not> is_ws quote" "\<not> is_ws (CHR '','')" "\<not> is_ws (CHR '':'')" "\<not> is_ws (CHR ''}'')"
  "\<not> is_ws (CHR '']'')" "\<not> is_ws (CHR ''{'')" "\<not> is_ws (CHR ''['')" "\<not> is_ws (CHR ''n'')"
  by (simp_all add: is_ws_def quote_def)

lemma parse_value_string:
  "utf8 s \<Longrightarrow> parse_value (Suc n) d (print_string s @ r) = Some (JStr s, r)"
  by (simp add: print_string_def skip_ws_id parse_print_chars) (simp add: quote_def)

lemma parse_value_null: "parse_value (Suc n) d (''null'' @ r) = Some (JNull, r)"
  by (simp add: skip_ws_id parse_word_def)

text \<open>The members of an object: the next one, followed by a comma or by the end.\<close>

lemma parse_members_next:
  assumes "utf8 k" "parse_value n d t = Some (v, '','' @ u)"
  shows "parse_members (Suc n) d (print_string k @ '':'' @ t) = map_option (apfst (Cons (k, v))) (parse_members n d u)"
  using assms by (simp add: print_string_def skip_ws_id parse_print_chars) (simp add: quote_def)

lemma parse_members_last:
  assumes "utf8 k" "parse_value n d t = Some (v, ''}'' @ u)"
  shows "parse_members (Suc n) d (print_string k @ '':'' @ t) = Some ([(k, v)], u)"
  using assms by (simp add: print_string_def skip_ws_id parse_print_chars) (simp add: quote_def)

definition print_strings :: "string list option \<Rightarrow> string" where
  "print_strings ss = (case ss of None \<Rightarrow> ''null'' | Some xs \<Rightarrow> ''['' @ print_list (map print_string xs) @ '']'')"

fun json_strings :: "string list option \<Rightarrow> json" where
  "json_strings None = JNull"
| "json_strings (Some ss) = JArr (map JStr ss)"

lemma as_strings_json [simp]: "as_strings (json_strings ss) z = Some ss"
proof -
  have "all_some (map (\<lambda>v. as_string v []) (map JStr xs)) = Some xs" for xs
    by (induction xs) auto
  then show ?thesis by (cases ss) (simp_all add: comp_def)
qed

section \<open>Numbers\<close>

lemma dec_is_digit: "c \<in> set (dec n) \<Longrightarrow> is_digit c"
  by (induction n rule: dec.induct) (subst (asm) dec.simps, auto split: if_splits)

lemma dec_head: "\<exists>c ds. dec n = c # ds \<and> is_digit c \<and> (c = CHR ''0'' \<longrightarrow> ds = [])"
proof (induction n rule: dec.induct)
  case (1 n)
  show ?case
  proof (cases "n < 10")
    case True
    then show ?thesis by (subst dec.simps) simp
  next
    case False
    then obtain c ds where d: "dec (n div 10) = c # ds" "is_digit c" "c = CHR ''0'' \<longrightarrow> ds = []"
      using 1 by blast
    have "c \<noteq> CHR ''0''"
    proof
      assume "c = CHR ''0''"
      with d have "dec (n div 10) = ''0''" by simp
      then have "read_digits (dec (n div 10)) = read_digits ''0''" by simp
      then have "n div 10 = 0" by (simp add: read_digits_dec) (simp add: read_digits_def digit_value_def)
      with False show False by simp
    qed
    with d False show ?thesis by (subst dec.simps) simp
  qed
qed

lemma parse_int64_dec_int: "- (2 ^ 63) \<le> i \<Longrightarrow> i < 2 ^ 63 \<Longrightarrow> parse_int64 (dec_int i) = Some i"
proof -
  assume r: "- (2 ^ 63) \<le> i" "i < 2 ^ 63"
  obtain a ds where d: "dec (nat i) = a # ds" "is_digit a" using dec_head by blast
  then have "a \<noteq> CHR ''-''" by (auto simp: is_digit_def)
  have all: "list_all is_digit (dec n)" "dec n \<noteq> []" for n
    using dec_is_digit dec_head [of n] by (auto simp: list_all_iff)
  show ?thesis
  proof (cases "i < 0")
    case True
    with r all show ?thesis by (simp add: parse_int64_def dec_int_def read_digits_dec)
  next
    case False
    with r d \<open>a \<noteq> CHR ''-''\<close> all [of "nat i"] read_digits_dec [of "nat i"] show ?thesis
      by (simp add: parse_int64_def dec_int_def)
  qed
qed

end
