(* ===== verification/JsonRound.thy ===== *)
theory JsonRound
  imports JsonText
begin

text \<open>
  A printer for whole JSON values and its round trip through \<open>parse_all\<close>: what the parser of
  \<open>Json\<close> makes of any value printed the way \<open>encoding/json\<close> prints it, and that its fuel is
  enough for every text of this kind.
\<close>

section \<open>Printing values\<close>

fun print_json :: "json \<Rightarrow> string"
  and print_elems :: "json list \<Rightarrow> string"
  and print_members :: "(string \<times> json) list \<Rightarrow> string"
where
  "print_json JNull = ''null''"
| "print_json (JBool b) = (if b then ''true'' else ''false'')"
| "print_json (JNum s) = s"
| "print_json (JStr s) = print_string s"
| "print_json (JArr vs) = ''['' @ print_elems vs @ '']''"
| "print_json (JObj ms) = ''{'' @ print_members ms @ ''}''"
| "print_elems [] = []"
| "print_elems [v] = print_json v"
| "print_elems (v # w # vs) = print_json v @ '','' @ print_elems (w # vs)"
| "print_members [] = []"
| "print_members [(k, v)] = print_string k @ '':'' @ print_json v"
| "print_members ((k, v) # m # ms) = print_string k @ '':'' @ print_json v @ '','' @ print_members (m # ms)"

text \<open>Values that can be printed: texts are UTF-8, numbers are integers; and how deep they nest.\<close>

fun printable :: "json \<Rightarrow> bool" and printable_elems :: "json list \<Rightarrow> bool"
  and printable_members :: "(string \<times> json) list \<Rightarrow> bool"
where
  "printable JNull = True"
| "printable (JBool b) = True"
| "printable (JNum s) = (\<exists>i. s = dec_int i)"
| "printable (JStr s) = utf8 s"
| "printable (JArr vs) = printable_elems vs"
| "printable (JObj ms) = printable_members ms"
| "printable_elems [] = True"
| "printable_elems (v # vs) = (printable v \<and> printable_elems vs)"
| "printable_members [] = True"
| "printable_members ((k, v) # ms) = (utf8 k \<and> printable v \<and> printable_members ms)"

fun depth :: "json \<Rightarrow> nat" and depth_elems :: "json list \<Rightarrow> nat" and depth_members :: "(string \<times> json) list \<Rightarrow> nat"
where
  "depth JNull = 0" | "depth (JBool b) = 0" | "depth (JNum s) = 0" | "depth (JStr s) = 0"
| "depth (JArr vs) = Suc (depth_elems vs)"
| "depth (JObj ms) = Suc (depth_members ms)"
| "depth_elems [] = 0"
| "depth_elems (v # vs) = max (depth v) (depth_elems vs)"
| "depth_members [] = 0"
| "depth_members ((k, v) # ms) = max (depth v) (depth_members ms)"

text \<open>The fuel a value takes.\<close>

fun cost :: "json \<Rightarrow> nat" and cost_elems :: "json list \<Rightarrow> nat" and cost_members :: "(string \<times> json) list \<Rightarrow> nat"
where
  "cost JNull = 1" | "cost (JBool b) = 1" | "cost (JNum s) = 1" | "cost (JStr s) = 1"
| "cost (JArr vs) = Suc (cost_elems vs)"
| "cost (JObj ms) = Suc (cost_members ms)"
| "cost_elems [] = 0"
| "cost_elems (v # vs) = Suc (max (cost v) (cost_elems vs))"
| "cost_members [] = 0"
| "cost_members ((k, v) # ms) = Suc (max (cost v) (cost_members ms))"

lemma dec_int_head: "\<exists>a ds. dec_int i = a # ds \<and> (is_digit a \<or> a = CHR ''-'')"
  using dec_head [of "nat i"] by (cases "i < 0") (auto simp: dec_int_def)

lemma cost_printed:
  "printable v \<Longrightarrow> cost v \<le> 2 * length (print_json v)"
  "printable_elems vs \<Longrightarrow> cost_elems vs \<le> 2 * length (print_elems vs) + 1"
  "printable_members ms \<Longrightarrow> cost_members ms \<le> 2 * length (print_members ms) + 1"
proof (induction v and vs and ms rule: print_json_print_elems_print_members.induct)
  case (3 s)
  then obtain i where "s = dec_int i" by auto
  with dec_int_head [of i] show ?case by auto
qed (auto simp: print_string_def)

section \<open>Parsing what was printed\<close>

definition value_end :: "string \<Rightarrow> bool" where
  "value_end r \<longleftrightarrow> r = [] \<or> hd r \<in> {CHR ''}'', CHR '']'', CHR '',''}"

lemma value_end_simps [simp]: "value_end []" "value_end (CHR ''}'' # r)" "value_end (CHR '']'' # r)" "value_end (CHR '','' # r)"
  by (simp_all add: value_end_def)

lemma parse_number_printed:
  assumes "value_end r"
  shows "parse_number (dec_int i @ r) = Some (dec_int i, r)"
proof -
  have r: "r = [] \<or> (\<exists>c s. r = c # s \<and> \<not> is_digit c \<and> c \<noteq> CHR ''.'' \<and> c \<noteq> CHR ''e'' \<and> c \<noteq> CHR ''E'')"
    using assms by (cases r) (auto simp: value_end_def is_digit_def)
  have nat: "parse_int_part (dec n @ r) = Some (dec n, r)" for n
  proof -
    obtain a ds where d: "dec n = a # ds" "is_digit a" "a = CHR ''0'' \<longrightarrow> ds = []"
      using dec_head by blast
    have "\<forall>x \<in> set ds. is_digit x" using dec_is_digit [of _ n] d(1) by simp
    then have "takeWhile is_digit (ds @ r) = ds" "dropWhile is_digit (ds @ r) = r"
      using r by (auto simp: takeWhile_tail dropWhile_append2)
    with d show ?thesis by (auto simp: parse_int_part_def)
  qed
  have rest: "parse_frac_part r = Some ([], r)" "parse_exp_part r = Some ([], r)"
    using r by (auto simp: parse_frac_part_def parse_exp_part_def)
  show ?thesis
  proof (cases "i < 0")
    case True
    then show ?thesis by (simp add: parse_number_def dec_int_def nat rest)
  next
    case False
    obtain a ds where a: "dec (nat i) = a # ds" "is_digit a" using dec_head by blast
    then have "a \<noteq> CHR ''-''" by (auto simp: is_digit_def)
    with a have "parse_number (dec_int i @ r) = (case parse_int_part (dec (nat i) @ r) of None \<Rightarrow> None
         | Some (i, s2) \<Rightarrow> (case parse_frac_part s2 of None \<Rightarrow> None
              | Some (f, s3) \<Rightarrow> (case parse_exp_part s3 of None \<Rightarrow> None
                   | Some (e, s4) \<Rightarrow> Some ([] @ i @ f @ e, s4))))"
      using False by (simp add: parse_number_def dec_int_def)
    with False show ?thesis by (simp add: nat rest dec_int_def)
  qed
qed

lemma print_elems_head:
  assumes "printable v"
  shows "\<exists>c s. print_elems (v # vs) = c # s \<and> c \<noteq> CHR '']'' \<and> \<not> is_ws c"
proof -
  have "\<exists>c s. print_json v = c # s \<and> c \<noteq> CHR '']'' \<and> \<not> is_ws c"
  proof (cases v)
    case (JNum s)
    then obtain i where "s = dec_int i" using assms by auto
    with JNum dec_int_head [of i] show ?thesis by (auto simp: is_ws_def is_digit_def)
  qed (auto simp: print_string_def quote_def is_ws_def)
  then show ?thesis by (cases vs) auto
qed

lemma parse_printed:
  "printable v \<Longrightarrow> cost v \<le> n \<Longrightarrow> depth v \<le> d \<Longrightarrow> value_end r \<Longrightarrow> parse_value n d (print_json v @ r) = Some (v, r)"
  "printable_elems vs \<Longrightarrow> vs \<noteq> [] \<Longrightarrow> cost_elems vs \<le> n \<Longrightarrow> depth_elems vs \<le> d \<Longrightarrow>
     parse_elems n d (print_elems vs @ CHR '']'' # r) = Some (vs, r)"
  "printable_members ms \<Longrightarrow> ms \<noteq> [] \<Longrightarrow> cost_members ms \<le> n \<Longrightarrow> depth_members ms \<le> d \<Longrightarrow>
     parse_members n d (print_members ms @ CHR ''}'' # r) = Some (ms, r)"
proof (induction v and vs and ms arbitrary: n d r and n d r and n d r
    rule: print_json_print_elems_print_members.induct)
  case 1
  then show ?case by (cases n) (simp_all add: parse_value_null [simplified])
next
  case (2 b)
  then show ?case by (cases n) (auto simp: skip_ws_id is_ws_def parse_word_def is_prefix_iff)
next
  case (3 s)
  then obtain i m where s: "s = dec_int i" and n: "n = Suc m" by (cases n) auto
  obtain a ds where d: "dec_int i = a # ds" "is_digit a \<or> a = CHR ''-''" using dec_int_head by blast
  then have a: "\<not> is_ws a" "a \<noteq> CHR ''{''" "a \<noteq> CHR ''[''" "byte a \<noteq> 34" "a \<noteq> CHR ''t''"
    "a \<noteq> CHR ''f''" "a \<noteq> CHR ''n''" by (auto simp: is_ws_def is_digit_def)
  have "parse_value (Suc m) d (a # ds @ r) = map_option (apfst JNum) (parse_number (a # ds @ r))"
    using a by (simp add: skip_ws_id)
  with d(1) s n parse_number_printed [OF 3(4), of i] show ?case by simp
next
  case (4 s)
  then obtain m where "n = Suc m" by (cases n) auto
  with 4 show ?case by (simp only: print_json.simps printable.simps parse_value_string)
next
  case (5 vs)
  then obtain m e where n: "n = Suc m" "d = Suc e" by (cases n; cases d) auto
  show ?case
  proof (cases vs)
    case Nil
    with n show ?thesis by (simp add: skip_ws_id)
  next
    case (Cons v ws)
    then obtain c s where c: "print_elems vs = c # s" "c \<noteq> CHR '']''" "\<not> is_ws c"
      using print_elems_head [of v ws] 5(2) by auto
    have "parse_elems m e (print_elems vs @ CHR '']'' # r) = Some (vs, r)"
      by (rule 5(1)) (use 5 Cons n in auto)
    with c n show ?thesis by (simp add: skip_ws_id)
  qed
next
  case (6 ms)
  then obtain m e where n: "n = Suc m" "d = Suc e" by (cases n; cases d) auto
  show ?case
  proof (cases ms)
    case Nil
    with n show ?thesis by (simp add: skip_ws_id)
  next
    case (Cons p qs)
    obtain s where c: "print_members ms = quote # s"
      unfolding Cons by (cases p; cases qs) (auto simp: print_string_def)
    have "parse_members m e (print_members ms @ CHR ''}'' # r) = Some (ms, r)"
      by (rule 6(1)) (use 6 Cons n in auto)
    with c n show ?thesis by (simp add: skip_ws_id) (simp add: quote_def)
  qed
next
  case 7
  then show ?case by simp
next
  case (8 v)
  then obtain m where n: "n = Suc m" by (cases n) auto
  have "parse_value m d (print_json v @ CHR '']'' # r) = Some (v, CHR '']'' # r)"
    by (rule 8(1)) (use 8 n in auto)
  with n show ?case by (simp add: skip_ws_id)
next
  case (9 v w vs)
  then obtain m where n: "n = Suc m" by (cases n) auto
  have "parse_value m d (print_json v @ CHR '','' # print_elems (w # vs) @ CHR '']'' # r) =
      Some (v, CHR '','' # print_elems (w # vs) @ CHR '']'' # r)"
    by (rule 9(1)) (use 9(3-) n in auto)
  moreover have "parse_elems m d (print_elems (w # vs) @ CHR '']'' # r) = Some (w # vs, r)"
    by (rule 9(2)) (use 9(3-) n in auto)
  ultimately show ?case using n by (simp add: skip_ws_id)
next
  case 10
  then show ?case by simp
next
  case (11 k v)
  then obtain m where n: "n = Suc m" by (cases n) auto
  have "parse_value m d (print_json v @ CHR ''}'' # r) = Some (v, ''}'' @ r)"
    using 11(1) [of m d "CHR ''}'' # r"] 11(2-) n by simp
  from parse_members_last [OF _ this, of k] 11(2) n show ?case by simp
next
  case (12 k v q ms)
  then obtain m where n: "n = Suc m" by (cases n) auto
  have "parse_value m d (print_json v @ '','' @ print_members (q # ms) @ CHR ''}'' # r) =
      Some (v, '','' @ print_members (q # ms) @ CHR ''}'' # r)"
    using 12(1) [of m d "CHR '','' # print_members (q # ms) @ CHR ''}'' # r"] 12(3-) n by simp
  moreover have "parse_members m d (print_members (q # ms) @ CHR ''}'' # r) = Some (q # ms, r)"
    by (rule 12(2)) (use 12(3-) n in auto)
  ultimately show ?case using parse_members_next [of k m d _ v "print_members (q # ms) @ CHR ''}'' # r"] 12(3) n by simp
qed

lemma parse_print_json:
  assumes "printable v" "depth v \<le> max_depth"
  shows "parse_all (print_json v) = Inr v"
proof -
  have "cost v \<le> fuel_for (print_json v)"
    using cost_printed(1) [OF assms(1)] by (simp add: fuel_for_def)
  from parse_printed(1) [OF assms(1) this assms(2), of "[]"]
  show ?thesis by (simp add: parse_all_def skip_ws_def)
qed

lemma parse_first_print_json:
  assumes "printable v" "depth v \<le> max_depth"
  shows "parse_first (print_json v) = Inr v"
proof -
  obtain c s where c: "print_json v = c # s" "\<not> is_ws c"
    using print_elems_head [OF assms(1), of "[]"] by auto
  have "cost v \<le> fuel_for (print_json v)"
    using cost_printed(1) [OF assms(1)] by (simp add: fuel_for_def)
  from parse_printed(1) [OF assms(1) this assms(2), of "[]"] c
  show ?thesis by (simp add: parse_first_def skip_ws_id)
qed

text \<open>Slices of strings.\<close>

lemma print_elems_strings: "print_elems (map JStr xs) = print_list (map print_string xs)"
proof (induction xs)
  case (Cons x xs)
  then show ?case by (cases xs) simp_all
qed simp

lemma print_json_strings: "print_json (json_strings ss) = print_strings ss"
  by (cases ss) (simp_all add: print_strings_def print_elems_strings)

lemma printable_strings: "printable_elems (map JStr xs) \<longleftrightarrow> list_all utf8 xs"
  by (induction xs) simp_all

lemma depth_strings: "depth_elems (map JStr xs) = 0"
  by (induction xs) simp_all

end
