(* ===== verification/GoCrypto.thy ===== *)
theory GoCrypto
  imports GoText "HOL-Library.Word"
begin

text \<open>
  \<open>crypto/sha256\<close>, \<open>crypto/hmac\<close>, \<open>encoding/hex\<close> and \<open>encoding/base64\<close>
  (\<open>RawURLEncoding\<close>), on byte strings.  The hash works on 32-bit words whose addition wraps.
  The decoder of base64 skips line breaks and does not look at the unused bits of the last
  character, as the package does.
\<close>

unbundle bit_operations_syntax

section \<open>SHA-256\<close>

type_synonym w32 = "32 word"

text \<open>A row of eight words, written as one number, most significant word first.\<close>

definition eight_words :: "nat \<Rightarrow> w32 list" where
  "eight_words n = map (\<lambda>i. of_nat (n div 2 ^ (32 * (7 - i)))) [0..<8]"

definition sha_k :: "w32 list" where
  "sha_k = concat (map eight_words
    [0x428a2f9871374491b5c0fbcfe9b5dba53956c25b59f111f1923f82a4ab1c5ed5,
     0xd807aa9812835b01243185be550c7dc372be5d7480deb1fe9bdc06a7c19bf174,
     0xe49b69c1efbe47860fc19dc6240ca1cc2de92c6f4a7484aa5cb0a9dc76f988da,
     0x983e5152a831c66db00327c8bf597fc7c6e00bf3d5a7914706ca635114292967,
     0x27b70a852e1b21384d2c6dfc53380d13650a7354766a0abb81c2c92e92722c85,
     0xa2bfe8a1a81a664bc24b8b70c76c51a3d192e819d6990624f40e3585106aa070,
     0x19a4c1161e376c082748774c34b0bcb5391c0cb34ed8aa4a5b9cca4f682e6ff3,
     0x748f82ee78a5636f84c878148cc7020890befffaa4506cebbef9a3f7c67178f2])"

definition sha_init :: "w32 list" where
  "sha_init = eight_words
    0x6a09e667bb67ae853c6ef372a54ff53a510e527f9b05688c1f83d9ab5be0cd19"

definition rotr :: "nat \<Rightarrow> w32 \<Rightarrow> w32" where
  "rotr n x = drop_bit n x OR push_bit (32 - n) x"

text \<open>The message schedule, latest word first: 48 words after the 16 of the block.\<close>

primrec sha_extend :: "nat \<Rightarrow> w32 list \<Rightarrow> w32 list" where
  "sha_extend 0 ws = ws"
| "sha_extend (Suc n) ws =
     (let a = ws ! 1; b = ws ! 14 in
      sha_extend n
        (((rotr 17 a XOR rotr 19 a XOR drop_bit 10 a) + ws ! 6 +
          (rotr 7 b XOR rotr 18 b XOR drop_bit 3 b) + ws ! 15) # ws))"

fun sha_round :: "w32 list \<Rightarrow> w32 \<times> w32 \<Rightarrow> w32 list" where
  "sha_round [a, b, c, d, e, f, g, h] (k, w) =
     (let t1 = h + (rotr 6 e XOR rotr 11 e XOR rotr 25 e) + ((e AND f) XOR (NOT e AND g)) + k + w;
          t2 = (rotr 2 a XOR rotr 13 a XOR rotr 22 a) + ((a AND b) XOR (a AND c) XOR (b AND c))
      in [t1 + t2, a, b, c, d + t1, e, f, g])"
| "sha_round st _ = st"

definition sha_block :: "w32 list \<Rightarrow> w32 list \<Rightarrow> w32 list" where
  "sha_block st block =
     map2 (+) st (foldl sha_round st (zip sha_k (rev (sha_extend 48 (rev block)))))"

text \<open>Four bytes, most significant first.\<close>

fun words_of :: "string \<Rightarrow> w32 list" where
  "words_of (a # b # c # d # s) =
     word_of_nat (((byte a * 256 + byte b) * 256 + byte c) * 256 + byte d) # words_of s"
| "words_of _ = []"

definition bytes_of :: "w32 \<Rightarrow> string" where
  "bytes_of w =
     (let n = unat w in
      [char_of (n div 16777216), char_of (n div 65536 mod 256), char_of (n div 256 mod 256),
       char_of (n mod 256)])"

primrec be_bytes :: "nat \<Rightarrow> nat \<Rightarrow> string" where
  "be_bytes 0 n = []"
| "be_bytes (Suc k) n = be_bytes k (n div 256) @ [char_of (n mod 256)]"

definition sha_pad :: "string \<Rightarrow> string" where
  "sha_pad s =
     s @ [CHR 0x80] @ replicate ((119 - length s mod 64) mod 64) (CHR 0x00) @ be_bytes 8 (8 * length s)"

fun sha_blocks :: "w32 list \<Rightarrow> w32 list \<Rightarrow> w32 list" where
  "sha_blocks st ws =
     (if length ws < 16 then st else sha_blocks (sha_block st (take 16 ws)) (drop 16 ws))"

declare sha_blocks.simps [simp del]

definition Sum256 :: "string \<Rightarrow> string" where
  "Sum256 s = concat (map bytes_of (sha_blocks sha_init (words_of (sha_pad s))))"

lemma length_sha_extend [simp]: "length (sha_extend n ws) = n + length ws"
  by (induction n arbitrary: ws) (auto simp: Let_def)

lemma length_sha_round [simp]: "length (sha_round st kw) = length st"
  by (cases "(st, kw)" rule: sha_round.cases) (auto simp: Let_def)

lemma length_sha_rounds [simp]: "length (foldl sha_round st kws) = length st"
  by (induction kws arbitrary: st) auto

lemma length_sha_blocks [simp]: "length (sha_blocks st ws) = length st"
  by (induction st ws rule: sha_blocks.induct)
    (subst sha_blocks.simps, simp add: sha_block_def)

lemma length_bytes_of [simp]: "length (bytes_of w) = 4"
  by (simp add: bytes_of_def Let_def)

lemma length_Sum256 [simp]: "length (Sum256 s) = 32"
proof -
  have "length (concat (map bytes_of ws)) = 4 * length ws" for ws
    by (induction ws) auto
  then show ?thesis by (simp add: Sum256_def sha_init_def eight_words_def)
qed

section \<open>HMAC\<close>

definition xor_byte :: "nat \<Rightarrow> char \<Rightarrow> char" where
  "xor_byte n c = char_of (n XOR byte c)"

definition hmac_sha256 :: "string \<Rightarrow> string \<Rightarrow> string" where
  "hmac_sha256 key msg =
     (let k0 = (if length key > 64 then Sum256 key else key);
          k = k0 @ replicate (64 - length k0) (CHR 0x00)
      in Sum256 (map (xor_byte 0x5c) k @ Sum256 (map (xor_byte 0x36) k @ msg)))"

lemma length_hmac [simp]: "length (hmac_sha256 k m) = 32"
  by (simp add: hmac_sha256_def Let_def)

section \<open>Hexadecimal\<close>

definition hex_char :: "nat \<Rightarrow> char" where
  "hex_char n = (if n < 10 then char_of (48 + n) else char_of (87 + n))"

definition EncodeToHex :: "string \<Rightarrow> string" where
  "EncodeToHex s = concat (map (\<lambda>c. [hex_char (byte c div 16), hex_char (byte c mod 16)]) s)"

lemma hex_char_inject:
  assumes "m < 16" "n < 16" "hex_char m = hex_char n"
  shows "m = n"
proof -
  have "byte (hex_char k) = (if k < 10 then 48 + k else 87 + k)" if "k < 16" for k
    using that by (simp add: hex_char_def)
  with assms have "(if m < 10 then 48 + m else 87 + m) = (if n < 10 then 48 + n else 87 + n)" by metis
  then show ?thesis by (simp split: if_splits)
qed

section \<open>base64\<close>

definition enc64 :: "nat \<Rightarrow> char" where
  "enc64 n =
     (if n < 26 then char_of (65 + n)
      else if n < 52 then char_of (71 + n)
      else if n < 62 then char_of (n - 4)
      else if n = 62 then CHR ''-'' else CHR ''_'')"

definition dec64 :: "char \<Rightarrow> nat option" where
  "dec64 c =
     (if 65 \<le> byte c \<and> byte c \<le> 90 then Some (byte c - 65)
      else if 97 \<le> byte c \<and> byte c \<le> 122 then Some (byte c - 71)
      else if 48 \<le> byte c \<and> byte c \<le> 57 then Some (byte c + 4)
      else if c = CHR ''-'' then Some 62
      else if c = CHR ''_'' then Some 63
      else None)"

fun EncodeToString :: "string \<Rightarrow> string" where
  "EncodeToString [] = []"
| "EncodeToString [a] = [enc64 (byte a div 4), enc64 (byte a mod 4 * 16)]"
| "EncodeToString [a, b] =
     [enc64 (byte a div 4), enc64 (byte a mod 4 * 16 + byte b div 16), enc64 (byte b mod 16 * 4)]"
| "EncodeToString (a # b # c # s) =
     enc64 (byte a div 4) # enc64 (byte a mod 4 * 16 + byte b div 16) #
     enc64 (byte b mod 16 * 4 + byte c div 64) # enc64 (byte c mod 64) # EncodeToString s"

fun decode64 :: "nat list \<Rightarrow> string option" where
  "decode64 [] = Some []"
| "decode64 [a] = None"
| "decode64 [a, b] = Some [char_of (a * 4 + b div 16)]"
| "decode64 [a, b, c] = Some [char_of (a * 4 + b div 16), char_of (b mod 16 * 16 + c div 4)]"
| "decode64 (a # b # c # d # s) =
     map_option (append [char_of (a * 4 + b div 16), char_of (b mod 16 * 16 + c div 4),
                         char_of (c mod 4 * 64 + d)]) (decode64 s)"

fun sextets :: "string \<Rightarrow> nat list option" where
  "sextets [] = Some []"
| "sextets (c # s) =
     (if byte c = 10 \<or> byte c = 13 then sextets s
      else (case dec64 c of None \<Rightarrow> None | Some n \<Rightarrow> map_option (Cons n) (sextets s)))"

definition DecodeString :: "string \<Rightarrow> string option" where
  "DecodeString s = (case sextets s of None \<Rightarrow> None | Some ns \<Rightarrow> decode64 ns)"

text \<open>The alphabet: letters, digits, \<open>-\<close> and \<open>_\<close>.\<close>

definition b64_char :: "char \<Rightarrow> bool" where
  "b64_char c \<longleftrightarrow> dec64 c \<noteq> None"

lemma enc64_facts [simp]:
  assumes "n < 64"
  shows "dec64 (enc64 n) = Some n" "byte (enc64 n) \<noteq> 10" "byte (enc64 n) \<noteq> 13" "b64_char (enc64 n)"
proof -
  have all: "dec64 (enc64 n) = Some n \<and> byte (enc64 n) \<noteq> 10 \<and> byte (enc64 n) \<noteq> 13"
  proof -
    consider "n < 26" | k where "n = k + 26" "k < 26" | k where "n = k + 52" "k < 10" | "n = 62" | "n = 63"
    proof -
      assume cs: "n < 26 \<Longrightarrow> thesis" "\<And>k. n = k + 26 \<Longrightarrow> k < 26 \<Longrightarrow> thesis"
        "\<And>k. n = k + 52 \<Longrightarrow> k < 10 \<Longrightarrow> thesis" "n = 62 \<Longrightarrow> thesis" "n = 63 \<Longrightarrow> thesis"
      show thesis
        using cs(1,4,5) cs(2) [of "n - 26"] cs(3) [of "n - 52"] assms by linarith
    qed
    then show ?thesis by cases (simp_all add: enc64_def dec64_def)
  qed
  then show "dec64 (enc64 n) = Some n" "byte (enc64 n) \<noteq> 10" "byte (enc64 n) \<noteq> 13" by blast+
  from all show "b64_char (enc64 n)" by (simp add: b64_char_def)
qed

lemma byte_less [simp]: "byte c < 256"
  using of_char_mod_256 [of c, where 'a = nat] mod_less_divisor [of 256 "byte c"] by linarith

lemma join_high: "x < 16 \<Longrightarrow> a div 4 * 4 + (a mod 4 * 16 + x) div 16 = (a :: nat)"
  by (simp add: div_add1_eq)

lemma join_mid: "x < 4 \<Longrightarrow> (m * 16 + b div 16) mod 16 * 16 + (b mod 16 * 4 + x) div 4 = b" if "b < 256" for b :: nat
proof -
  assume x: "x < 4"
  have "b div 16 < 16" using that by (simp add: less_mult_imp_div_less)
  then have "(m * 16 + b div 16) mod 16 = b div 16" by simp
  moreover have "(b mod 16 * 4 + x) div 4 = b mod 16" using x by simp
  ultimately show ?thesis by simp
qed

lemma join_low: "(m * 4 + c div 64) mod 4 * 64 + c mod 64 = c" if "c < 256" for c :: nat
proof -
  have "c div 64 < 4" using that by (simp add: less_mult_imp_div_less)
  then have "(m * 4 + c div 64) mod 4 = c div 64" by simp
  then show ?thesis by simp
qed

lemma byte_parts [simp]:
  "byte a div 4 < 64" "byte a mod 4 * 16 + byte b div 16 < 64" "byte b mod 16 * 4 + byte c div 64 < 64"
  "byte a mod 4 * 16 < 64" "byte b mod 16 * 4 < 64"
proof -
  have d: "byte a div 4 < 64" "byte b div 16 < 16" "byte c div 64 < 4"
    using byte_less [of a] byte_less [of b] byte_less [of c] by (simp_all add: less_mult_imp_div_less)
  have m: "byte a mod 4 < 4" "byte b mod 16 < 16" by simp_all
  show "byte a div 4 < 64" "byte a mod 4 * 16 + byte b div 16 < 64"
    "byte b mod 16 * 4 + byte c div 64 < 64" "byte a mod 4 * 16 < 64" "byte b mod 16 * 4 < 64"
    using d m by linarith+
qed

lemma decode64_joined:
  "decode64 [byte a div 4, byte a mod 4 * 16] = Some [a]"
  "decode64 [byte a div 4, byte a mod 4 * 16 + byte b div 16, byte b mod 16 * 4] = Some [a, b]"
  "decode64 (byte a div 4 # (byte a mod 4 * 16 + byte b div 16) # (byte b mod 16 * 4 + byte c div 64) #
      byte c mod 64 # ns) = map_option (append [a, b, c]) (decode64 ns)"
proof -
  have b: "byte b div 16 < 16" "byte c div 64 < 4"
    using byte_less [of b] byte_less [of c] by (simp_all add: less_mult_imp_div_less)
  have a0: "byte a div 4 * 4 + byte a mod 4 * 16 div 16 = byte a"
    using join_high [of 0 "byte a"] by simp
  have b0: "(byte a mod 4 * 16 + byte b div 16) mod 16 * 16 + byte b mod 16 * 4 div 4 = byte b"
    using join_mid [of "byte b" 0 "byte a mod 4"] by simp
  note j = join_high [OF b(1), of "byte a"] join_mid [OF byte_less b(2), of "byte a mod 4" b]
    join_low [OF byte_less, of "byte b mod 16" c] a0 b0
  show
    "decode64 [byte a div 4, byte a mod 4 * 16] = Some [a]"
    "decode64 [byte a div 4, byte a mod 4 * 16 + byte b div 16, byte b mod 16 * 4] = Some [a, b]"
    "decode64 (byte a div 4 # (byte a mod 4 * 16 + byte b div 16) # (byte b mod 16 * 4 + byte c div 64) #
      byte c mod 64 # ns) = map_option (append [a, b, c]) (decode64 ns)"
    by (simp_all only: decode64.simps j char_of_char)
qed

text \<open>What was encoded decodes to itself.\<close>

lemma sextets_enc64: "n < 64 \<Longrightarrow> sextets (enc64 n # s) = map_option (Cons n) (sextets s)"
  by simp

lemma decode_encode64 [simp]: "DecodeString (EncodeToString s) = Some s"
proof (induction s rule: EncodeToString.induct)
  case 1
  show ?case by (simp add: DecodeString_def)
next
  case (2 a)
  show ?case
    by (simp only: DecodeString_def EncodeToString.simps sextets_enc64 byte_parts sextets.simps(1)
        option.map option.case decode64_joined)
next
  case (3 a b)
  show ?case
    by (simp only: DecodeString_def EncodeToString.simps sextets_enc64 byte_parts sextets.simps(1)
        option.map option.case decode64_joined)
next
  case (4 a b c s)
  obtain ns where ns: "sextets (EncodeToString s) = Some ns" "decode64 ns = Some s"
    using 4 by (auto simp: DecodeString_def split: option.splits)
  have "byte c mod 64 < 64" by simp
  then show ?case
    by (simp only: DecodeString_def EncodeToString.simps sextets_enc64 byte_parts ns
        option.map option.case decode64_joined) simp
qed

lemma encode64_alphabet: "list_all b64_char (EncodeToString s)"
  by (induction s rule: EncodeToString.induct) simp_all

end
