(* ===== verification/Http.thy ===== *)
theory Http
  imports GoText
begin

text \<open>
  Requests and responses of \<open>net/http\<close> as the handlers see them.  The path of a request is
  the list of its segments, unescaped, the way \<open>ServeMux\<close> compares them (a path that is not
  clean is redirected before any handler runs); query parameters, cookies and header fields
  are in the order of the request, and the first one of a name counts.
\<close>

record web_request =
  rq_method :: string
  rq_path :: "string list"
  rq_query :: "(string \<times> string) list"
  rq_cookies :: "(string \<times> string) list"
  rq_header :: "(string \<times> string) list"
  rq_body :: string

definition lookup :: "string \<Rightarrow> (string \<times> string) list \<Rightarrow> string" where
  "lookup k kvs = (case map_of kvs k of None \<Rightarrow> [] | Some v \<Rightarrow> v)"

text \<open>\<open>Set-Cookie\<close>: the cookies of the service have the path \<open>/\<close> and are \<open>HttpOnly\<close> and
  \<open>SameSite=Lax\<close>.\<close>

record cookie =
  ck_name :: string
  ck_value :: string
  ck_max_age :: int

record web_response =
  rs_code :: int
  rs_type :: string
  rs_location :: string
  rs_cookies :: "cookie list"
  rs_body :: string

definition StatusOK :: int where "StatusOK = 200"
definition StatusCreated :: int where "StatusCreated = 201"
definition StatusFound :: int where "StatusFound = 302"
definition StatusBadRequest :: int where "StatusBadRequest = 400"
definition StatusUnauthorized :: int where "StatusUnauthorized = 401"
definition StatusForbidden :: int where "StatusForbidden = 403"
definition StatusNotFound :: int where "StatusNotFound = 404"
definition StatusConflict :: int where "StatusConflict = 409"
definition StatusInternalServerError :: int where "StatusInternalServerError = 500"
definition StatusBadGateway :: int where "StatusBadGateway = 502"

lemmas code_defs =
  StatusOK_def StatusCreated_def StatusFound_def StatusBadRequest_def StatusUnauthorized_def
  StatusForbidden_def StatusNotFound_def StatusConflict_def StatusInternalServerError_def
  StatusBadGateway_def

text \<open>\<open>http.Error\<close> and \<open>http.Redirect\<close>.\<close>

definition http_Error :: "string \<Rightarrow> int \<Rightarrow> web_response" where
  "http_Error text code =
     \<lparr>rs_code = code, rs_type = ''text/plain; charset=utf-8'', rs_location = [], rs_cookies = [],
      rs_body = text @ newline\<rparr>"

definition html_escape :: "string \<Rightarrow> string" where
  "html_escape s = concat (map (\<lambda>c.
     if c = CHR ''&'' then ''&amp;''
     else if c = CHR ''<'' then ''&lt;''
     else if c = CHR ''>'' then ''&gt;''
     else if byte c = 34 then ''&#34;''
     else if byte c = 39 then ''&#39;''
     else [c]) s)"

definition http_Redirect :: "web_request \<Rightarrow> string \<Rightarrow> int \<Rightarrow> web_response" where
  "http_Redirect rq url code =
     (let quoted = [CHR 0x22] @ html_escape url @ [CHR 0x22];
          read = (rq_method rq = ''GET'' \<or> rq_method rq = ''HEAD'')
      in \<lparr>rs_code = code, rs_type = (if read then ''text/html; charset=utf-8'' else []),
          rs_location = url, rs_cookies = [],
          rs_body = (if rq_method rq = ''GET''
                     then ''<a href='' @ quoted @ ''>Found</a>.'' @ newline @ newline else [])\<rparr>)"

definition with_cookie :: "cookie \<Rightarrow> web_response \<Rightarrow> web_response" where
  "with_cookie c r = r\<lparr>rs_cookies := c # rs_cookies r\<rparr>"

lemma http_Error_code [simp]: "rs_code (http_Error t c) = c"
  by (simp add: http_Error_def)

lemma http_Redirect_code [simp]: "rs_code (http_Redirect rq u c) = c"
  by (simp add: http_Redirect_def Let_def)

lemma with_cookie_code [simp]: "rs_code (with_cookie c r) = rs_code r"
  by (simp add: with_cookie_def)

end
