(* ===== verification/Auth.thy ===== *)
theory Auth
  imports Keycloak JsonRound GoCrypto Http
begin

text \<open>
  \<open>internal/auth/auth.go\<close>: signing in.  A \<open>Manager\<close> is its configuration; the map of
  pending logins is the part \<open>manager_mem\<close> of the world, under \<open>Manager.mu\<close>.  The session
  cookie is the payload and its HMAC, both in base64, in base64 once more.
\<close>

text \<open>\<open>NewManager\<close>: no login is pending.\<close>

definition new_manager_mem :: manager_mem where
  "new_manager_mem = Map.empty"

definition cookieName :: string where
  "cookieName = ''pim_session''"

record Session =
  se_Username :: string
  se_Groups :: "string list option"
  se_Expiry :: int

section \<open>Tokens\<close>

definition randomToken :: "nat \<Rightarrow> (error + string) prog" where
  "randomToken n =
     bnd (rand_read n) (\<lambda>res. Ret (case res of Inl e \<Rightarrow> Inl e | Inr b \<Rightarrow> Inr (EncodeToString b)))"

definition pkceChallengeS256 :: "string \<Rightarrow> string" where
  "pkceChallengeS256 verifier = EncodeToString (Sum256 verifier)"

section \<open>The session cookie\<close>

definition session_json :: "Session \<Rightarrow> string" where
  "session_json s =
     ''{'' @ print_string ''username'' @ '':'' @ print_string (se_Username s) @
     '','' @ print_string ''groups'' @ '':'' @ print_strings (se_Groups s) @
     '','' @ print_string ''exp'' @ '':'' @ dec_int (se_Expiry s) @ ''}''"

definition session_fields :: "json \<Rightarrow> Session option" where
  "session_fields j =
     (case members_of j of None \<Rightarrow> None
      | Some ms \<Rightarrow>
          (case field_from as_string ''username'' [] ms of None \<Rightarrow> None
           | Some u \<Rightarrow>
               (case field_from as_strings ''groups'' None ms of None \<Rightarrow> None
                | Some gs \<Rightarrow>
                    (case field_from as_int ''exp'' 0 ms of None \<Rightarrow> None
                     | Some e \<Rightarrow> Some \<lparr>se_Username = u, se_Groups = gs, se_Expiry = e\<rparr>))))"

definition session_value :: "config \<Rightarrow> Session \<Rightarrow> string" where
  "session_value cfg sess =
     (let payload = session_json sess; sig = hmac_sha256 (SessionSecret cfg) payload
      in EncodeToString (EncodeToString payload @ ''.'' @ EncodeToString sig))"

definition setCookie :: "config \<Rightarrow> Session \<Rightarrow> cookie" where
  "setCookie cfg sess =
     \<lparr>ck_name = cookieName, ck_value = session_value cfg sess, ck_max_age = 8 * Hour div Second\<rparr>"

definition Clear :: cookie where
  "Clear = \<lparr>ck_name = cookieName, ck_value = [], ck_max_age = -1\<rparr>"

text \<open>\<open>strings.SplitN(s, ".", 2)\<close> with two parts.\<close>

definition split_dot :: "string \<Rightarrow> (string \<times> string) option" where
  "split_dot s =
     (case dropWhile (\<lambda>c. c \<noteq> CHR ''.'') s of
        [] \<Rightarrow> None
      | _ # rest \<Rightarrow> Some (takeWhile (\<lambda>c. c \<noteq> CHR ''.'') s, rest))"

text \<open>\<open>FromRequest\<close> up to the expiry.\<close>

definition open_session :: "config \<Rightarrow> string \<Rightarrow> error + Session" where
  "open_session cfg value =
     (if value = [] then Inl (Msg ''no session'')
      else (case DecodeString value of
          None \<Rightarrow> Inl (Msg ''bad session'')
        | Some raw \<Rightarrow>
            (case split_dot raw of
               None \<Rightarrow> Inl (Msg ''bad session'')
             | Some (p, s) \<Rightarrow>
                 (case (DecodeString p, DecodeString s) of
                    (Some payload, Some sig) \<Rightarrow>
                      (if hmac_sha256 (SessionSecret cfg) payload \<noteq> sig
                       then Inl (Msg ''bad session signature'')
                       else (case parse_all payload of
                           Inl e \<Rightarrow> Inl (Msg ''bad session'')
                         | Inr j \<Rightarrow>
                             (case session_fields j of
                                None \<Rightarrow> Inl (Msg ''bad session'')
                              | Some sess \<Rightarrow> Inr sess)))
                  | _ \<Rightarrow> Inl (Msg ''bad session encoding'')))))"

definition FromRequest :: "config \<Rightarrow> web_request \<Rightarrow> (error + Session) prog" where
  "FromRequest cfg rq =
     (case open_session cfg (lookup cookieName (rq_cookies rq)) of
        Inl e \<Rightarrow> Ret (Inl e)
      | Inr sess \<Rightarrow>
          bnd time_now (\<lambda>now. Ret (
            if Unix now > se_Expiry sess then Inl (Msg ''session expired'') else Inr sess)))"

text \<open>A nil \<open>*Manager\<close> is \<open>None\<close>.\<close>

definition Actor :: "config option \<Rightarrow> config \<Rightarrow> web_request \<Rightarrow> string prog" where
  "Actor m cfg rq =
     (let header = (if AllowHeaderAuth cfg then TrimSpace (lookup ''X-Actor-Username'' (rq_header rq)) else [])
      in case m of
           None \<Rightarrow> Ret header
         | Some mcfg \<Rightarrow>
             (if OIDCEnabled cfg then
                bnd (FromRequest mcfg rq) (\<lambda>res. Ret (case res of
                  Inl e \<Rightarrow> header
                | Inr sess \<Rightarrow> (if se_Username sess \<noteq> [] then se_Username sess else header)))
              else Ret header))"

definition SessionOrNil :: "config option \<Rightarrow> web_request \<Rightarrow> Session option prog" where
  "SessionOrNil m rq =
     (case m of
        None \<Rightarrow> Ret None
      | Some mcfg \<Rightarrow>
          bnd (FromRequest mcfg rq) (\<lambda>res. Ret (case res of Inl e \<Rightarrow> None | Inr s \<Rightarrow> Some s)))"

fun InList :: "string list \<Rightarrow> string \<Rightarrow> bool" where
  "InList [] needle = False"
| "InList (h # hs) needle = (if h = needle then True else InList hs needle)"

section \<open>Logging in\<close>

definition login_url :: "config \<Rightarrow> string \<Rightarrow> string \<Rightarrow> string" where
  "login_url cfg state challenge =
     TrimRightSlash (BrowserIssuer cfg) @ ''/realms/'' @ Realm cfg @ ''/protocol/openid-connect/auth?'' @
     Values_Encode
       [(''client_id'', OIDCClientID cfg), (''response_type'', ''code''), (''scope'', ''openid profile''),
        (''redirect_uri'', RedirectURL cfg), (''state'', state), (''code_challenge'', challenge),
        (''code_challenge_method'', ''S256'')]"

definition LoginURL :: "config \<Rightarrow> (error + string) prog" where
  "LoginURL cfg =
     bnd (randomToken 16) (\<lambda>r1. case r1 of Inl e \<Rightarrow> Ret (Inl e) | Inr state \<Rightarrow>
     bnd (randomToken 32) (\<lambda>r2. case r2 of Inl e \<Rightarrow> Ret (Inl e) | Inr verifier \<Rightarrow>
     Lock Manager_mu (Now (\<lambda>now. GetManager (\<lambda>states.
       PutManager (states(state \<mapsto> \<lparr>pa_expiry = now + 10 * Minute, codeVerifier = verifier\<rparr>))
         (Unlock Manager_mu (Ret (Inr (login_url cfg state (pkceChallengeS256 verifier))))))))))"

record user_info =
  ui_PreferredUsername :: string
  ui_Groups :: "string list option"

definition userinfo_fields :: "json \<Rightarrow> user_info option" where
  "userinfo_fields j =
     (case members_of j of None \<Rightarrow> None
      | Some ms \<Rightarrow>
          (case field_from as_string ''preferred_username'' [] ms of None \<Rightarrow> None
           | Some u \<Rightarrow>
               (case field_from as_strings ''groups'' None ms of None \<Rightarrow> None
                | Some gs \<Rightarrow> Some \<lparr>ui_PreferredUsername = u, ui_Groups = gs\<rparr>)))"

text \<open>What follows the last slash of a group path.\<close>

definition base_name :: "string \<Rightarrow> string" where
  "base_name g = rev (takeWhile (\<lambda>c. c \<noteq> CHR ''/'') (rev g))"

definition read_userinfo :: "http_response \<Rightarrow> error + user_info" where
  "read_userinfo resp =
     (if hp_code resp \<ge> 300 then Inl (Msg (''userinfo: '' @ hp_status resp @ '': '' @ hp_body resp))
      else (case parse_all (hp_body resp) of
          Inl e \<Rightarrow> Inl e
        | Inr j \<Rightarrow>
            (case decoded (userinfo_fields j) of
               Inl e \<Rightarrow> Inl e
             | Inr ui \<Rightarrow> Inr (ui\<lparr>ui_Groups := map_option (map base_name) (ui_Groups ui)\<rparr>))))"

definition userInfo :: "config \<Rightarrow> string \<Rightarrow> (error + user_info) prog" where
  "userInfo cfg tok =
     Keycloak (bearer_request ''GET''
         (slashless cfg @ ''/realms/'' @ Realm cfg @ ''/protocol/openid-connect/userinfo'') tok)
       (\<lambda>res. Ret (case res of Inl e \<Rightarrow> Inl e | Inr resp \<Rightarrow> read_userinfo resp))"

definition access_field :: "json \<Rightarrow> string option" where
  "access_field j =
     (case members_of j of None \<Rightarrow> None
      | Some ms \<Rightarrow> field_from as_string ''access_token'' [] ms)"

definition read_exchange :: "http_response \<Rightarrow> error + string" where
  "read_exchange resp =
     (if hp_code resp \<ge> 300
      then Inl (Msg (''token exchange: '' @ hp_status resp @ '': '' @ hp_body resp))
      else (case parse_all (hp_body resp) of
          Inl e \<Rightarrow> Inl e
        | Inr j \<Rightarrow>
            (case decoded (access_field j) of
               Inl e \<Rightarrow> Inl e
             | Inr tok \<Rightarrow> (if tok = [] then Inl (Msg ''empty access_token'') else Inr tok))))"

text \<open>The exchange of the code for a session, once the state has been accepted.\<close>

definition exchange_code :: "config \<Rightarrow> string \<Rightarrow> string \<Rightarrow> (error + Session) prog" where
  "exchange_code cfg code verifier =
     Keycloak (form_request (token_url cfg)
         [(''grant_type'', ''authorization_code''), (''code'', code), (''redirect_uri'', RedirectURL cfg),
          (''client_id'', OIDCClientID cfg), (''client_secret'', OIDCClientSecret cfg),
          (''code_verifier'', verifier)])
       (\<lambda>res. case (case res of Inl e \<Rightarrow> Inl e | Inr resp \<Rightarrow> read_exchange resp) of
          Inl e \<Rightarrow> Ret (Inl e)
        | Inr tok \<Rightarrow>
            bnd (userInfo cfg tok) (\<lambda>u. case u of
              Inl e \<Rightarrow> Ret (Inl e)
            | Inr ui \<Rightarrow>
                (if ui_PreferredUsername ui = []
                 then Ret (Inl (Msg ''no preferred_username in userinfo''))
                 else
                   bnd time_now (\<lambda>now. Ret (Inr
                     \<lparr>se_Username = ui_PreferredUsername ui, se_Groups = ui_Groups ui,
                      se_Expiry = Unix (now + 8 * Hour)\<rparr>)))))"

text \<open>The pending login of a state: taken out of the map, and refused after its time.\<close>

definition take_state :: "string \<Rightarrow> (error + string) prog" where
  "take_state state =
     Lock Manager_mu (GetManager (\<lambda>states.
       PutManager (states(state := None)) (Unlock Manager_mu (
         case states state of
           None \<Rightarrow> Ret (Inl (Msg ''invalid or expired state''))
         | Some p \<Rightarrow>
             bnd time_now (\<lambda>now. Ret (
               if now > pa_expiry p then Inl (Msg ''invalid or expired state'')
               else Inr (codeVerifier p)))))))"

definition HandleCallback :: "config \<Rightarrow> web_request \<Rightarrow> (error + cookie) prog" where
  "HandleCallback cfg rq =
     (let err = lookup ''error'' (rq_query rq); desc = lookup ''error_description'' (rq_query rq);
          state = lookup ''state'' (rq_query rq); code = lookup ''code'' (rq_query rq)
      in if err \<noteq> [] then
           Ret (Inl (Msg (if desc \<noteq> [] then ''oidc: '' @ err @ '': '' @ desc else ''oidc: '' @ err)))
         else if state = [] \<or> code = [] then Ret (Inl (Msg ''missing state or code''))
         else
           bnd (take_state state) (\<lambda>p. case p of
             Inl e \<Rightarrow> Ret (Inl e)
           | Inr verifier \<Rightarrow>
               bnd (exchange_code cfg code verifier) (\<lambda>s. Ret (case s of
                 Inl e \<Rightarrow> Inl e
               | Inr sess \<Rightarrow> Inr (setCookie cfg sess)))))"

section \<open>Sessions survive the cookie\<close>

definition utf8_session :: "Session \<Rightarrow> bool" where
  "utf8_session s \<longleftrightarrow>
     utf8 (se_Username s) \<and> pred_option (list_all utf8) (se_Groups s) \<and>
     - (2 ^ 63) \<le> se_Expiry s \<and> se_Expiry s < 2 ^ 63"

lemma utf8_ascii: "list_all (\<lambda>c. byte c < 0x80) s \<Longrightarrow> utf8 s"
  by (induction s) (simp_all add: utf8.simps [of "_ # _"] rune_width_ascii)

lemma parse_session:
  assumes "utf8_session s"
  shows "parse_all (session_json s) =
    Inr (JObj [(''username'', JStr (se_Username s)), (''groups'', json_strings (se_Groups s)),
               (''exp'', JNum (dec_int (se_Expiry s)))])"
proof -
  let ?j = "JObj [(''username'', JStr (se_Username s)), (''groups'', json_strings (se_Groups s)),
               (''exp'', JNum (dec_int (se_Expiry s)))]"
  have "utf8 ''username''" "utf8 ''groups''" "utf8 ''exp''" by (simp_all add: utf8_ascii)
  moreover have "printable (json_strings (se_Groups s))"
    using assms by (cases "se_Groups s") (simp_all add: utf8_session_def printable_strings)
  ultimately have "printable ?j" using assms by (simp add: utf8_session_def exI [of _ "se_Expiry s"])
  moreover have "depth (json_strings gs) \<le> 1" for gs by (cases gs) (simp_all add: depth_strings)
  from this [of "se_Groups s"] have "depth ?j \<le> max_depth" by (simp add: max_depth_def)
  moreover have "session_json s = print_json ?j" by (simp add: session_json_def print_json_strings)
  ultimately show ?thesis using parse_print_json [of ?j] by (simp only:)
qed

lemma session_fields_json:
  assumes "utf8_session s"
  shows "session_fields (JObj [(''username'', JStr (se_Username s)), (''groups'', json_strings (se_Groups s)),
     (''exp'', JNum (dec_int (se_Expiry s)))]) = Some s"
proof -
  have "parse_int64 (dec_int (se_Expiry s)) = Some (se_Expiry s)"
    using assms by (intro parse_int64_dec_int) (simp_all add: utf8_session_def)
  then show ?thesis by (simp add: session_fields_def key_matches_def)
qed

lemma split_dot_b64: "list_all b64_char a \<Longrightarrow> split_dot (a @ ''.'' @ b) = Some (a, b)"
proof -
  assume a: "list_all b64_char a"
  have "\<not> b64_char (CHR ''.'')" by (simp add: b64_char_def dec64_def)
  with a have "\<forall>c \<in> set a. c \<noteq> CHR ''.''" by (auto simp: list_all_iff)
  then show ?thesis by (simp add: split_dot_def dropWhile_append2 takeWhile_append2)
qed

lemma EncodeToString_eq_Nil [simp]: "EncodeToString s = [] \<longleftrightarrow> s = []"
  by (cases s rule: EncodeToString.cases) simp_all

lemma open_session_value:
  assumes "utf8_session s"
  shows "open_session cfg (session_value cfg s) = Inr s"
proof -
  have "split_dot (EncodeToString (session_json s) @ ''.'' @ EncodeToString x) =
      Some (EncodeToString (session_json s), EncodeToString x)" for x
    by (rule split_dot_b64) (rule encode64_alphabet)
  then show ?thesis
    by (simp add: open_session_def session_value_def Let_def parse_session [OF assms]
        session_fields_json [OF assms] del: append.simps append_Cons)
qed

text \<open>A cookie that is accepted carries the HMAC of its payload.\<close>

lemma open_session_Inr:
  assumes "open_session cfg v = Inr s"
  obtains raw p g payload j where "DecodeString v = Some raw" "split_dot raw = Some (p, g)"
    "DecodeString p = Some payload" "DecodeString g = Some (hmac_sha256 (SessionSecret cfg) payload)"
    "parse_all payload = Inr j" "session_fields j = Some s"
  using assms by (auto simp: open_session_def split: if_splits option.splits sum.splits)

lemma run_FromRequest:
  "run E (FromRequest cfg rq) w =
     (case open_session cfg (lookup cookieName (rq_cookies rq)) of
        Inl e \<Rightarrow> (Inl e, w)
      | Inr s \<Rightarrow>
          (case e_now E (w_other w) of (now, x) \<Rightarrow>
             (if Unix now > se_Expiry s then Inl (Msg ''session expired'') else Inr s, w\<lparr>w_other := x\<rparr>)))"
  by (simp add: FromRequest_def run_simps split: sum.split prod.split)

section \<open>Pending logins\<close>

lemma run_take_state:
  "run E (take_state st) w =
     (let w1 = w\<lparr>w_held := insert Manager_mu (w_held w) - {Manager_mu}, w_manager := (w_manager w)(st := None)\<rparr> in
      case w_manager w st of
        None \<Rightarrow> (Inl (Msg ''invalid or expired state''), w1)
      | Some p \<Rightarrow>
          (case e_now E (w_other w) of (now, x) \<Rightarrow>
             (if now > pa_expiry p then Inl (Msg ''invalid or expired state'') else Inr (codeVerifier p),
              w1\<lparr>w_other := x\<rparr>)))"
  by (simp add: take_state_def run_simps Let_def split: option.split prod.split)

lemma exchange_manager: "run E (exchange_code cfg code v) w = (r, w') \<Longrightarrow> w_manager w' = w_manager w"
  by (auto simp: exchange_code_def userInfo_def run_simps split: prod.splits sum.splits if_splits)

lemma locked_Auth:
  "locked None (FromRequest cfg rq)" "locked None (Actor m cfg rq)" "locked None (LoginURL cfg)"
  "locked None (HandleCallback cfg rq)"
proof -
  show f: "locked None (FromRequest cfg rq)" for cfg
    by (auto simp: FromRequest_def intro!: locked_bnd split: sum.split)
  show "locked None (Actor m cfg rq)"
    by (auto simp: Actor_def Let_def intro!: locked_bnd f split: option.split)
  show "locked None (LoginURL cfg)"
    by (auto simp: LoginURL_def randomToken_def intro!: locked_bnd split: sum.split)
  have "locked None (exchange_code cfg code v)" for code v
    by (auto simp: exchange_code_def userInfo_def intro!: locked_bnd split: sum.split)
  then show "locked None (HandleCallback cfg rq)"
    by (auto simp: HandleCallback_def take_state_def Let_def intro!: locked_bnd split: sum.split option.split)
qed

lemma permits_Auth:
  "permits 0 (FromRequest cfg rq)" "permits 0 (Actor m cfg rq)" "permits 0 (LoginURL cfg)"
  "permits 0 (HandleCallback cfg rq)"
proof -
  show f: "permits 0 (FromRequest cfg rq)" for cfg
    by (auto simp: FromRequest_def intro!: permits_bnd split: sum.split)
  show "permits 0 (Actor m cfg rq)"
    by (auto simp: Actor_def Let_def intro!: permits_bnd f split: option.split)
  show "permits 0 (LoginURL cfg)"
    by (auto simp: LoginURL_def randomToken_def intro!: permits_bnd split: sum.split)
  have "permits 0 (exchange_code cfg code v)" for code v
    by (auto simp: exchange_code_def userInfo_def intro!: permits_bnd split: sum.split)
  then show "permits 0 (HandleCallback cfg rq)"
    by (auto simp: HandleCallback_def take_state_def Let_def intro!: permits_bnd split: sum.split option.split)
qed

end
