(* ===== verification/Store.thy ===== *)
theory Store
  imports Prog
begin

text \<open>
  \<open>internal/store/store.go\<close>: the requests.  A \<open>request\<close> is the Go struct, \<open>row_of\<close> the
  parameters \<open>Create\<close> binds and \<open>scanRequest\<close> what comes back; the operations are programs
  over the statements of \<open>Sql\<close>.  Abstractly the table is a map from ids to requests
  (\<open>reqs\<close>), and the locale \<open>request_store\<close> is the contract the handlers rely on; it is
  discharged for the operations at the end, over any engine that satisfies \<open>sqlite\<close>.
\<close>

section \<open>Requests\<close>

definition StatusPending :: string where "StatusPending = ''pending''"
definition StatusApproved :: string where "StatusApproved = ''approved''"
definition StatusExpired :: string where "StatusExpired = ''expired''"
definition StatusReleased :: string where "StatusReleased = ''released''"
definition StatusDenied :: string where "StatusDenied = ''denied''"

lemmas status_defs =
  StatusPending_def StatusApproved_def StatusExpired_def StatusReleased_def StatusDenied_def

lemma status_distinct [simp]:
  "StatusPending \<noteq> StatusApproved" "StatusApproved \<noteq> StatusPending"
  "StatusPending \<noteq> StatusExpired" "StatusExpired \<noteq> StatusPending"
  "StatusPending \<noteq> StatusReleased" "StatusReleased \<noteq> StatusPending"
  "StatusApproved \<noteq> StatusExpired" "StatusExpired \<noteq> StatusApproved"
  "StatusApproved \<noteq> StatusReleased" "StatusReleased \<noteq> StatusApproved"
  "StatusExpired \<noteq> StatusReleased" "StatusReleased \<noteq> StatusExpired"
  by (simp_all add: status_defs)

record request =
  ID :: string
  Username :: string
  Justification :: string
  Status :: string
  CreatedAt :: time
  RequestExpiresAt :: time
  ApprovedAt :: "time option"
  ApprovedBy :: string
  ApprovalNotes :: string
  ActiveExpiresAt :: "time option"
  ReleasedAt :: "time option"

section \<open>Rows and requests\<close>

definition nullTime :: "time option \<Rightarrow> string option" where
  "nullTime t = map_option FormatRFC3339Nano t"

definition nullStr :: "string \<Rightarrow> string option" where
  "nullStr s = (if s = [] then None else Some s)"

definition parseNullTime :: "string option \<Rightarrow> time option" where
  "parseNullTime ns =
     (case ns of
        None \<Rightarrow> None
      | Some s \<Rightarrow>
          (if s = [] then None
           else (case ParseRFC3339Nano s of Inl e \<Rightarrow> None | Inr t \<Rightarrow> Some t)))"

definition row_of :: "request \<Rightarrow> req_row" where
  "row_of r =
     \<lparr>c_id = ID r, c_username = Username r, c_justification = Justification r,
      c_status = Status r,
      c_created_at = FormatRFC3339Nano (CreatedAt r),
      c_request_expires_at = FormatRFC3339Nano (RequestExpiresAt r),
      c_approved_at = nullTime (ApprovedAt r), c_approved_by = nullStr (ApprovedBy r),
      c_active_expires_at = nullTime (ActiveExpiresAt r), c_released_at = nullTime (ReleasedAt r),
      c_approval_notes = ApprovalNotes r\<rparr>"

definition scanRequest :: "req_row \<Rightarrow> error + request" where
  "scanRequest row =
     (case ParseRFC3339Nano (c_created_at row) of
        Inl e \<Rightarrow> Inl e
      | Inr created \<Rightarrow>
          (case ParseRFC3339Nano (c_request_expires_at row) of
             Inl e \<Rightarrow> Inl e
           | Inr reqExp \<Rightarrow>
               Inr \<lparr>ID = c_id row, Username = c_username row,
                    Justification = c_justification row, Status = c_status row,
                    CreatedAt = created, RequestExpiresAt = reqExp,
                    ApprovedAt = parseNullTime (c_approved_at row),
                    ApprovedBy = (case c_approved_by row of None \<Rightarrow> [] | Some s \<Rightarrow> s),
                    ApprovalNotes = c_approval_notes row,
                    ActiveExpiresAt = parseNullTime (c_active_expires_at row),
                    ReleasedAt = parseNullTime (c_released_at row)\<rparr>))"

section \<open>Operations\<close>

definition Create :: "request \<Rightarrow> (error + unit) prog" where
  "Create r =
     bnd (sql_exec (InsertRequest (row_of r))) (\<lambda>res.
     Ret (case res of Inl e \<Rightarrow> Inl e | Inr _ \<Rightarrow> Inr ()))"

definition Get :: "string \<Rightarrow> (error + request) prog" where
  "Get rid =
     bnd (sql_query (SelectRequest rid)) (\<lambda>res.
     Ret (case res of
            Inl e \<Rightarrow> Inl e
          | Inr rows \<Rightarrow> (case rows of [] \<Rightarrow> Inl Sql_NoRows | row # _ \<Rightarrow> scanRequest row)))"

text \<open>A query that returns many rows: the first error of the driver or of a row ends it.\<close>

definition scan_rows :: "req_query \<Rightarrow> (error + request list) prog" where
  "scan_rows q =
     bnd (sql_query q) (\<lambda>res.
     Ret (case res of Inl e \<Rightarrow> Inl e | Inr rows \<Rightarrow> traverse scanRequest rows))"

definition List_requests :: "(error + request list) prog" where
  "List_requests = scan_rows SelectRequests"

definition Update :: "request \<Rightarrow> (error + unit) prog" where
  "Update r =
     bnd (sql_exec (UpdateRequest (Status r) (nullTime (ApprovedAt r)) (nullStr (ApprovedBy r))
            (nullTime (ActiveExpiresAt r)) (nullTime (ReleasedAt r)) (ApprovalNotes r) (ID r)))
       (\<lambda>res.
     Ret (case res of
            Inl e \<Rightarrow> Inl e
          | Inr (n, _) \<Rightarrow>
              (if n = 0 then Inl (Msg (''request '' @ ID r @ '' not found'')) else Inr ())))"

definition byStatusBefore :: "string \<Rightarrow> time_col \<Rightarrow> time \<Rightarrow> (error + request list) prog" where
  "byStatusBefore st col now = scan_rows (SelectByStatusBefore st col (FormatRFC3339Nano now))"

definition PendingExpired :: "time \<Rightarrow> (error + request list) prog" where
  "PendingExpired now = byStatusBefore StatusPending Col_request_expires_at now"

definition ActiveExpired :: "time \<Rightarrow> (error + request list) prog" where
  "ActiveExpired now = byStatusBefore StatusApproved Col_active_expires_at now"

section \<open>Opening a database\<close>

definition exec_only :: "exec_stmt \<Rightarrow> (error + unit) prog" where
  "exec_only s = bnd (sql_exec s) (\<lambda>res. Ret (case res of Inl e \<Rightarrow> Inl e | Inr _ \<Rightarrow> Inr ()))"

definition migrateAudit :: "(error + unit) prog" where
  "migrateAudit = exec_only CreateTableAudit"

definition migrateNotify :: "(error + unit) prog" where
  "migrateNotify = exec_only CreateTableNotifications"

definition migrateApprovalNotes :: "(error + unit) prog" where
  "migrateApprovalNotes =
     bnd (sql_exec AddColumnApprovalNotes) (\<lambda>res.
     Ret (case res of
            Inr _ \<Rightarrow> Inr ()
          | Inl e \<Rightarrow>
              (if \<not> Contains (error_text e) ''duplicate column'' \<and>
                  \<not> Contains (ToLower (error_text e)) ''duplicate''
               then Inl e else Inr ())))"

definition migrate :: "(error + unit) prog" where
  "migrate =
     bnd (exec_only CreateTableRequests) (\<lambda>res. case res of Inl e \<Rightarrow> Ret (Inl e) | Inr _ \<Rightarrow>
     bnd migrateAudit (\<lambda>res. case res of Inl e \<Rightarrow> Ret (Inl e) | Inr _ \<Rightarrow>
     bnd migrateNotify (\<lambda>res. case res of Inl e \<Rightarrow> Ret (Inl e) | Inr _ \<Rightarrow>
     migrateApprovalNotes)))"

text \<open>\<open>sql.Open\<close> is a parameter: the error it answers for a path, if any.  The one connection that
  \<open>SetMaxOpenConns\<close> allows is why a statement is one step of the program.\<close>

definition Open :: "(string \<Rightarrow> error option) \<Rightarrow> string \<Rightarrow> (error + unit) prog" where
  "Open sql_Open path = (case sql_Open path of Some e \<Rightarrow> Ret (Inl e) | None \<Rightarrow> migrate)"

section \<open>Well-formed tables and the abstract store\<close>

text \<open>The layout of the texts holds years 0 to 9999, so those are the requests that survive
  the database.\<close>

definition storable_req :: "request \<Rightarrow> bool" where
  "storable_req r \<longleftrightarrow>
     storable (CreatedAt r) \<and> storable (RequestExpiresAt r) \<and>
     pred_option storable (ApprovedAt r) \<and> pred_option storable (ActiveExpiresAt r) \<and>
     pred_option storable (ReleasedAt r)"

definition row_ok :: "req_row \<Rightarrow> bool" where
  "row_ok row \<longleftrightarrow>
     (case scanRequest row of Inl e \<Rightarrow> False | Inr r \<Rightarrow> storable_req r \<and> row_of r = row)"

definition store_ok :: "tables \<Rightarrow> bool" where
  "store_ok t \<longleftrightarrow>
     has_requests t \<and> has_notes t \<and> distinct (map c_id (t_requests t)) \<and>
     list_all row_ok (t_requests t)"

definition requests_of :: "tables \<Rightarrow> request list" where
  "requests_of t = map (\<lambda>row. projr (scanRequest row)) (t_requests t)"

definition reqs :: "tables \<Rightarrow> string \<rightharpoonup> request" where
  "reqs t = map_of (map (\<lambda>q. (ID q, q)) (requests_of t))"

text \<open>What \<open>Update\<close> writes: the columns of its \<open>SET\<close> clause, nothing else.\<close>

definition merge_update :: "request \<Rightarrow> request \<Rightarrow> request" where
  "merge_update q r =
     q\<lparr>Status := Status r, ApprovedAt := ApprovedAt r, ApprovedBy := ApprovedBy r,
       ApprovalNotes := ApprovalNotes r, ActiveExpiresAt := ActiveExpiresAt r,
       ReleasedAt := ReleasedAt r\<rparr>"

definition same_subject :: "request \<Rightarrow> request \<Rightarrow> bool" where
  "same_subject q r \<longleftrightarrow>
     ID q = ID r \<and> Username q = Username r \<and> Justification q = Justification r \<and>
     CreatedAt q = CreatedAt r \<and> RequestExpiresAt q = RequestExpiresAt r"

lemma merge_update_same_subject [simp]: "same_subject q r \<Longrightarrow> merge_update q r = r"
  by (simp add: same_subject_def merge_update_def)

lemma same_subject_refl [simp]: "same_subject r r"
  by (simp add: same_subject_def)

lemma same_subject_merge: "same_subject q (merge_update q r)"
  by (simp add: same_subject_def merge_update_def)

lemma Format_not_Nil [simp]: "FormatRFC3339Nano t \<noteq> []"
  by (simp add: FormatRFC3339Nano_def)

lemma parse_nullTime [simp]: "pred_option storable t \<Longrightarrow> parseNullTime (nullTime t) = t"
  by (cases t) (simp_all add: nullTime_def parseNullTime_def parse_format)

lemma c_id_row_of [simp]: "c_id (row_of r) = ID r"
  by (simp add: row_of_def)

lemma c_status_row_of [simp]: "c_status (row_of r) = Status r"
  by (simp add: row_of_def)

lemma scan_row_of [simp]: "storable_req r \<Longrightarrow> scanRequest (row_of r) = Inr r"
  by (simp add: scanRequest_def row_of_def storable_req_def parse_format nullStr_def)

lemma row_ok_iff: "row_ok row \<longleftrightarrow> (\<exists>r. storable_req r \<and> row = row_of r)"
  by (auto simp: row_ok_def split: sum.splits)

lemma store_okD:
  assumes "store_ok t"
  shows "t_requests t = map row_of (requests_of t)" "list_all storable_req (requests_of t)"
    "distinct (map ID (requests_of t))"
proof -
  have ok: "row_of (projr (scanRequest row)) = row \<and> storable_req (projr (scanRequest row))"
    if "row \<in> set (t_requests t)" for row
  proof -
    have "row_ok row" using assms that by (simp add: store_ok_def list_all_iff)
    then show ?thesis by (cases "scanRequest row") (simp_all add: row_ok_def)
  qed
  then show rows: "t_requests t = map row_of (requests_of t)"
    by (auto simp: requests_of_def intro!: map_idI [symmetric])
  show "list_all storable_req (requests_of t)"
    using ok by (auto simp: requests_of_def list_all_iff)
  show "distinct (map ID (requests_of t))"
    using assms rows by (metis (no_types, lifting) store_ok_def c_id_row_of map_map comp_def map_eq_conv)
qed

lemma requests_of_map_row:
  "list_all storable_req qs \<Longrightarrow> t_requests t = map row_of qs \<Longrightarrow> requests_of t = qs"
  by (auto simp: requests_of_def list_all_iff intro!: map_idI)

lemma store_okI:
  assumes "has_requests t" "has_notes t" "list_all storable_req qs" "distinct (map ID qs)"
    "t_requests t = map row_of qs"
  shows "store_ok t"
  using assms by (auto simp: store_ok_def comp_def list_all_iff row_ok_iff)

lemma reqs_Some_iff:
  "store_ok t \<Longrightarrow> reqs t i = Some q \<longleftrightarrow> q \<in> set (requests_of t) \<and> ID q = i"
  using store_okD(3) by (auto simp: reqs_def map_of_eq_Some_iff comp_def)

lemma reqs_None_iff: "reqs t i = None \<longleftrightarrow> (\<forall>q \<in> set (requests_of t). ID q \<noteq> i)"
  by (auto simp: reqs_def map_of_eq_None_iff image_iff)

lemma reqs_ID: "reqs t i = Some q \<Longrightarrow> ID q = i"
  by (auto simp: reqs_def dest!: map_of_SomeD)

lemma ran_reqs: "store_ok t \<Longrightarrow> ran (reqs t) = set (requests_of t)"
  by (auto simp: ran_def reqs_Some_iff)

lemma reqs_storable: "store_ok t \<Longrightarrow> reqs t i = Some q \<Longrightarrow> storable_req q"
  using store_okD(2) by (auto simp: reqs_Some_iff list_all_iff)

text \<open>The effect of the two statements that write requests, on the abstract store.\<close>

lemma insert_store_ok:
  assumes ok: "store_ok t" and r: "storable_req r" and "exec_sem (InsertRequest (row_of r)) t n t'"
  shows "store_ok t'" "reqs t (ID r) = None" "reqs t' = (reqs t)(ID r \<mapsto> r)"
proof -
  note qs = store_okD [OF ok]
  obtain a b where n: "n = (a, b)" by (cases n)
  have new: "ID r \<notin> ID ` set (requests_of t)"
    and t': "t' = t\<lparr>t_requests := map row_of (requests_of t @ [r])\<rparr>"
    using assms(3) qs(1) by (auto simp: n image_image)
  show none: "reqs t (ID r) = None" using new by (auto simp: reqs_None_iff image_iff)
  show "store_ok t'"
    using ok qs new r by (intro store_okI [of _ "requests_of t @ [r]"]) (auto simp: t' store_ok_def)
  have "requests_of t' = requests_of t @ [r]"
    using qs(2) r by (intro requests_of_map_row) (auto simp: t')
  with none show "reqs t' = (reqs t)(ID r \<mapsto> r)"
    by (auto simp: reqs_def fun_eq_iff map_add_def split: option.splits)
qed

definition update_stmt :: "request \<Rightarrow> exec_stmt" where
  "update_stmt r =
     UpdateRequest (Status r) (nullTime (ApprovedAt r)) (nullStr (ApprovedBy r))
       (nullTime (ActiveExpiresAt r)) (nullTime (ReleasedAt r)) (ApprovalNotes r) (ID r)"

lemma update_row_of:
  "update_row (Status r) (nullTime (ApprovedAt r)) (nullStr (ApprovedBy r))
     (nullTime (ActiveExpiresAt r)) (nullTime (ReleasedAt r)) (ApprovalNotes r) (row_of q) =
   row_of (merge_update q r)"
  by (simp add: update_row_def row_of_def merge_update_def)

lemma storable_merge: "storable_req q \<Longrightarrow> storable_req r \<Longrightarrow> storable_req (merge_update q r)"
  by (simp add: storable_req_def merge_update_def)

lemma ID_merge [simp]: "ID (merge_update q r) = ID q"
  by (simp add: merge_update_def)

lemma map_of_update:
  assumes "distinct (map f qs)" "\<And>q. f (g q) = f q"
  shows "map_of (map (\<lambda>q. (f q, q)) (map (\<lambda>q. if f q = i then g q else q) qs)) =
    (case map_of (map (\<lambda>q. (f q, q)) qs) i of
       None \<Rightarrow> map_of (map (\<lambda>q. (f q, q)) qs)
     | Some q \<Rightarrow> (map_of (map (\<lambda>q. (f q, q)) qs))(i \<mapsto> g q))"
  using assms by (induction qs) (auto simp: fun_eq_iff split: option.splits dest: map_of_SomeD)

lemma update_store_ok:
  assumes ok: "store_ok t" and r: "storable_req r" and "exec_sem (update_stmt r) t (n, i) t'"
  shows "store_ok t'"
    "reqs t' = (case reqs t (ID r) of None \<Rightarrow> reqs t
                | Some q \<Rightarrow> (reqs t)(ID r \<mapsto> merge_update q r))"
    "n = 0 \<longleftrightarrow> reqs t (ID r) = None"
proof -
  note qs = store_okD [OF ok]
  let ?g = "\<lambda>q. if ID q = ID r then merge_update q r else q"
  have t': "t' = t\<lparr>t_requests := map row_of (map ?g (requests_of t))\<rparr>"
    and n: "n = length (filter (\<lambda>q. ID q = ID r) (requests_of t))"
    using assms(3) by (auto simp: update_stmt_def qs(1) update_row_of filter_map comp_def)
  have all: "list_all storable_req (map ?g (requests_of t))"
    using qs(2) r by (auto simp: list_all_iff storable_merge)
  have same: "map ID (map ?g (requests_of t)) = map ID (requests_of t)" by simp
  have dist: "distinct (map ID (map ?g (requests_of t)))" unfolding same by (rule qs(3))
  show "store_ok t'"
    by (rule store_okI [OF _ _ all dist]) (use ok in \<open>simp_all add: t' store_ok_def\<close>)
  show "n = 0 \<longleftrightarrow> reqs t (ID r) = None"
    by (auto simp: n reqs_None_iff filter_empty_conv)
  have "requests_of t' = map ?g (requests_of t)"
    using all by (intro requests_of_map_row) (simp_all add: t')
  then show "reqs t' = (case reqs t (ID r) of None \<Rightarrow> reqs t
                | Some q \<Rightarrow> (reqs t)(ID r \<mapsto> merge_update q r))"
    unfolding reqs_def by (simp only: map_of_update [OF qs(3)] ID_merge)
qed

section \<open>The contract of the store\<close>

text \<open>
  What a caller may rely on: operations on a state \<open>'s\<close> with an abstract content
  \<open>content\<close> and an invariant.  An operation that returns an error changed nothing; one that
  succeeds did to the content what its name says.
\<close>

definition overdue :: "string \<Rightarrow> (request \<Rightarrow> time option) \<Rightarrow> time \<Rightarrow> request \<Rightarrow> bool" where
  "overdue st exp now r \<longleftrightarrow>
     Status r = st \<and>
     (case exp r of None \<Rightarrow> False | Some t \<Rightarrow> text_le (FormatRFC3339Nano t) (FormatRFC3339Nano now))"

abbreviation pending_overdue :: "time \<Rightarrow> request \<Rightarrow> bool" where
  "pending_overdue \<equiv> overdue StatusPending (\<lambda>r. Some (RequestExpiresAt r))"

abbreviation active_overdue :: "time \<Rightarrow> request \<Rightarrow> bool" where
  "active_overdue \<equiv> overdue StatusApproved ActiveExpiresAt"

locale request_store =
  fixes create :: "request \<Rightarrow> 's \<Rightarrow> (error + unit) \<times> 's"
    and get :: "string \<Rightarrow> 's \<Rightarrow> (error + request) \<times> 's"
    and update :: "request \<Rightarrow> 's \<Rightarrow> (error + unit) \<times> 's"
    and pending_expired :: "time \<Rightarrow> 's \<Rightarrow> (error + request list) \<times> 's"
    and active_expired :: "time \<Rightarrow> 's \<Rightarrow> (error + request list) \<times> 's"
    and content :: "'s \<Rightarrow> string \<rightharpoonup> request"
    and good :: "'s \<Rightarrow> bool"
  assumes content_good: "good s \<Longrightarrow> content s i = Some r \<Longrightarrow> ID r = i \<and> storable_req r"
    and create_good: "good s \<Longrightarrow> storable_req r \<Longrightarrow> create r s = (x, s') \<Longrightarrow> good s'"
    and create_ok: "good s \<Longrightarrow> storable_req r \<Longrightarrow> create r s = (Inr (), s') \<Longrightarrow>
          content s (ID r) = None \<and> content s' = (content s)(ID r \<mapsto> r)"
    and create_err: "good s \<Longrightarrow> create r s = (Inl e, s') \<Longrightarrow> content s' = content s"
    and get_frame: "good s \<Longrightarrow> get i s = (y, s') \<Longrightarrow> good s' \<and> content s' = content s"
    and get_ok: "good s \<Longrightarrow> get i s = (Inr r, s') \<Longrightarrow> content s i = Some r"
    and update_good: "good s \<Longrightarrow> storable_req r \<Longrightarrow> update r s = (x, s') \<Longrightarrow> good s'"
    and update_ok: "good s \<Longrightarrow> storable_req r \<Longrightarrow> update r s = (Inr (), s') \<Longrightarrow>
          \<exists>q. content s (ID r) = Some q \<and> content s' = (content s)(ID r \<mapsto> merge_update q r)"
    and update_err: "good s \<Longrightarrow> storable_req r \<Longrightarrow> update r s = (Inl e, s') \<Longrightarrow> content s' = content s"
    and pending_frame: "good s \<Longrightarrow> pending_expired now s = (z, s') \<Longrightarrow> good s' \<and> content s' = content s"
    and pending_ok: "good s \<Longrightarrow> pending_expired now s = (Inr rs, s') \<Longrightarrow>
          distinct (map ID rs) \<and> set rs = {r \<in> ran (content s). pending_overdue now r}"
    and active_frame: "good s \<Longrightarrow> active_expired now s = (z, s') \<Longrightarrow> good s' \<and> content s' = content s"
    and active_ok: "good s \<Longrightarrow> active_expired now s = (Inr rs, s') \<Longrightarrow>
          distinct (map ID rs) \<and> set rs = {r \<in> ran (content s). active_overdue now r}"

text \<open>A store that is up: the operations succeed where their precondition holds.\<close>

locale request_store_up = request_store +
  fixes up :: "'a \<Rightarrow> bool"
  assumes create_up: "up s \<Longrightarrow> good s \<Longrightarrow> storable_req r \<Longrightarrow> create r s = (x, s') \<Longrightarrow>
          up s' \<and> (content s (ID r) = None \<longrightarrow> x = Inr ())"
    and get_up: "up s \<Longrightarrow> good s \<Longrightarrow> get i s = (y, s') \<Longrightarrow>
          up s' \<and> (content s i = Some r \<longrightarrow> y = Inr r)"
    and update_up: "up s \<Longrightarrow> good s \<Longrightarrow> storable_req r \<Longrightarrow> update r s = (x, s') \<Longrightarrow>
          up s' \<and> (content s (ID r) \<noteq> None \<longrightarrow> x = Inr ())"
    and pending_up: "up s \<Longrightarrow> good s \<Longrightarrow> pending_expired now s = (z, s') \<Longrightarrow> up s' \<and> ok z"
    and active_up: "up s \<Longrightarrow> good s \<Longrightarrow> active_expired now s = (z, s') \<Longrightarrow> up s' \<and> ok z"

section \<open>The operations satisfy the contract\<close>

locale service_db =
  sqlite "e_exec E" "e_query E" "e_audit E" tabs
  for E :: "('d, 'k, 'o) env" and tabs :: "'d \<Rightarrow> tables"
begin

lemma run_Create:
  assumes "run E (Create r) w = (x, w')"
  obtains d y where "e_exec E (InsertRequest (row_of r)) (w_db w) = (y, d)"
    "w' = w\<lparr>w_db := d\<rparr>" "x = map_sum id (\<lambda>_. ()) y"
  using assms by (auto simp: Create_def run_simps split: prod.splits sum.splits)

lemma run_Update:
  assumes "run E (Update r) w = (x, w')"
  obtains d y where "e_exec E (update_stmt r) (w_db w) = (y, d)" "w' = w\<lparr>w_db := d\<rparr>"
    "x = (case y of Inl e \<Rightarrow> Inl e
          | Inr (n, _) \<Rightarrow> if n = 0 then Inl (Msg (''request '' @ ID r @ '' not found'')) else Inr ())"
  using assms by (auto simp: Update_def update_stmt_def run_simps split: prod.splits)

lemma run_Get:
  assumes "run E (Get i) w = (x, w')"
  obtains d y where "e_query E (SelectRequest i) (w_db w) = (y, d)" "w' = w\<lparr>w_db := d\<rparr>"
    "x = (case y of Inl e \<Rightarrow> Inl e | Inr [] \<Rightarrow> Inl Sql_NoRows | Inr (row # _) \<Rightarrow> scanRequest row)"
  using assms by (auto simp: Get_def run_simps split: prod.splits)

lemma run_scan_rows:
  assumes "run E (scan_rows q) w = (x, w')"
  obtains d y where "e_query E q (w_db w) = (y, d)" "w' = w\<lparr>w_db := d\<rparr>"
    "x = (case y of Inl e \<Rightarrow> Inl e | Inr rows \<Rightarrow> traverse scanRequest rows)"
  using assms by (auto simp: scan_rows_def run_simps split: prod.splits)

lemma get_correct:
  assumes ok: "store_ok t" and q: "query_sem (SelectRequest i) t rows"
  shows "(case rows of [] \<Rightarrow> Inl Sql_NoRows | row # _ \<Rightarrow> scanRequest row) =
    (case reqs t i of None \<Rightarrow> Inl Sql_NoRows | Some r \<Rightarrow> Inr r)"
proof -
  note qs = store_okD [OF ok]
  have rows: "same_rows rows (map row_of (filter (\<lambda>q. ID q = i) (requests_of t)))"
    using q qs(1) by (simp add: filter_map comp_def)
  show ?thesis
  proof (cases rows)
    case Nil
    with rows have "\<forall>q \<in> set (requests_of t). ID q \<noteq> i"
      by (auto simp: same_rows_def filter_empty_conv)
    with Nil show ?thesis by (simp add: reqs_None_iff [THEN iffD2])
  next
    case (Cons row rest)
    then have "row \<in> set (map row_of (filter (\<lambda>q. ID q = i) (requests_of t)))"
      using same_rows_set [OF rows] by auto
    then obtain r where r: "r \<in> set (requests_of t)" "ID r = i" "row = row_of r" by auto
    then have "reqs t i = Some r" using ok by (simp add: reqs_Some_iff)
    moreover have "storable_req r" using r(1) qs(2) by (simp add: list_all_iff)
    ultimately show ?thesis using Cons r(3) by simp
  qed
qed

lemma before_correct:
  assumes ok: "store_ok t" and now: "now = FormatRFC3339Nano n"
    and q: "query_sem (SelectByStatusBefore st col now) t rows"
    and col: "\<And>r. col_value col (row_of r) = map_option FormatRFC3339Nano (exp r)"
  shows "\<exists>rs. traverse scanRequest rows = Inr rs \<and> distinct (map ID rs) \<and>
    set rs = {r \<in> ran (reqs t). overdue st exp n r}"
proof -
  note qs = store_okD [OF ok]
  let ?P = "overdue st exp n"
  have "(c_status (row_of r) = st \<and>
      (case col_value col (row_of r) of None \<Rightarrow> False | Some v \<Rightarrow> text_le v now)) = ?P r" for r
    by (cases "exp r") (simp_all add: overdue_def col now)
  with q have rows: "same_rows rows (map row_of (filter ?P (requests_of t)))"
    by (simp add: qs(1) filter_map comp_def)
  let ?rs = "map (\<lambda>row. projr (scanRequest row)) rows"
  have scan: "scanRequest row = Inr (projr (scanRequest row))" if "row \<in> set rows" for row
    using that same_rows_set [OF rows] qs(2) by (auto simp: list_all_iff)
  have "map (\<lambda>row. projr (scanRequest row)) (map row_of (filter ?P (requests_of t))) =
      filter ?P (requests_of t)"
    using qs(2) by (auto simp: list_all_iff intro!: map_idI)
  with rows have "mset ?rs = mset (filter ?P (requests_of t))"
    by (metis mset_map same_rows_def)
  then have rs: "same_rows ?rs (filter ?P (requests_of t))" by (simp only: same_rows_def)
  have "distinct (map ID ?rs)"
    by (rule same_rows_map_distinct [OF rs]) (use qs(3) in \<open>rule distinct_map_filter\<close>)
  moreover have "set ?rs = {r \<in> ran (reqs t). ?P r}"
    using same_rows_set [OF rs] ok by (auto simp: ran_reqs)
  moreover have "traverse scanRequest rows = Inr ?rs"
    using scan by (rule traverse_map_Inr)
  ultimately show ?thesis by blast
qed

lemma exec_cases:
  assumes "e_exec E st d = (y, d')"
  shows "(\<exists>n i. y = Inr (n, i) \<and> exec_sem st (tabs d) (n, i) (tabs d')) \<or> (\<exists>e. y = Inl e \<and> tabs d' = tabs d)"
  using exec_ok exec_err assms by (cases y) auto

end

sublocale service_db \<subseteq> request_store
  "\<lambda>r. run E (Create r)" "\<lambda>i. run E (Get i)" "\<lambda>r. run E (Update r)"
  "\<lambda>t. run E (PendingExpired t)" "\<lambda>t. run E (ActiveExpired t)"
  "\<lambda>w. reqs (tabs (w_db w))" "\<lambda>w. store_ok (tabs (w_db w))"
proof (unfold_locales, goal_cases)
  case (1 s i r)
  then show ?case by (auto dest: reqs_ID reqs_storable)
next
  case (2 s r x s')
  from 2(3) obtain d y where "e_exec E (InsertRequest (row_of r)) (w_db s) = (y, d)" "s' = s\<lparr>w_db := d\<rparr>"
    by (rule run_Create)
  with 2(1,2) exec_cases show ?case by (fastforce dest: insert_store_ok(1))
next
  case (3 s r s')
  from 3(3) obtain d y where e: "e_exec E (InsertRequest (row_of r)) (w_db s) = (y, d)" "s' = s\<lparr>w_db := d\<rparr>"
    "Inr () = map_sum id (\<lambda>_. ()) y"
    by (rule run_Create)
  then obtain n where "y = Inr n" by (cases y) auto
  with exec_ok e(1) have "exec_sem (InsertRequest (row_of r)) (tabs (w_db s)) n (tabs d)" by simp
  from insert_store_ok(2,3) [OF 3(1,2) this] show ?case by (simp add: e(2))
next
  case (4 s r e s')
  from 4(2) obtain d y where "e_exec E (InsertRequest (row_of r)) (w_db s) = (y, d)" "s' = s\<lparr>w_db := d\<rparr>"
    "Inl e = map_sum id (\<lambda>_. ()) y"
    by (rule run_Create)
  then show ?case by (cases y) (auto dest: exec_err)
next
  case (5 s i y s')
  from 5(2) show ?case by (elim run_Get) (use 5(1) query_frame in auto)
next
  case (6 s i r s')
  from 6(2) obtain d y where g: "e_query E (SelectRequest i) (w_db s) = (y, d)"
    "Inr r = (case y of Inl e \<Rightarrow> Inl e | Inr [] \<Rightarrow> Inl Sql_NoRows | Inr (row # _) \<Rightarrow> scanRequest row)"
    by (rule run_Get)
  then obtain rows where "y = Inr rows" by (cases y) auto
  with g query_ok get_correct [OF 6(1)] show ?case by (force split: option.splits)
next
  case (7 s r x s')
  from 7(3) obtain d y where "e_exec E (update_stmt r) (w_db s) = (y, d)" "s' = s\<lparr>w_db := d\<rparr>"
    by (rule run_Update)
  with 7(1,2) exec_cases show ?case by (fastforce dest: update_store_ok(1))
next
  case (8 s r s')
  from 8(3) obtain d y where u: "e_exec E (update_stmt r) (w_db s) = (y, d)" "s' = s\<lparr>w_db := d\<rparr>"
    "Inr () = (case y of Inl e \<Rightarrow> Inl e
          | Inr (n, _) \<Rightarrow> if n = 0 then Inl (Msg (''request '' @ ID r @ '' not found'')) else Inr ())"
    by (rule run_Update)
  then obtain n i where "y = Inr (n, i)" "n \<noteq> 0" by (cases y) (auto split: if_splits)
  with exec_ok u(1) have "exec_sem (update_stmt r) (tabs (w_db s)) (n, i) (tabs d)" by simp
  from update_store_ok(2,3) [OF 8(1,2) this] \<open>n \<noteq> 0\<close> u(2) show ?case by auto
next
  case (9 s r e s')
  from 9(3) obtain d y where u: "e_exec E (update_stmt r) (w_db s) = (y, d)" "s' = s\<lparr>w_db := d\<rparr>"
    "Inl e = (case y of Inl e \<Rightarrow> Inl e
          | Inr (n, _) \<Rightarrow> if n = 0 then Inl (Msg (''request '' @ ID r @ '' not found'')) else Inr ())"
    by (rule run_Update)
  from exec_cases [OF u(1)] show ?case
  proof (elim disjE exE conjE)
    fix n i
    assume y: "y = Inr (n, i)" and sem: "exec_sem (update_stmt r) (tabs (w_db s)) (n, i) (tabs d)"
    with u(3) have "n = 0" by (auto split: if_splits)
    with update_store_ok(2,3) [OF 9(1,2) sem] show ?thesis by (simp add: u(2))
  qed (simp add: u(2))
next
  case (10 s now z s')
  from 10(2) show ?case
    unfolding PendingExpired_def byStatusBefore_def
    by (elim run_scan_rows) (use 10(1) query_frame in auto)
next
  case (11 s now rs s')
  from 11(2) obtain d y where
    g: "e_query E (SelectByStatusBefore StatusPending Col_request_expires_at (FormatRFC3339Nano now)) (w_db s) = (y, d)"
    "Inr rs = (case y of Inl e \<Rightarrow> Inl e | Inr rows \<Rightarrow> traverse scanRequest rows)"
    unfolding PendingExpired_def byStatusBefore_def by (rule run_scan_rows)
  then obtain rows where "y = Inr rows" by (cases y) auto
  with g query_ok before_correct [OF 11(1) refl, where st = StatusPending and
      col = Col_request_expires_at and exp = "\<lambda>r. Some (RequestExpiresAt r)" and n = now and rows = rows]
  show ?case by (force simp: row_of_def)
next
  case (12 s now z s')
  from 12(2) show ?case
    unfolding ActiveExpired_def byStatusBefore_def
    by (elim run_scan_rows) (use 12(1) query_frame in auto)
next
  case (13 s now rs s')
  from 13(2) obtain d y where
    g: "e_query E (SelectByStatusBefore StatusApproved Col_active_expires_at (FormatRFC3339Nano now)) (w_db s) = (y, d)"
    "Inr rs = (case y of Inl e \<Rightarrow> Inl e | Inr rows \<Rightarrow> traverse scanRequest rows)"
    unfolding ActiveExpired_def byStatusBefore_def by (rule run_scan_rows)
  then obtain rows where "y = Inr rows" by (cases y) auto
  with g query_ok before_correct [OF 13(1) refl, where st = StatusApproved and
      col = Col_active_expires_at and exp = ActiveExpiresAt and n = now and rows = rows]
  show ?case by (force simp: row_of_def nullTime_def)
qed

section \<open>An engine that is up\<close>

locale service_db_up =
  sqlite_up "e_exec E" "e_query E" "e_audit E" tabs healthy
  for E :: "('d, 'k, 'o) env" and tabs :: "'d \<Rightarrow> tables" and healthy :: "'d \<Rightarrow> bool"

sublocale service_db_up \<subseteq> service_db
  by unfold_locales

context service_db_up
begin

lemma exec_succeeds:
  "healthy d \<Longrightarrow> exec_sem st (tabs d) n t \<Longrightarrow> e_exec E st d = (y, d') \<Longrightarrow> \<exists>m. y = Inr m"
  using exec_up [of d st n t] by (cases y) auto

lemma query_succeeds:
  "healthy d \<Longrightarrow> query_sem q (tabs d) rows \<Longrightarrow> e_query E q d = (y, d') \<Longrightarrow> \<exists>rows. y = Inr rows"
  using query_up [of d q rows] by (cases y) auto

lemma before_succeeds:
  assumes "healthy (w_db w)" "store_ok (tabs (w_db w))"
    "run E (byStatusBefore st col now) w = (z, w')"
    and col: "\<And>r. col_value col (row_of r) = map_option FormatRFC3339Nano (exp r)"
  shows "healthy (w_db w') \<and> ok z"
proof -
  let ?q = "SelectByStatusBefore st col (FormatRFC3339Nano now)"
  from assms(3) obtain d y where g: "e_query E ?q (w_db w) = (y, d)" "w' = w\<lparr>w_db := d\<rparr>"
    "z = (case y of Inl e \<Rightarrow> Inl e | Inr rows \<Rightarrow> traverse scanRequest rows)"
    unfolding byStatusBefore_def by (rule run_scan_rows)
  have "query_sem ?q (tabs (w_db w))
      (filter (\<lambda>r. c_status r = st \<and>
            (case col_value col r of None \<Rightarrow> False | Some v \<Rightarrow> text_le v (FormatRFC3339Nano now)))
        (t_requests (tabs (w_db w))))"
    using assms(2) by (simp add: store_ok_def)
  from query_succeeds [OF assms(1) this g(1)] obtain rows where y: "y = Inr rows" by blast
  have "query_sem ?q (tabs (w_db w)) rows" by (rule query_ok) (use g(1) y in simp)
  from before_correct [OF assms(2) refl this col] y g query_healthy [OF assms(1)]
  show ?thesis by auto
qed

end

sublocale service_db_up \<subseteq> request_store_up
  "\<lambda>r. run E (Create r)" "\<lambda>i. run E (Get i)" "\<lambda>r. run E (Update r)"
  "\<lambda>t. run E (PendingExpired t)" "\<lambda>t. run E (ActiveExpired t)"
  "\<lambda>w. reqs (tabs (w_db w))" "\<lambda>w. store_ok (tabs (w_db w))" "\<lambda>w. healthy (w_db w)"
proof (unfold_locales, goal_cases)
  case (1 s r x s')
  from 1(4) obtain d y where c: "e_exec E (InsertRequest (row_of r)) (w_db s) = (y, d)" "s' = s\<lparr>w_db := d\<rparr>"
    "x = map_sum id (\<lambda>_. ()) y"
    by (rule run_Create)
  have "\<exists>t'. exec_sem (InsertRequest (row_of r)) (tabs (w_db s)) (1, 0) t'"
    if "reqs (tabs (w_db s)) (ID r) = None"
    using 1(2) that store_okD(1) [OF 1(2)]
    by (auto simp: store_ok_def reqs_None_iff image_image image_iff)
  with exec_succeeds [OF 1(1) _ c(1)] exec_healthy [OF 1(1) c(1)] c(2,3) show ?case by fastforce
next
  case (2 s i y s' r)
  from 2(3) obtain d z where g: "e_query E (SelectRequest i) (w_db s) = (z, d)" "s' = s\<lparr>w_db := d\<rparr>"
    "y = (case z of Inl e \<Rightarrow> Inl e | Inr [] \<Rightarrow> Inl Sql_NoRows | Inr (row # _) \<Rightarrow> scanRequest row)"
    by (rule run_Get)
  have "query_sem (SelectRequest i) (tabs (w_db s)) (filter (\<lambda>r. c_id r = i) (t_requests (tabs (w_db s))))"
    using 2(2) by (simp add: store_ok_def)
  from query_succeeds [OF 2(1) this g(1)] obtain rows where z: "z = Inr rows" by blast
  with query_ok [of "SelectRequest i" "w_db s" rows d] g have
    "y = (case reqs (tabs (w_db s)) i of None \<Rightarrow> Inl Sql_NoRows | Some r \<Rightarrow> Inr r)"
    using get_correct [OF 2(2)] by auto
  with g(2) query_healthy [OF 2(1) g(1)] show ?case by simp
next
  case (3 s r x s')
  from 3(4) obtain d y where u: "e_exec E (update_stmt r) (w_db s) = (y, d)" "s' = s\<lparr>w_db := d\<rparr>"
    "x = (case y of Inl e \<Rightarrow> Inl e
          | Inr (n, _) \<Rightarrow> if n = 0 then Inl (Msg (''request '' @ ID r @ '' not found'')) else Inr ())"
    by (rule run_Update)
  have "\<exists>n t'. exec_sem (update_stmt r) (tabs (w_db s)) (n, 0) t'"
    using 3(2) by (simp add: update_stmt_def store_ok_def)
  then obtain n i where y: "y = Inr (n, i)" using exec_succeeds [OF 3(1) _ u(1)] by fastforce
  with exec_ok u(1) have "exec_sem (update_stmt r) (tabs (w_db s)) (n, i) (tabs d)" by simp
  from update_store_ok(3) [OF 3(2,3) this] exec_healthy [OF 3(1) u(1)] u(2,3) y show ?case by simp
next
  case (4 s now z s')
  then show ?case
    using before_succeeds [where col = Col_request_expires_at and exp = "\<lambda>r. Some (RequestExpiresAt r)"]
    by (simp add: PendingExpired_def row_of_def)
next
  case (5 s now z s')
  then show ?case
    using before_succeeds [where col = Col_active_expires_at and exp = ActiveExpiresAt]
    by (simp add: ActiveExpired_def row_of_def nullTime_def)
qed

end
