(* ===== verification/AuditLog.thy ===== *)
theory AuditLog
  imports Store
begin

text \<open>
  \<open>internal/store/audit.go\<close>: the audit events.  \<open>AppendAudit\<close> stamps an event that has no
  time and inserts it, \<open>ListAudit\<close> reads the newest events that match a filter.  Abstractly
  the table is the list of events in the order they were appended (\<open>events_of\<close>), and the
  locale \<open>audit_log\<close> is the contract: append adds one event at the end or nothing, list
  returns what the filter keeps, newest first, and changes nothing.
\<close>

section \<open>Events\<close>

record AuditEvent =
  EvID :: int
  EvAt :: time
  EvAction :: string
  EvActor :: string
  EvSubject :: string
  EvRequestID :: string
  EvJustification :: string
  EvDetail :: string
  EvBreakGlass :: bool

record AuditFilter =
  FiRequestID :: string
  FiActor :: string
  FiBreakGlass :: "bool option"
  FiLimit :: int

definition bool_int :: "bool \<Rightarrow> int" where
  "bool_int b = (if b then 1 else 0)"

definition audit_row_of :: "AuditEvent \<Rightarrow> audit_row" where
  "audit_row_of e =
     \<lparr>a_id = EvID e, a_at = FormatRFC3339Nano (EvAt e), a_action = EvAction e,
      a_actor = EvActor e, a_subject = EvSubject e, a_request_id = EvRequestID e,
      a_justification = EvJustification e, a_detail = EvDetail e,
      a_break_glass = bool_int (EvBreakGlass e)\<rparr>"

definition AppendAudit :: "AuditEvent \<Rightarrow> (error + AuditEvent) prog" where
  "AppendAudit e0 =
     bnd (if EvAt e0 = zero_time then bnd time_now (\<lambda>t. Ret (e0\<lparr>EvAt := t\<rparr>)) else Ret e0) (\<lambda>e.
     bnd (sql_exec (InsertAudit (audit_row_of e))) (\<lambda>res.
     Ret (case res of Inl x \<Rightarrow> Inl x | Inr (n, i) \<Rightarrow> Inr (e\<lparr>EvID := i\<rparr>))))"

definition scanAudit :: "audit_row \<Rightarrow> error + AuditEvent" where
  "scanAudit row =
     (case ParseRFC3339Nano (a_at row) of
        Inl e \<Rightarrow> Inl e
      | Inr t \<Rightarrow>
          Inr \<lparr>EvID = a_id row, EvAt = t, EvAction = a_action row, EvActor = a_actor row,
               EvSubject = a_subject row, EvRequestID = a_request_id row,
               EvJustification = a_justification row, EvDetail = a_detail row,
               EvBreakGlass = (a_break_glass row \<noteq> 0)\<rparr>)"

text \<open>The limit that is used, and the query with the conditions the filter adds.\<close>

definition audit_limit :: "int \<Rightarrow> int" where
  "audit_limit l = (if l \<le> 0 \<or> l > 500 then 100 else l)"

definition audit_select :: "AuditFilter \<Rightarrow> audit_query" where
  "audit_select f =
     SelectAudit (nullStr (FiRequestID f)) (nullStr (FiActor f))
       (map_option bool_int (FiBreakGlass f)) (audit_limit (FiLimit f))"

definition ListAudit :: "AuditFilter \<Rightarrow> (error + AuditEvent list) prog" where
  "ListAudit f =
     bnd (sql_audit (audit_select f)) (\<lambda>res.
     Ret (case res of Inl e \<Rightarrow> Inl e | Inr rows \<Rightarrow> traverse scanAudit rows))"

section \<open>The table as a list of events\<close>

definition storable_event :: "AuditEvent \<Rightarrow> bool" where
  "storable_event e \<longleftrightarrow> storable (EvAt e)"

definition events_of :: "tables \<Rightarrow> AuditEvent list" where
  "events_of t = map (\<lambda>row. projr (scanAudit row)) (t_audit t)"

definition audit_ok :: "tables \<Rightarrow> bool" where
  "audit_ok t \<longleftrightarrow>
     has_audit t \<and>
     (\<exists>es. t_audit t = map audit_row_of es \<and> list_all storable_event es \<and>
           sorted_wrt (\<lambda>x y. EvID x < EvID y) es \<and> list_all (\<lambda>e. EvID e \<le> t_seq t) es)"

text \<open>What a filter keeps.\<close>

definition event_match :: "AuditFilter \<Rightarrow> AuditEvent \<Rightarrow> bool" where
  "event_match f e \<longleftrightarrow>
     (FiRequestID f = [] \<or> EvRequestID e = FiRequestID f) \<and>
     (FiActor f = [] \<or> EvActor e = FiActor f) \<and>
     (case FiBreakGlass f of None \<Rightarrow> True | Some b \<Rightarrow> EvBreakGlass e = b)"

definition newest :: "AuditFilter \<Rightarrow> AuditEvent list \<Rightarrow> AuditEvent list" where
  "newest f es = take (nat (audit_limit (FiLimit f))) (rev (filter (event_match f) es))"

lemma scan_audit_row [simp]: "storable_event e \<Longrightarrow> scanAudit (audit_row_of e) = Inr e"
  by (simp add: scanAudit_def audit_row_of_def storable_event_def parse_format bool_int_def)

lemma events_of_rows:
  "list_all storable_event es \<Longrightarrow> t_audit t = map audit_row_of es \<Longrightarrow> events_of t = es"
  by (auto simp: events_of_def list_all_iff intro!: map_idI)

lemma audit_okD:
  assumes "audit_ok t"
  shows "t_audit t = map audit_row_of (events_of t)" "list_all storable_event (events_of t)"
    "sorted_wrt (\<lambda>x y. EvID x < EvID y) (events_of t)"
    "list_all (\<lambda>e. EvID e \<le> t_seq t) (events_of t)"
  using assms by (auto simp: audit_ok_def dest: events_of_rows)

lemma match_row:
  "audit_match (nullStr (FiRequestID f)) (nullStr (FiActor f)) (map_option bool_int (FiBreakGlass f))
     (audit_row_of e) = event_match f e"
  by (auto simp: audit_match_def event_match_def audit_row_of_def nullStr_def bool_int_def
      split: option.splits)

lemma append_audit_ok:
  assumes ok: "audit_ok t" and e: "storable_event e"
    and sem: "exec_sem (InsertAudit (audit_row_of e)) t (n, i) t'"
  shows "audit_ok t'" "events_of t' = events_of t @ [e\<lparr>EvID := i\<rparr>]" "t_seq t < i"
proof -
  note es = audit_okD [OF ok]
  let ?es = "events_of t @ [e\<lparr>EvID := i\<rparr>]"
  have t': "t' = t\<lparr>t_audit := map audit_row_of ?es, t_seq := i\<rparr>" and i: "t_seq t < i"
    using sem es(1) by (auto simp: audit_row_of_def)
  have all: "list_all storable_event ?es" using es(2) e by (simp add: storable_event_def)
  show "events_of t' = ?es" by (rule events_of_rows [OF all]) (simp add: t')
  have "sorted_wrt (\<lambda>x y. EvID x < EvID y) ?es"
    using es(3,4) i by (auto simp: sorted_wrt_append list_all_iff)
  moreover have "list_all (\<lambda>e. EvID e \<le> i) ?es" using es(4) i by (auto simp: list_all_iff)
  ultimately show "audit_ok t'"
    using all ok unfolding audit_ok_def by (intro conjI exI [of _ ?es]) (simp_all add: t')
  show "t_seq t < i" by (rule i)
qed

lemma list_audit_ok:
  assumes ok: "audit_ok t" and sem: "audit_sem (audit_select f) t rows"
  shows "traverse scanAudit rows = Inr (newest f (events_of t))"
proof -
  note es = audit_okD [OF ok]
  have rows: "rows = map audit_row_of (newest f (events_of t))"
    using sem by (simp add: audit_select_def newest_def es(1) filter_map comp_def match_row
        rev_map take_map)
  have st: "storable_event e" if "e \<in> set (newest f (events_of t))" for e
    using es(2) that by (auto simp: newest_def list_all_iff dest: in_set_takeD)
  have "map (\<lambda>row. projr (scanAudit row)) rows = newest f (events_of t)"
    using st by (auto simp: rows intro!: map_idI)
  moreover have "traverse scanAudit rows = Inr (map (\<lambda>row. projr (scanAudit row)) rows)"
    using st by (intro traverse_map_Inr) (auto simp: rows)
  ultimately show ?thesis by simp
qed

section \<open>The contract of the log\<close>

locale audit_log =
  fixes append :: "AuditEvent \<Rightarrow> 's \<Rightarrow> (error + AuditEvent) \<times> 's"
    and list_events :: "AuditFilter \<Rightarrow> 's \<Rightarrow> (error + AuditEvent list) \<times> 's"
    and events :: "'s \<Rightarrow> AuditEvent list"
    and well :: "'s \<Rightarrow> bool"
    and clock_ok :: "'s \<Rightarrow> bool"
  assumes append_ok: "well s \<Longrightarrow> clock_ok s \<Longrightarrow> storable_event e \<Longrightarrow> append e s = (Inr e', s') \<Longrightarrow>
          well s' \<and> events s' = events s @ [e'] \<and> e' = e\<lparr>EvID := EvID e', EvAt := EvAt e'\<rparr> \<and>
          (\<forall>x \<in> set (events s). EvID x < EvID e')"
    and append_err: "well s \<Longrightarrow> append e s = (Inl x, s') \<Longrightarrow> well s' \<and> events s' = events s"
    and list_ok: "well s \<Longrightarrow> list_events f s = (Inr es, s') \<Longrightarrow> es = newest f (events s)"
    and list_frame: "well s \<Longrightarrow> list_events f s = (z, s') \<Longrightarrow> well s' \<and> events s' = events s"
begin

text \<open>Events are never changed or removed, and an event that was appended is the first one a
  search for its request returns.\<close>

lemma append_extends:
  assumes "well s" "clock_ok s" "storable_event e" "append e s = (x, s')"
  shows "well s' \<and> (\<exists>new. events s' = events s @ new \<and> length new = of_bool (ok x))"
proof (cases x)
  case (Inl z)
  with append_err [OF assms(1)] assms(4) show ?thesis by auto
next
  case (Inr e')
  with append_ok [OF assms(1-3)] assms(4) show ?thesis by auto
qed

lemma list_bounded:
  assumes "well s" "list_events f s = (Inr es, s')"
  shows "length es \<le> 500 \<and> (FiLimit f \<in> {1..500} \<longrightarrow> int (length es) \<le> FiLimit f) \<and>
    (\<forall>e \<in> set es. e \<in> set (events s) \<and> event_match f e)"
proof -
  have es: "es = newest f (events s)" using list_ok [OF assms] .
  have len: "length es \<le> nat (audit_limit (FiLimit f))" by (simp add: es newest_def)
  have "\<forall>e \<in> set es. e \<in> set (events s) \<and> event_match f e"
    by (auto simp: es newest_def dest!: in_set_takeD)
  moreover have "length es \<le> 500" using len by (auto simp: audit_limit_def split: if_splits)
  moreover have "int (length es) \<le> FiLimit f" if "FiLimit f \<in> {1..500}"
    using len that by (auto simp: audit_limit_def)
  ultimately show ?thesis by blast
qed

lemma append_then_list:
  assumes "well s" "clock_ok s" "storable_event e" "append e s = (Inr e', s')"
    and "event_match f e" "list_events f s' = (Inr es, s'')"
  shows "\<exists>older. es = e' # older \<and> list_all (event_match f) older"
proof -
  from append_ok [OF assms(1-4)] have w: "well s'" and ev: "events s' = events s @ [e']"
    and e': "e' = e\<lparr>EvID := EvID e', EvAt := EvAt e'\<rparr>" by auto
  have "event_match f e'" using assms(5) by (subst e') (simp add: event_match_def split: option.splits)
  moreover have "0 < audit_limit (FiLimit f)" by (simp add: audit_limit_def)
  then obtain k where "nat (audit_limit (FiLimit f)) = Suc k"
    by (metis gr0_conv_Suc zero_less_nat_eq)
  ultimately show ?thesis
    using list_ok [OF w assms(6)]
    by (auto simp: newest_def ev list_all_iff dest: in_set_takeD)
qed

end

section \<open>The operations satisfy the contract\<close>

definition clock_storable :: "('d, 'k, 'o) env \<Rightarrow> ('d, 'k, 'o) world \<Rightarrow> bool" where
  "clock_storable E w \<longleftrightarrow> storable (fst (e_now E (w_other w)))"

context service_db
begin

lemma run_AppendAudit:
  assumes "run E (AppendAudit e) w = (x, w')"
  obtains e1 d y o1 where
    "e1 = (if EvAt e = zero_time then e\<lparr>EvAt := fst (e_now E (w_other w))\<rparr> else e)"
    "e_exec E (InsertAudit (audit_row_of e1)) (w_db w) = (y, d)"
    "w' = w\<lparr>w_db := d, w_other := o1\<rparr>"
    "o1 = (if EvAt e = zero_time then snd (e_now E (w_other w)) else w_other w)"
    "x = (case y of Inl z \<Rightarrow> Inl z | Inr (n, i) \<Rightarrow> Inr (e1\<lparr>EvID := i\<rparr>))"
  using assms by (auto simp: AppendAudit_def run_simps split: prod.splits if_splits)

lemma run_ListAudit:
  assumes "run E (ListAudit f) w = (z, w')"
  obtains d y where "e_audit E (audit_select f) (w_db w) = (y, d)" "w' = w\<lparr>w_db := d\<rparr>"
    "z = (case y of Inl e \<Rightarrow> Inl e | Inr rows \<Rightarrow> traverse scanAudit rows)"
  using assms by (auto simp: ListAudit_def run_simps split: prod.splits)

end

sublocale service_db \<subseteq> audit_log
  "\<lambda>e. run E (AppendAudit e)" "\<lambda>f. run E (ListAudit f)"
  "\<lambda>w. events_of (tabs (w_db w))" "\<lambda>w. audit_ok (tabs (w_db w))" "clock_storable E"
proof (unfold_locales, goal_cases)
  case (1 s e e' s')
  from 1(4) obtain e1 d y o1 where a:
    "e1 = (if EvAt e = zero_time then e\<lparr>EvAt := fst (e_now E (w_other s))\<rparr> else e)"
    "e_exec E (InsertAudit (audit_row_of e1)) (w_db s) = (y, d)" "s' = s\<lparr>w_db := d, w_other := o1\<rparr>"
    "Inr e' = (case y of Inl z \<Rightarrow> Inl z | Inr (n, i) \<Rightarrow> Inr (e1\<lparr>EvID := i\<rparr>))"
    by (rule run_AppendAudit)
  then obtain n i where y: "y = Inr (n, i)" by (cases y) auto
  have e1: "storable_event e1"
    using 1(2,3) by (simp add: a(1) storable_event_def clock_storable_def)
  have "exec_sem (InsertAudit (audit_row_of e1)) (tabs (w_db s)) (n, i) (tabs d)"
    by (rule exec_ok) (use a(2) y in simp)
  note post = append_audit_ok [OF 1(1) e1 this]
  have "\<forall>x \<in> set (events_of (tabs (w_db s))). EvID x < i"
    using audit_okD(4) [OF 1(1)] post(3) by (auto simp: list_all_iff)
  with post a y show ?case by simp
next
  case (2 s e x s')
  from 2(2) obtain e1 d y o1 where a:
    "e_exec E (InsertAudit (audit_row_of e1)) (w_db s) = (y, d)" "s' = s\<lparr>w_db := d, w_other := o1\<rparr>"
    "Inl x = (case y of Inl z \<Rightarrow> Inl z | Inr (n, i) \<Rightarrow> Inr (e1\<lparr>EvID := i\<rparr>))"
    by (rule run_AppendAudit)
  then obtain z where "y = Inl z" by (cases y) auto
  with a 2(1) exec_err show ?case by simp
next
  case (3 s f es s')
  from 3(2) obtain d y where a: "e_audit E (audit_select f) (w_db s) = (y, d)"
    "Inr es = (case y of Inl e \<Rightarrow> Inl e | Inr rows \<Rightarrow> traverse scanAudit rows)"
    by (rule run_ListAudit)
  then obtain rows where y: "y = Inr rows" by (cases y) auto
  have "audit_sem (audit_select f) (tabs (w_db s)) rows" by (rule audit_ok) (use a y in simp)
  from list_audit_ok [OF 3(1) this] a y show ?case by simp
next
  case (4 s f z s')
  from 4(2) show ?case by (elim run_ListAudit) (use 4(1) audit_frame in auto)
qed

end
