(* ===== verification/Notify.thy ===== *)
theory Notify
  imports Store Json
begin

text \<open>
  \<open>internal/store/notify.go\<close> and \<open>internal/notify/notify.go\<close>: the marks in the table
  \<open>notifications\<close> and the messages to the incoming webhook.  The contract of the marks is
  the locale \<open>mark_table\<close>: \<open>TryMarkNotified\<close> answers \<open>True\<close> once for a pair of request
  and kind.  \<open>NotifyOnce\<close> posts only after such an answer.
\<close>

section \<open>Marks\<close>

definition TryMarkNotified :: "string \<Rightarrow> string \<Rightarrow> (error + bool) prog" where
  "TryMarkNotified requestID kind =
     bnd time_now (\<lambda>now.
     bnd (sql_exec (InsertNotification
            \<lparr>n_request_id = requestID, n_kind = kind, n_sent_at = FormatRFC3339Nano now\<rparr>)) (\<lambda>res.
     Ret (case res of Inl e \<Rightarrow> Inl e | Inr (n, _) \<Rightarrow> Inr (n = 1))))"

definition marks :: "tables \<Rightarrow> (string \<times> string) set" where
  "marks t = notif_key ` set (t_notifs t)"

definition notif_ok :: "tables \<Rightarrow> bool" where
  "notif_ok t \<longleftrightarrow> has_notifs t \<and> distinct (map notif_key (t_notifs t))"

locale mark_table =
  fixes try_mark :: "string \<Rightarrow> string \<Rightarrow> 's \<Rightarrow> (error + bool) \<times> 's"
    and marked :: "'s \<Rightarrow> (string \<times> string) set"
  assumes mark_new: "try_mark i k s = (Inr True, s') \<Longrightarrow> (i, k) \<notin> marked s \<and> marked s' = insert (i, k) (marked s)"
    and mark_old: "try_mark i k s = (Inr False, s') \<Longrightarrow> (i, k) \<in> marked s \<and> marked s' = marked s"
    and mark_err: "try_mark i k s = (Inl e, s') \<Longrightarrow> marked s' = marked s"
begin

lemma mark_mono: "try_mark i k s = (x, s') \<Longrightarrow> marked s \<subseteq> marked s'"
proof -
  assume m: "try_mark i k s = (x, s')"
  show ?thesis
  proof (cases x)
    case (Inl e)
    with m mark_err show ?thesis by auto
  next
    case (Inr b)
    with m mark_new mark_old show ?thesis by (cases b) auto
  qed
qed

text \<open>The answers to a sequence of attempts on one pair: \<open>True\<close> at most once.\<close>

fun attempts :: "string \<Rightarrow> string \<Rightarrow> nat \<Rightarrow> 's \<Rightarrow> (error + bool) list" where
  "attempts i k 0 s = []"
| "attempts i k (Suc n) s = (case try_mark i k s of (x, s') \<Rightarrow> x # attempts i k n s')"

lemma attempts_marked: "(i, k) \<in> marked s \<Longrightarrow> Inr True \<notin> set (attempts i k n s)"
proof (induction n arbitrary: s)
  case (Suc n)
  obtain x s' where m: "try_mark i k s = (x, s')" by fastforce
  then have "x \<noteq> Inr True" using Suc.prems mark_new by blast
  moreover have "(i, k) \<in> marked s'" using Suc.prems mark_mono [OF m] by blast
  ultimately show ?case using m Suc.IH by auto
qed simp

lemma attempts_once: "length (filter (\<lambda>x. x = Inr True) (attempts i k n s)) \<le> 1"
proof (induction n arbitrary: s)
  case (Suc n)
  obtain x s' where m: "try_mark i k s = (x, s')" by fastforce
  show ?case
  proof (cases "x = Inr True")
    case True
    with m mark_new have "(i, k) \<in> marked s'" by blast
    from attempts_marked [OF this] have "filter (\<lambda>x. x = Inr True) (attempts i k n s') = []"
      by (auto simp: filter_empty_conv)
    with m True show ?thesis by simp
  next
    case False
    with m Suc.IH show ?thesis by simp
  qed
qed simp

end

lemma mark_exec:
  assumes "exec_sem (InsertNotification r) t (n, i) t'"
  shows "n = 1 \<Longrightarrow> notif_key r \<notin> marks t \<and> marks t' = insert (notif_key r) (marks t)"
    "n \<noteq> 1 \<Longrightarrow> notif_key r \<in> marks t \<and> t' = t" "notif_ok t \<Longrightarrow> notif_ok t'"
proof -
  have new: "t' = t\<lparr>t_notifs := t_notifs t @ [r]\<rparr>" if "notif_key r \<notin> marks t"
    using assms that by (simp add: marks_def)
  have n: "n = 1 \<longleftrightarrow> notif_key r \<notin> marks t"
    using assms by (cases "notif_key r \<in> marks t") (simp_all add: marks_def)
  have old: "t' = t" if "notif_key r \<in> marks t"
    using assms that by (simp add: marks_def)
  show "n = 1 \<Longrightarrow> notif_key r \<notin> marks t \<and> marks t' = insert (notif_key r) (marks t)"
    using n new by (simp add: marks_def)
  show "n \<noteq> 1 \<Longrightarrow> notif_key r \<in> marks t \<and> t' = t" using n old by blast
  show "notif_ok t \<Longrightarrow> notif_ok t'"
    using new old by (cases "notif_key r \<in> marks t") (simp_all add: notif_ok_def marks_def)
qed

context service_db
begin

lemma run_TryMarkNotified:
  assumes "run E (TryMarkNotified i k) w = (x, w')"
  obtains now o1 d y where "e_now E (w_other w) = (now, o1)"
    "e_exec E (InsertNotification
       \<lparr>n_request_id = i, n_kind = k, n_sent_at = FormatRFC3339Nano now\<rparr>) (w_db w) = (y, d)"
    "w' = w\<lparr>w_db := d, w_other := o1\<rparr>"
    "x = (case y of Inl e \<Rightarrow> Inl e | Inr (n, _) \<Rightarrow> Inr (n = 1))"
  using assms by (auto simp: TryMarkNotified_def run_simps split: prod.splits)

lemma mark_cases:
  assumes "run E (TryMarkNotified i k) w = (x, w')"
  shows "case x of
      Inl e \<Rightarrow> tabs (w_db w') = tabs (w_db w)
    | Inr b \<Rightarrow> \<exists>r n j. notif_key r = (i, k) \<and> b = (n = 1) \<and>
        exec_sem (InsertNotification r) (tabs (w_db w)) (n, j) (tabs (w_db w'))"
proof -
  from assms obtain now o1 d y where m:
    "e_exec E (InsertNotification
       \<lparr>n_request_id = i, n_kind = k, n_sent_at = FormatRFC3339Nano now\<rparr>) (w_db w) = (y, d)"
    "w' = w\<lparr>w_db := d, w_other := o1\<rparr>"
    "x = (case y of Inl e \<Rightarrow> Inl e | Inr (n, _) \<Rightarrow> Inr (n = 1))"
    by (rule run_TryMarkNotified)
  let ?r = "\<lparr>n_request_id = i, n_kind = k, n_sent_at = FormatRFC3339Nano now\<rparr>"
  have key: "notif_key ?r = (i, k)" by (simp add: notif_key_def)
  show ?thesis
  proof (cases y)
    case (Inl e)
    with m exec_err [OF m(1) [unfolded Inl]] show ?thesis by simp
  next
    case (Inr p)
    then obtain n j where y: "y = Inr (n, j)" by (cases p) auto
    from exec_ok [OF m(1) [unfolded y]] m(2) have
      "exec_sem (InsertNotification ?r) (tabs (w_db w)) (n, j) (tabs (w_db w'))"
      by (simp del: exec_sem.simps)
    with m(3) y key show ?thesis by (auto simp del: exec_sem.simps)
  qed
qed

end

sublocale service_db \<subseteq> mark_table "\<lambda>i k. run E (TryMarkNotified i k)" "\<lambda>w. marks (tabs (w_db w))"
proof (unfold_locales, goal_cases)
  case (1 i k s s')
  from mark_cases [OF 1] show ?case by (auto simp del: exec_sem.simps dest: mark_exec(1))
next
  case (2 i k s s')
  from mark_cases [OF 2] show ?case by (auto simp del: exec_sem.simps dest: mark_exec(2))
next
  case (3 i k s e s')
  from mark_cases [OF 3] show ?case by simp
qed

section \<open>The notifier\<close>

record notifier =
  webhookURL :: string
  publicURL :: string

definition New :: "string \<Rightarrow> string \<Rightarrow> notifier" where
  "New webhook public =
     \<lparr>webhookURL = TrimSpace webhook, publicURL = TrimRightSlash (TrimSpace public)\<rparr>"

text \<open>A nil notifier is \<open>None\<close>.\<close>

definition Enabled :: "notifier option \<Rightarrow> bool" where
  "Enabled n = (case n of None \<Rightarrow> False | Some x \<Rightarrow> webhookURL x \<noteq> [])"

definition DeepLink :: "notifier \<Rightarrow> string \<Rightarrow> string" where
  "DeepLink n requestID =
     (if publicURL n = [] then [] else publicURL n @ ''/?requestId='' @ requestID)"

definition post :: "notifier \<Rightarrow> string \<Rightarrow> (error + unit) prog" where
  "post n text =
     Webhook \<lparr>hq_method = ''POST'', hq_url = webhookURL n,
              hq_header = [(''Content-Type'', ''application/json'')],
              hq_body = ''{'' @ print_string ''text'' @ '':'' @ print_string text @ ''}''\<rparr>
       (\<lambda>res. Ret (case res of
          Inl e \<Rightarrow> Inl e
        | Inr resp \<Rightarrow>
            (if hp_code resp \<ge> 300
             then Inl (Msg (''webhook '' @ hp_status resp @ '': '' @ take 2048 (hp_body resp)))
             else Inr ())))"

definition NotifyOnce :: "notifier \<Rightarrow> string \<Rightarrow> string \<Rightarrow> string \<Rightarrow> bool prog" where
  "NotifyOnce n requestID kind text =
     (if \<not> Enabled (Some n) then Ret False
      else
        bnd (TryMarkNotified requestID kind) (\<lambda>res. case res of
          Inl e \<Rightarrow>
            bnd (log_line (''notify mark '' @ requestID @ ''/'' @ kind @ '': '' @ error_text e))
              (\<lambda>_. Ret False)
        | Inr first \<Rightarrow>
            (if \<not> first then Ret False
             else
               bnd (post n text) (\<lambda>sent. case sent of
                 Inl e \<Rightarrow>
                   bnd (log_line (''notify send '' @ requestID @ ''/'' @ kind @ '': '' @ error_text e))
                     (\<lambda>_. Ret False)
               | Inr _ \<Rightarrow>
                   bnd (log_line (''notify sent kind='' @ kind @ '' request='' @ requestID))
                     (\<lambda>_. Ret True)))))"

section \<open>The messages\<close>

definition backquote :: string where "backquote = [CHR 0x60]"
definition em_dash :: string where "em_dash = [CHR 0xE2, CHR 0x80, CHR 0x94]"

definition PendingApprovers :: "notifier \<Rightarrow> request \<Rightarrow> bool prog" where
  "PendingApprovers n req =
     NotifyOnce n (ID req) ''pending_approvers''
       ('':lock: *PIM pending approval*'' @ newline @
        ''Requester: '' @ backquote @ Username req @ backquote @ newline @
        ''Justification: '' @ Justification req @ newline @
        ''Expires: '' @ FormatRFC3339 (RequestExpiresAt req) @ newline @
        ''<'' @ DeepLink n (ID req) @ ''|Open in PIM to approve>'')"

definition Approved :: "notifier \<Rightarrow> request \<Rightarrow> bool prog" where
  "Approved n req =
     (let until = (case ActiveExpiresAt req of None \<Rightarrow> [] | Some t \<Rightarrow> FormatRFC3339 t) in
      NotifyOnce n (ID req) ''approved_requester''
       ('':white_check_mark: *PIM approved*'' @ newline @
        ''User '' @ backquote @ Username req @ backquote @ '' elevated by '' @
        backquote @ ApprovedBy req @ backquote @ newline @
        ''Notes: '' @ ApprovalNotes req @ newline @
        ''Active until: '' @ until @ newline @
        ''<'' @ DeepLink n (ID req) @ ''|Open in PIM>''))"

definition RequestExpired :: "notifier \<Rightarrow> request \<Rightarrow> bool prog" where
  "RequestExpired n req =
     NotifyOnce n (ID req) ''expired_requester''
       ('':hourglass: *PIM request expired*'' @ newline @
        ''User '' @ backquote @ Username req @ backquote @ '' '' @ em_dash @
        '' no approval within TTL.'' @ newline @
        ''Justification: '' @ Justification req)"

definition Released :: "notifier \<Rightarrow> request \<Rightarrow> string \<Rightarrow> bool prog" where
  "Released n req reason =
     NotifyOnce n (ID req) (''released_'' @ reason)
       ('':unlock: *PIM access ended* ('' @ reason @ '')'' @ newline @
        ''User '' @ backquote @ Username req @ backquote @ '' removed from admin-active.'' @ newline @
        ''Justification: '' @ Justification req)"

lemmas message_defs = PendingApprovers_def Approved_def RequestExpired_def Released_def Let_def

end
