(* ===== verification/Api.thy ===== *)
theory Api
  imports Auth AuditLog Notify
begin

text \<open>
  \<open>internal/api/api.go\<close>: the service.  A handler is a program that takes a request to a
  response; what \<open>r.PathValue("id")\<close> returns is an argument.  The bodies of requests go
  through \<open>Json\<close>, those of responses are the texts \<open>encoding/json\<close> writes.
\<close>

record service =
  sv_cfg :: config
  sv_kc :: groups
  sv_auth :: "config option"
  sv_notify :: "notifier option"

definition NewService :: "config \<Rightarrow> groups \<Rightarrow> config option \<Rightarrow> notifier option \<Rightarrow> service" where
  "NewService cfg kc am n = \<lparr>sv_cfg = cfg, sv_kc = kc, sv_auth = am, sv_notify = n\<rparr>"

section \<open>Bodies\<close>

definition print_obj :: "(string \<times> string) list \<Rightarrow> string" where
  "print_obj kvs = ''{'' @ print_list (map (\<lambda>(k, v). print_string k @ '':'' @ v) kvs) @ ''}''"

definition print_bool :: "bool \<Rightarrow> string" where
  "print_bool b = (if b then ''true'' else ''false'')"

text \<open>\<open>time.Time.MarshalJSON\<close> refuses years beyond 9999, and then nothing is written.\<close>

definition print_time :: "time \<Rightarrow> string option" where
  "print_time t = (if storable t then Some (print_string (FormatRFC3339Nano t)) else None)"

definition print_null_time :: "time option \<Rightarrow> string option" where
  "print_null_time t = (case t of None \<Rightarrow> Some ''null'' | Some x \<Rightarrow> print_time x)"

definition print_fields :: "(string \<times> string option) list \<Rightarrow> string option" where
  "print_fields kvs =
     (case all_some (map snd kvs) of
        None \<Rightarrow> None
      | Some vs \<Rightarrow> Some (print_obj (zip (map fst kvs) vs)))"

definition request_json :: "request \<Rightarrow> string option" where
  "request_json r = print_fields
     [(''ID'', Some (print_string (ID r))), (''Username'', Some (print_string (Username r))),
      (''Justification'', Some (print_string (Justification r))),
      (''Status'', Some (print_string (Status r))),
      (''CreatedAt'', print_time (CreatedAt r)), (''RequestExpiresAt'', print_time (RequestExpiresAt r)),
      (''ApprovedAt'', print_null_time (ApprovedAt r)),
      (''ApprovedBy'', Some (print_string (ApprovedBy r))),
      (''ApprovalNotes'', Some (print_string (ApprovalNotes r))),
      (''ActiveExpiresAt'', print_null_time (ActiveExpiresAt r)),
      (''ReleasedAt'', print_null_time (ReleasedAt r))]"

definition event_json :: "AuditEvent \<Rightarrow> string option" where
  "event_json e = print_fields
     [(''ID'', Some (dec_int (EvID e))), (''At'', print_time (EvAt e)),
      (''Action'', Some (print_string (EvAction e))), (''Actor'', Some (print_string (EvActor e))),
      (''Subject'', Some (print_string (EvSubject e))),
      (''RequestID'', Some (print_string (EvRequestID e))),
      (''Justification'', Some (print_string (EvJustification e))),
      (''Detail'', Some (print_string (EvDetail e))),
      (''BreakGlass'', Some (print_bool (EvBreakGlass e)))]"

definition array_json :: "string option list \<Rightarrow> string option" where
  "array_json vs = map_option (\<lambda>xs. ''['' @ print_list xs @ '']'') (all_some vs)"

text \<open>\<open>List\<close> returns a nil slice when there is no request, which prints as \<open>null\<close>;
  \<open>ListAudit\<close> returns an empty one.\<close>

definition requests_json :: "request list \<Rightarrow> string option" where
  "requests_json rs = (if rs = [] then Some ''null'' else array_json (map request_json rs))"

definition events_json :: "AuditEvent list \<Rightarrow> string option" where
  "events_json es = array_json (map event_json es)"

definition writeJSON :: "int \<Rightarrow> string option \<Rightarrow> web_response" where
  "writeJSON code v =
     \<lparr>rs_code = code, rs_type = ''application/json'', rs_location = [], rs_cookies = [],
      rs_body = (case v of None \<Rightarrow> [] | Some s \<Rightarrow> s @ newline)\<rparr>"

definition writeErr :: "int \<Rightarrow> error \<Rightarrow> web_response" where
  "writeErr code e = writeJSON code (Some (print_obj [(''error'', print_string (error_text e))]))"

lemma writeJSON_code [simp]: "rs_code (writeJSON c v) = c"
  by (simp add: writeJSON_def)

lemma writeErr_code [simp]: "rs_code (writeErr c e) = c"
  by (simp add: writeErr_def)

definition decode_body :: "(json \<Rightarrow> 'a option) \<Rightarrow> string \<Rightarrow> error + 'a" where
  "decode_body f s = (case parse_first s of Inl e \<Rightarrow> Inl e | Inr j \<Rightarrow> decoded (f j))"

record createRequestBody =
  cb_Username :: string
  cb_Justification :: string

definition create_fields :: "json \<Rightarrow> createRequestBody option" where
  "create_fields j =
     (case members_of j of None \<Rightarrow> None
      | Some ms \<Rightarrow>
          (case field_from as_string ''username'' [] ms of None \<Rightarrow> None
           | Some u \<Rightarrow>
               (case field_from as_string ''justification'' [] ms of None \<Rightarrow> None
                | Some x \<Rightarrow> Some \<lparr>cb_Username = u, cb_Justification = x\<rparr>)))"

definition approve_fields :: "json \<Rightarrow> string option" where
  "approve_fields j =
     (case members_of j of None \<Rightarrow> None | Some ms \<Rightarrow> field_from as_string ''notes'' [] ms)"

definition minJustificationLen :: nat where "minJustificationLen = 8"
definition minApprovalNotesLen :: nat where "minApprovalNotesLen = 8"

section \<open>Helpers\<close>

definition newID :: "string prog" where
  "newID =
     bnd (rand_read 16) (\<lambda>res. Ret (EncodeToHex (
       case res of Inl e \<Rightarrow> replicate 16 (CHR 0x00) | Inr b \<Rightarrow> b)))"

definition actor :: "service \<Rightarrow> web_request \<Rightarrow> string prog" where
  "actor s rq = Actor (sv_auth s) (sv_cfg s) rq"

definition audit ::
  "service \<Rightarrow> string \<Rightarrow> string \<Rightarrow> string \<Rightarrow> string \<Rightarrow> string \<Rightarrow> string \<Rightarrow> bool \<Rightarrow> (error + unit) prog"
where
  "audit s action who subject requestID justification detail breakGlass =
     bnd (AppendAudit
        \<lparr>EvID = 0, EvAt = zero_time, EvAction = action, EvActor = who, EvSubject = subject,
         EvRequestID = requestID, EvJustification = justification, EvDetail = detail,
         EvBreakGlass = breakGlass\<rparr>) (\<lambda>res. case res of
       Inl e \<Rightarrow>
         bnd (log_line (''audit write failed action='' @ action @ '': '' @ error_text e))
           (\<lambda>_. Ret (Inl e))
     | Inr _ \<Rightarrow>
         (if breakGlass then
            bnd (log_line (''ALERT break-glass action='' @ action @ '' actor='' @ who @
                 '' subject='' @ subject @ '' request='' @ requestID)) (\<lambda>_. Ret (Inr ()))
          else Ret (Inr ())))"

definition notifying :: "service \<Rightarrow> (notifier \<Rightarrow> bool prog) \<Rightarrow> unit prog" where
  "notifying s f =
     (case sv_notify s of None \<Rightarrow> Ret () | Some n \<Rightarrow> bnd (f n) (\<lambda>_. Ret ()))"

text \<open>An answer of \<open>InGroup\<close> whose error is ignored.\<close>

definition in_group_or_not :: "service \<Rightarrow> string \<Rightarrow> string \<Rightarrow> bool prog" where
  "in_group_or_not s u g =
     bnd (kc_InGroup (sv_kc s) u g) (\<lambda>r. Ret (case r of Inl e \<Rightarrow> False | Inr b \<Rightarrow> b))"

section \<open>Signing in and out\<close>

definition handleLogin :: "service \<Rightarrow> web_request \<Rightarrow> web_response prog" where
  "handleLogin s rq =
     (case sv_auth s of
        None \<Rightarrow> Ret (http_Error ''OIDC disabled'' StatusNotFound)
      | Some m \<Rightarrow>
          (if \<not> OIDCEnabled (sv_cfg s) then Ret (http_Error ''OIDC disabled'' StatusNotFound)
           else
             bnd (LoginURL m) (\<lambda>u. Ret (case u of
               Inl e \<Rightarrow> writeErr StatusInternalServerError e
             | Inr url \<Rightarrow> http_Redirect rq url StatusFound))))"

definition handleCallback :: "service \<Rightarrow> web_request \<Rightarrow> web_response prog" where
  "handleCallback s rq =
     (case sv_auth s of
        None \<Rightarrow> Ret (http_Error ''OIDC disabled'' StatusNotFound)
      | Some m \<Rightarrow>
          (if \<not> OIDCEnabled (sv_cfg s) then Ret (http_Error ''OIDC disabled'' StatusNotFound)
           else
             bnd (HandleCallback m rq) (\<lambda>c. Ret (case c of
               Inl e \<Rightarrow> writeErr StatusBadRequest e
             | Inr ck \<Rightarrow> with_cookie ck (http_Redirect rq ''/'' StatusFound)))))"

definition handleLogout :: "service \<Rightarrow> web_request \<Rightarrow> web_response prog" where
  "handleLogout s rq =
     (let r = http_Redirect rq ''/'' StatusFound
      in Ret (if sv_auth s \<noteq> None then with_cookie Clear r else r))"

definition handleMe :: "service \<Rightarrow> web_request \<Rightarrow> web_response prog" where
  "handleMe s rq =
     bnd (actor s rq) (\<lambda>who.
       if who = [] then Ret (writeErr StatusUnauthorized (Msg ''not authenticated''))
       else
         bnd (in_group_or_not s who (GroupEligible (sv_cfg s))) (\<lambda>eligible.
         bnd (in_group_or_not s who (GroupPermanent (sv_cfg s))) (\<lambda>permanent.
         bnd (in_group_or_not s who (GroupActive (sv_cfg s))) (\<lambda>active.
         bnd (in_group_or_not s who (GroupBreakGlass (sv_cfg s))) (\<lambda>breakGlass.
         bnd (if breakGlass
              then audit s ''break_glass_session'' who who [] [] ''break-glass user authenticated to PIM'' True
              else Ret (Inr ())) (\<lambda>_.
         Ret (writeJSON StatusOK (Some (print_obj
           [(''active'', print_bool active),
            (''activeTTL'', print_string (Duration_String (ActiveTTL (sv_cfg s)))),
            (''breakGlass'', print_bool breakGlass), (''eligible'', print_bool eligible),
            (''oidcEnabled'', print_bool (OIDCEnabled (sv_cfg s))),
            (''permanent'', print_bool permanent),
            (''requestTTL'', print_string (Duration_String (RequestTTL (sv_cfg s)))),
            (''username'', print_string who)])))))))))"

section \<open>Reading\<close>

text \<open>\<open>strconv.Atoi\<close>.\<close>

definition Atoi :: "string \<Rightarrow> int option" where
  "Atoi s =
     (let (neg, ds) =
        (case s of [] \<Rightarrow> (False, [])
         | c # r \<Rightarrow> if c = CHR ''-'' then (True, r) else if c = CHR ''+'' then (False, r) else (False, s));
          i = (if neg then - int (read_digits ds) else int (read_digits ds))
      in if ds \<noteq> [] \<and> list_all is_digit ds \<and> - (2 ^ 63) \<le> i \<and> i < 2 ^ 63 then Some i else None)"

definition audit_filter :: "(string \<times> string) list \<Rightarrow> AuditFilter" where
  "audit_filter q =
     \<lparr>FiRequestID = lookup ''requestId'' q, FiActor = lookup ''actor'' q,
      FiBreakGlass =
        (let v = lookup ''breakGlass'' q in
         if v = [] then None else Some (v = ''1'' \<or> map to_lower v = ''true'')),
      FiLimit =
        (let l = lookup ''limit'' q in
         if l = [] then 0 else (case Atoi l of None \<Rightarrow> 0 | Some n \<Rightarrow> n))\<rparr>"

definition handleAudit :: "service \<Rightarrow> web_request \<Rightarrow> web_response prog" where
  "handleAudit s rq =
     bnd (ListAudit (audit_filter (rq_query rq))) (\<lambda>res. Ret (case res of
       Inl e \<Rightarrow> writeErr StatusInternalServerError e
     | Inr items \<Rightarrow> writeJSON StatusOK (events_json items)))"

definition handleList :: "service \<Rightarrow> web_request \<Rightarrow> web_response prog" where
  "handleList s rq =
     bnd List_requests (\<lambda>res. Ret (case res of
       Inl e \<Rightarrow> writeErr StatusInternalServerError e
     | Inr items \<Rightarrow> writeJSON StatusOK (requests_json items)))"

definition handleGet :: "service \<Rightarrow> web_request \<Rightarrow> string \<Rightarrow> web_response prog" where
  "handleGet s rq pid =
     bnd (Get pid) (\<lambda>res. Ret (case res of
       Inl e \<Rightarrow> writeErr StatusNotFound e
     | Inr item \<Rightarrow> writeJSON StatusOK (request_json item)))"

section \<open>Asking for access\<close>

text \<open>The body of a new request after trimming and with the actor filled in, or the error.\<close>

definition read_create :: "string \<Rightarrow> string \<Rightarrow> (int \<times> error) + createRequestBody" where
  "read_create who text =
     (case decode_body create_fields text of
        Inl e \<Rightarrow> Inl (StatusBadRequest, e)
      | Inr b \<Rightarrow>
          (let u0 = TrimSpace (cb_Username b); x = TrimSpace (cb_Justification b);
               u = (if u0 = [] then who else u0)
           in if u = [] \<or> x = [] then
                Inl (StatusBadRequest, Msg ''username and justification required'')
              else if length x < minJustificationLen then
                Inl (StatusBadRequest, Msg (''justification must be at least '' @ dec minJustificationLen @ '' characters''))
              else if who \<noteq> [] \<and> who \<noteq> u then
                Inl (StatusForbidden, Msg ''actor may only request for self'')
              else Inr \<lparr>cb_Username = u, cb_Justification = x\<rparr>))"

definition new_request :: "config \<Rightarrow> string \<Rightarrow> createRequestBody \<Rightarrow> time \<Rightarrow> request" where
  "new_request cfg i b now =
     \<lparr>ID = i, Username = cb_Username b, Justification = cb_Justification b, Status = StatusPending,
      CreatedAt = now, RequestExpiresAt = now + RequestTTL cfg, ApprovedAt = None, ApprovedBy = [],
      ApprovalNotes = [], ActiveExpiresAt = None, ReleasedAt = None\<rparr>"

definition handleCreate :: "service \<Rightarrow> web_request \<Rightarrow> web_response prog" where
  "handleCreate s rq =
     bnd (actor s rq) (\<lambda>who.
       case read_create who (rq_body rq) of
         Inl (code, e) \<Rightarrow> Ret (writeErr code e)
       | Inr b \<Rightarrow>
           bnd (kc_InGroup (sv_kc s) (cb_Username b) (GroupEligible (sv_cfg s))) (\<lambda>res. case res of
             Inl e \<Rightarrow> Ret (writeErr StatusBadGateway e)
           | Inr member \<Rightarrow>
               (if \<not> member then
                  Ret (writeErr StatusForbidden
                    (Msg (''user '' @ cb_Username b @ '' is not in '' @ GroupEligible (sv_cfg s))))
                else
                  bnd time_now (\<lambda>now.
                  bnd newID (\<lambda>i.
                  let req = new_request (sv_cfg s) i b now in
                  bnd (Create req) (\<lambda>res. case res of
                    Inl e \<Rightarrow> Ret (writeErr StatusInternalServerError e)
                  | Inr _ \<Rightarrow>
                      bnd (in_group_or_not s (cb_Username b) (GroupBreakGlass (sv_cfg s))) (\<lambda>bg.
                      bnd (audit s ''request_created'' who (cb_Username b) (ID req) (cb_Justification b)
                             ''pending elevation request'' bg) (\<lambda>_.
                      bnd (notifying s (\<lambda>n. PendingApprovers n req)) (\<lambda>_.
                      Ret (writeJSON StatusCreated (request_json req)))))))))))"

section \<open>Approving\<close>

definition read_approve :: "string \<Rightarrow> (int \<times> error) + string" where
  "read_approve text =
     (case decode_body approve_fields text of
        Inl e \<Rightarrow>
          (if e = Io_EOF then Inl (StatusBadRequest, Msg ''approver notes are required'')
           else Inl (StatusBadRequest, e))
      | Inr n \<Rightarrow>
          (let notes = TrimSpace n in
           if notes = [] then Inl (StatusBadRequest, Msg ''approver notes are required'')
           else if length notes < minApprovalNotesLen then
             Inl (StatusBadRequest, Msg (''approver notes must be at least '' @ dec minApprovalNotesLen @ '' characters''))
           else Inr notes))"

definition approved_request :: "config \<Rightarrow> request \<Rightarrow> string \<Rightarrow> string \<Rightarrow> time \<Rightarrow> request" where
  "approved_request cfg req who notes now =
     req\<lparr>Status := StatusApproved, ApprovedAt := Some now, ApprovedBy := who, ApprovalNotes := notes,
         ActiveExpiresAt := Some (now + ActiveTTL cfg)\<rparr>"

text \<open>A request that is found overdue when somebody approves it.\<close>

definition expire_late :: "service \<Rightarrow> request \<Rightarrow> web_response prog" where
  "expire_late s req0 =
     (let req = req0\<lparr>Status := StatusExpired\<rparr> in
      bnd (Update req) (\<lambda>_.
      bnd (audit s ''request_expired'' ''system'' (Username req) (ID req) (Justification req)
             ''expired before approve'' False) (\<lambda>_.
      bnd (notifying s (\<lambda>n. RequestExpired n req)) (\<lambda>_.
      Ret (writeErr StatusConflict (Msg ''request expired''))))))"

text \<open>The grant: the group first, then the row, then the two audit events.\<close>

definition grant :: "service \<Rightarrow> request \<Rightarrow> string \<Rightarrow> string \<Rightarrow> time \<Rightarrow> web_response prog" where
  "grant s req0 who notes now =
     bnd (kc_AddToGroup (sv_kc s) (Username req0) (GroupActive (sv_cfg s))) (\<lambda>res. case res of
       Inl e \<Rightarrow> Ret (writeErr StatusBadGateway e)
     | Inr _ \<Rightarrow>
         (let req = approved_request (sv_cfg s) req0 who notes now in
          bnd (Update req) (\<lambda>res. case res of
            Inl e \<Rightarrow> Ret (writeErr StatusInternalServerError e)
          | Inr _ \<Rightarrow>
              bnd (in_group_or_not s who (GroupBreakGlass (sv_cfg s))) (\<lambda>bg.
              bnd (audit s ''request_approved'' who (Username req) (ID req) (Justification req)
                     (''notes: '' @ notes) bg) (\<lambda>_.
              bnd (audit s ''grant_active'' who (Username req) (ID req) (Justification req)
                     (''user added to '' @ GroupActive (sv_cfg s)) bg) (\<lambda>_.
              bnd (notifying s (\<lambda>n. Approved n req)) (\<lambda>_.
              Ret (writeJSON StatusOK (request_json req)))))))))"

definition handleApprove :: "service \<Rightarrow> web_request \<Rightarrow> string \<Rightarrow> web_response prog" where
  "handleApprove s rq pid =
     bnd (actor s rq) (\<lambda>who.
       if who = [] then Ret (writeErr StatusUnauthorized (Msg ''authentication required''))
       else
         bnd (kc_InGroup (sv_kc s) who (GroupPermanent (sv_cfg s))) (\<lambda>res. case res of
           Inl e \<Rightarrow> Ret (writeErr StatusBadGateway e)
         | Inr member \<Rightarrow>
             (if \<not> member then
                Ret (writeErr StatusForbidden
                  (Msg (''actor '' @ who @ '' is not in '' @ GroupPermanent (sv_cfg s))))
              else (case read_approve (rq_body rq) of
                Inl (code, e) \<Rightarrow> Ret (writeErr code e)
              | Inr notes \<Rightarrow>
                  bnd (Get pid) (\<lambda>res. case res of
                    Inl e \<Rightarrow> Ret (writeErr StatusNotFound e)
                  | Inr req \<Rightarrow>
                      (if Status req \<noteq> StatusPending then
                         Ret (writeErr StatusConflict (Msg (''request status is '' @ Status req)))
                       else
                         bnd time_now (\<lambda>now.
                           if now > RequestExpiresAt req then expire_late s req
                           else grant s req who notes now)))))))"

section \<open>Releasing\<close>

definition released_request :: "request \<Rightarrow> time \<Rightarrow> request" where
  "released_request req now = req\<lparr>Status := StatusReleased, ReleasedAt := Some now\<rparr>"

definition release_reason :: "string \<Rightarrow> string" where
  "release_reason action =
     (if action = ''grant_expired'' then ''expire''
      else if action = ''early_release'' then ''early_release''
      else ''release'')"

definition release :: "service \<Rightarrow> request \<Rightarrow> string \<Rightarrow> string \<Rightarrow> (error + request) prog" where
  "release s req0 who action =
     bnd (kc_RemoveFromGroup (sv_kc s) (Username req0) (GroupActive (sv_cfg s))) (\<lambda>res. case res of
       Inl e \<Rightarrow> Ret (Inl e)
     | Inr _ \<Rightarrow>
         bnd time_now (\<lambda>now.
         let req = released_request req0 now in
         bnd (Update req) (\<lambda>res. case res of
           Inl e \<Rightarrow> Ret (Inl e)
         | Inr _ \<Rightarrow>
             bnd (audit s action (if who = [] then ''system'' else who) (Username req) (ID req)
                    (Justification req) (''removed from '' @ GroupActive (sv_cfg s)) False) (\<lambda>_.
             bnd (notifying s (\<lambda>n. Released n req (release_reason action))) (\<lambda>_.
             Ret (Inr req))))))"

text \<open>Whether the actor may release the request: \<open>None\<close>, or the answer that refuses.\<close>

definition may_release :: "service \<Rightarrow> string \<Rightarrow> request \<Rightarrow> web_response option prog" where
  "may_release s who req =
     (if who \<noteq> [] \<and> who \<noteq> Username req then
        bnd (kc_InGroup (sv_kc s) who (GroupPermanent (sv_cfg s))) (\<lambda>res. Ret (case res of
          Inl e \<Rightarrow> Some (writeErr StatusBadGateway e)
        | Inr perm \<Rightarrow>
            (if \<not> perm then
               Some (writeErr StatusForbidden (Msg ''only subject or admin-permanent can release''))
             else None)))
      else Ret None)"

definition handleRelease :: "service \<Rightarrow> web_request \<Rightarrow> string \<Rightarrow> web_response prog" where
  "handleRelease s rq pid =
     bnd (actor s rq) (\<lambda>who.
     bnd (Get pid) (\<lambda>res. case res of
       Inl e \<Rightarrow> Ret (writeErr StatusNotFound e)
     | Inr req \<Rightarrow>
         (if Status req \<noteq> StatusApproved then
            Ret (writeErr StatusConflict (Msg (''request status is '' @ Status req)))
          else
            bnd (may_release s who req) (\<lambda>refusal. case refusal of
              Some answer \<Rightarrow> Ret answer
            | None \<Rightarrow>
                bnd (release s req who ''early_release'') (\<lambda>res. Ret (case res of
                  Inl e \<Rightarrow> writeErr StatusBadGateway e
                | Inr req' \<Rightarrow> writeJSON StatusOK (request_json req')))))))"

section \<open>Reconciling\<close>

definition expire_one :: "service \<Rightarrow> request \<Rightarrow> unit prog" where
  "expire_one s req0 =
     (let req = req0\<lparr>Status := StatusExpired\<rparr> in
      bnd (Update req) (\<lambda>res. case res of
        Inl e \<Rightarrow> log_line (''expire request '' @ ID req @ '': '' @ error_text e)
      | Inr _ \<Rightarrow>
          bnd (log_line (''expired pending request '' @ ID req @ '' user='' @ Username req)) (\<lambda>_.
          bnd (audit s ''request_expired'' ''system'' (Username req) (ID req) (Justification req)
                 ''request TTL elapsed'' False) (\<lambda>_.
          notifying s (\<lambda>n. RequestExpired n req)))))"

definition revoke_one :: "service \<Rightarrow> request \<Rightarrow> unit prog" where
  "revoke_one s req0 =
     bnd (kc_RemoveFromGroup (sv_kc s) (Username req0) (GroupActive (sv_cfg s))) (\<lambda>res. case res of
       Inl e \<Rightarrow> log_line (''revoke active '' @ ID req0 @ '': '' @ error_text e)
     | Inr _ \<Rightarrow>
         bnd time_now (\<lambda>now.
         let req = released_request req0 now in
         bnd (Update req) (\<lambda>res. case res of
           Inl e \<Rightarrow> log_line (''update released '' @ ID req @ '': '' @ error_text e)
         | Inr _ \<Rightarrow>
             bnd (log_line (''revoked active grant '' @ ID req @ '' user='' @ Username req)) (\<lambda>_.
             bnd (audit s ''grant_expired'' ''system'' (Username req) (ID req) (Justification req)
                    ''active TTL elapsed; revoked'' False) (\<lambda>_.
             notifying s (\<lambda>n. Released n req ''expire''))))))"

definition Reconcile :: "service \<Rightarrow> (error + unit) prog" where
  "Reconcile s =
     bnd time_now (\<lambda>now.
     bnd (PendingExpired now) (\<lambda>res. case res of
       Inl e \<Rightarrow> Ret (Inl e)
     | Inr pending \<Rightarrow>
         bnd (for_each (expire_one s) pending) (\<lambda>_.
         bnd (ActiveExpired now) (\<lambda>res. case res of
           Inl e \<Rightarrow> Ret (Inl e)
         | Inr active \<Rightarrow>
             bnd (for_each (revoke_one s) active) (\<lambda>_. Ret (Inr ()))))))"

section \<open>Routing\<close>

text \<open>The pages: \<open>index\<close> is the embedded page and \<open>files\<close> the server of the other embedded
  files (\<open>internal/ui/ui.go\<close>).\<close>

definition ui_Handler :: "string \<Rightarrow> (web_request \<Rightarrow> web_response) \<Rightarrow> web_request \<Rightarrow> web_response" where
  "ui_Handler index files rq =
     (if rq_path rq = [] \<or> rq_path rq = [''app''] \<or> rq_path rq = [''index.html''] then
        \<lparr>rs_code = StatusOK, rs_type = ''text/html; charset=utf-8'', rs_location = [], rs_cookies = [],
         rs_body = index\<rparr>
      else files rq)"

definition healthz :: web_response where
  "healthz =
     \<lparr>rs_code = StatusOK, rs_type = ''text/plain; charset=utf-8'', rs_location = [], rs_cookies = [],
      rs_body = ''ok''\<rparr>"

text \<open>A pattern for \<open>GET\<close> takes \<open>HEAD\<close> as well; \<open>{id}\<close> takes one segment that is not
  empty; whatever matches no pattern goes to the pages.\<close>

definition is_get :: "web_request \<Rightarrow> bool" where
  "is_get rq \<longleftrightarrow> rq_method rq = ''GET'' \<or> rq_method rq = ''HEAD''"

definition is_post :: "web_request \<Rightarrow> bool" where
  "is_post rq \<longleftrightarrow> rq_method rq = ''POST''"

definition NewRouter ::
  "string \<Rightarrow> (web_request \<Rightarrow> web_response) \<Rightarrow> service \<Rightarrow> web_request \<Rightarrow> web_response prog"
where
  "NewRouter index files s rq =
     (let p = rq_path rq; api = [''api'', ''v1'']; pid = (if length p > 3 then p ! 3 else []);
          one = (length p > 3 \<and> take 3 p = api @ [''requests''] \<and> pid \<noteq> [])
      in if is_get rq \<and> p = [''healthz''] then Ret healthz
         else if is_get rq \<and> p = [''auth'', ''login''] then handleLogin s rq
         else if is_get rq \<and> p = [''auth'', ''callback''] then handleCallback s rq
         else if (is_post rq \<or> is_get rq) \<and> p = [''auth'', ''logout''] then handleLogout s rq
         else if is_get rq \<and> p = api @ [''me''] then handleMe s rq
         else if is_get rq \<and> p = api @ [''requests''] then handleList s rq
         else if is_post rq \<and> p = api @ [''requests''] then handleCreate s rq
         else if is_get rq \<and> one \<and> drop 4 p = [] then handleGet s rq pid
         else if is_post rq \<and> one \<and> drop 4 p = [''approve''] then handleApprove s rq pid
         else if is_post rq \<and> one \<and> drop 4 p = [''release''] then handleRelease s rq pid
         else if is_get rq \<and> p = api @ [''audit''] then handleAudit s rq
         else Ret (ui_Handler index files rq))"

end
