(* ===== verification/Worker.thy ===== *)
theory Worker
  imports Api
begin

text \<open>
  \<open>internal/worker/worker.go\<close> and the start of \<open>cmd/pim/main.go\<close>.  The worker waits for
  the context to end or for the next tick; the sequence of those events is its argument.
  \<open>main_start\<close> is \<open>main\<close> up to the point where the worker and the HTTP server run beside
  each other; \<open>None\<close> when the database does not open.  The rest of \<open>main\<close> and the worker as a
  goroutine are in \<open>Process\<close>.
\<close>

datatype worker_event = Tick | Done

definition tick :: "service \<Rightarrow> unit prog" where
  "tick s =
     bnd (Reconcile s) (\<lambda>res. case res of
       Inl e \<Rightarrow> log_line (''reconcile: '' @ error_text e)
     | Inr _ \<Rightarrow> Ret ())"

fun Run :: "service \<Rightarrow> worker_event list \<Rightarrow> unit prog" where
  "Run s [] = Ret ()"
| "Run s (Done # es) = Ret ()"
| "Run s (Tick # es) = bnd (tick s) (\<lambda>_. Run s es)"

definition make_service :: "config \<Rightarrow> service" where
  "make_service cfg =
     NewService cfg (Client_groups cfg) (Some cfg) (Some (New (NotifyWebhookURL cfg) (PublicURL cfg)))"

definition starting_line :: "config \<Rightarrow> string" where
  "starting_line cfg =
     ''pim starting realm='' @ Realm cfg @ '' kc='' @ BaseURL cfg @ '' publicKC='' @ BrowserIssuer cfg @
     '' requestTTL='' @ Duration_String (RequestTTL cfg) @ '' activeTTL='' @ Duration_String (ActiveTTL cfg) @
     '' oidc='' @ print_bool (OIDCEnabled cfg) @ '' ns-hint=keycloak-pim''"

text \<open>The three constructors set up the memory of the client and of the sessions; \<open>sql_Open\<close> is the
  parameter of \<open>Open\<close>.\<close>

definition main_start :: "(string \<Rightarrow> error option) \<Rightarrow> environment \<Rightarrow> service option prog" where
  "main_start sql_Open os =
     (let cfg = FromEnv os; svc = make_service cfg in
      bnd (log_line (starting_line cfg)) (\<lambda>_.
      bnd (Open sql_Open (DBPath cfg)) (\<lambda>res. case res of
        Inl e \<Rightarrow> bnd (log_line (''db: '' @ error_text e)) (\<lambda>_. Ret None)
      | Inr _ \<Rightarrow>
          PutClient new_client_mem (PutManager new_manager_mem (
          bnd (log_line (''notify webhook enabled='' @ print_bool (Enabled (sv_notify svc)))) (\<lambda>_.
          bnd (Reconcile svc) (\<lambda>res.
          bnd (case res of
                 Inl e \<Rightarrow> log_line (''startup reconcile warning: '' @ error_text e)
               | Inr _ \<Rightarrow> Ret ()) (\<lambda>_. Ret (Some svc)))))))))"

end
