(* ===== verification/Effects.thy ===== *)
theory Effects
  imports Worker
begin

text \<open>
  What the parts of a handler do to the world, seen through the abstractions of the
  components: the map of the requests, the memberships, the list of the audit events and the
  set of the marks.  \<open>fine\<close> is the invariant of the service, \<open>book\<close> says that an operation
  only kept the books (events appended, marks added), and every operation of the handlers
  gets one rule.
\<close>

section \<open>Frames of the statements\<close>

text \<open>The parts of the tables the three components look at.\<close>

definition request_part :: "tables \<Rightarrow> bool \<times> bool \<times> req_row list" where
  "request_part t = (has_requests t, has_notes t, t_requests t)"

definition audit_part :: "tables \<Rightarrow> bool \<times> audit_row list \<times> int" where
  "audit_part t = (has_audit t, t_audit t, t_seq t)"

definition notif_part :: "tables \<Rightarrow> bool \<times> notif_row list" where
  "notif_part t = (has_notifs t, t_notifs t)"

lemmas part_defs = request_part_def audit_part_def notif_part_def

lemma request_part_cong:
  "request_part t' = request_part t \<Longrightarrow> store_ok t' = store_ok t \<and> reqs t' = reqs t"
  by (simp add: request_part_def store_ok_def reqs_def requests_of_def)

lemma audit_part_cong:
  "audit_part t' = audit_part t \<Longrightarrow> audit_ok t' = audit_ok t \<and> events_of t' = events_of t"
  by (simp add: audit_part_def audit_ok_def events_of_def)

lemma notif_part_cong:
  "notif_part t' = notif_part t \<Longrightarrow> notif_ok t' = notif_ok t \<and> marks t' = marks t"
  by (simp add: notif_part_def notif_ok_def marks_def)

lemma exec_parts:
  "exec_sem (InsertRequest r) t n t' \<Longrightarrow> audit_part t' = audit_part t \<and> notif_part t' = notif_part t"
  "exec_sem (update_stmt q) t n t' \<Longrightarrow> audit_part t' = audit_part t \<and> notif_part t' = notif_part t"
  "exec_sem (InsertAudit e) t n t' \<Longrightarrow> request_part t' = request_part t \<and> notif_part t' = notif_part t"
  "exec_sem (InsertNotification v) t n t' \<Longrightarrow> request_part t' = request_part t \<and> audit_part t' = audit_part t"
proof -
  obtain a b where n: "n = (a, b)" by fastforce
  show "exec_sem (InsertRequest r) t n t' \<Longrightarrow> audit_part t' = audit_part t \<and> notif_part t' = notif_part t"
    by (auto simp: n part_defs)
  show "exec_sem (update_stmt q) t n t' \<Longrightarrow> audit_part t' = audit_part t \<and> notif_part t' = notif_part t"
    by (auto simp: n part_defs update_stmt_def)
  show "exec_sem (InsertAudit e) t n t' \<Longrightarrow> request_part t' = request_part t \<and> notif_part t' = notif_part t"
    by (auto simp: n part_defs)
  show "exec_sem (InsertNotification v) t n t' \<Longrightarrow> request_part t' = request_part t \<and> audit_part t' = audit_part t"
    by (cases "notif_key v \<in> notif_key ` set (t_notifs t)") (simp_all add: n part_defs)
qed

lemma sane_storable: "sane t \<Longrightarrow> storable t"
  by (simp add: sane_def storable_def days_before_year_def Second_def)

lemma sane_deadline:
  "sane t \<Longrightarrow> - (2 ^ 63) \<le> d \<Longrightarrow> d < 2 ^ 63 \<Longrightarrow> storable (t + d)"
  by (simp add: sane_def storable_def days_before_year_def Second_def)

section \<open>The service in its world\<close>

definition ttl_ok :: "config \<Rightarrow> bool" where
  "ttl_ok cfg \<longleftrightarrow>
     - (2 ^ 63) \<le> RequestTTL cfg \<and> RequestTTL cfg < 2 ^ 63 \<and>
     - (2 ^ 63) \<le> ActiveTTL cfg \<and> ActiveTTL cfg < 2 ^ 63"

lemma ttl_ok_FromEnv: "ttl_ok (FromEnv os)"
proof -
  have "- (2 ^ 63) \<le> durationEnv os k d \<and> durationEnv os k d < 2 ^ 63" if "d \<in> {Hour, 9 * Hour}" for k d
    by (rule durationEnv_range) (use that in \<open>auto simp: duration_defs\<close>)
  then show ?thesis by (simp add: ttl_ok_def FromEnv_def)
qed

locale service_world =
  service_db E tabs + groups_iface E "sv_kc s" who holds ready fair + clock E fair
  for E :: "('d, 'k, 'o) env" and tabs :: "'d \<Rightarrow> tables" and s :: service
    and who :: "string \<Rightarrow> string" and holds :: "'k \<Rightarrow> (string \<times> string) set"
    and ready :: "client_mem \<Rightarrow> bool" and fair :: "'o \<Rightarrow> bool" +
  assumes ttl: "ttl_ok (sv_cfg s)"
    and form_frame: "e_keycloak E (form_request url kvs) k = (res, k') \<Longrightarrow> holds k' = holds k"
    and read_frame: "e_keycloak E (bearer_request ''GET'' url tok) k = (res, k') \<Longrightarrow> holds k' = holds k"
begin

abbreviation requests :: "('d, 'k, 'o) world \<Rightarrow> string \<rightharpoonup> request" where
  "requests w \<equiv> reqs (tabs (w_db w))"

abbreviation log_events :: "('d, 'k, 'o) world \<Rightarrow> AuditEvent list" where
  "log_events w \<equiv> events_of (tabs (w_db w))"

abbreviation members :: "('d, 'k, 'o) world \<Rightarrow> (string \<times> string) set" where
  "members w \<equiv> holds (w_kc w)"

abbreviation mark_set :: "('d, 'k, 'o) world \<Rightarrow> (string \<times> string) set" where
  "mark_set w \<equiv> marks (tabs (w_db w))"

definition fine :: "('d, 'k, 'o) world \<Rightarrow> bool" where
  "fine w \<longleftrightarrow>
     store_ok (tabs (w_db w)) \<and> audit_ok (tabs (w_db w)) \<and> notif_ok (tabs (w_db w)) \<and>
     ready (w_client w) \<and> fair (w_other w)"

definition book :: "('d, 'k, 'o) world \<Rightarrow> ('d, 'k, 'o) world \<Rightarrow> bool" where
  "book w w' \<longleftrightarrow>
     fine w' \<and> requests w' = requests w \<and> members w' = members w \<and>
     (\<exists>new. log_events w' = log_events w @ new) \<and> mark_set w \<subseteq> mark_set w'"

text \<open>An operation that appends nothing either.\<close>

definition still :: "('d, 'k, 'o) world \<Rightarrow> ('d, 'k, 'o) world \<Rightarrow> bool" where
  "still w w' \<longleftrightarrow>
     fine w' \<and> requests w' = requests w \<and> members w' = members w \<and>
     log_events w' = log_events w \<and> mark_set w' = mark_set w"

lemma still_book: "still w w' \<Longrightarrow> book w w'"
  by (simp add: still_def book_def)

lemma still_refl: "fine w \<Longrightarrow> still w w"
  by (simp add: still_def)

lemma book_refl: "fine w \<Longrightarrow> book w w"
  by (simp add: book_def)

lemma book_trans: "book w w' \<Longrightarrow> book w' w'' \<Longrightarrow> book w w''"
  by (auto simp: book_def)

lemma still_trans: "still w w' \<Longrightarrow> still w' w'' \<Longrightarrow> still w w''"
  by (simp add: still_def)

lemma bookD: "book w w' \<Longrightarrow> fine w' \<and> requests w' = requests w \<and> members w' = members w"
  by (simp add: book_def)

lemma stillD: "still w w' \<Longrightarrow> fine w' \<and> requests w' = requests w \<and> members w' = members w"
  by (simp add: still_def)

text \<open>A step outside the tables and the groups.\<close>

lemma still_other: "fine w \<Longrightarrow> fair x \<Longrightarrow> still w (w\<lparr>w_other := x\<rparr>)"
  by (simp add: still_def fine_def)

lemma still_log: "fine w \<Longrightarrow> still w (w\<lparr>w_log := l\<rparr>)"
  by (simp add: still_def fine_def)

lemma now_still:
  assumes "fine w" "e_now E (w_other w) = (t, x)"
  shows "sane t" "still w (w\<lparr>w_other := x\<rparr>)"
  using now_fair [OF _ assms(2)] assms(1) by (auto simp: fine_def intro: still_other)

lemma calm_still:
  "fine w \<Longrightarrow> calm ready fair w w' \<Longrightarrow> members w' = members w \<Longrightarrow> still w w'"
  by (simp add: still_def fine_def calm_def)

lemma exec_keeps:
  assumes "e_exec E st d = (y, d')" "\<And>n t t'. exec_sem st t n t' \<Longrightarrow> P t' = P t"
  shows "P (tabs d') = P (tabs d)"
  using exec_cases [OF assms(1)] assms(2) by (elim disjE exE conjE) simp_all

section \<open>Programs that keep the books\<close>

definition keeps_books :: "'a prog \<Rightarrow> bool" where
  "keeps_books p \<longleftrightarrow> (\<forall>w a w'. fine w \<longrightarrow> run E p w = (a, w') \<longrightarrow> book w w')"

definition quiet :: "'a prog \<Rightarrow> bool" where
  "quiet p \<longleftrightarrow> (\<forall>w a w'. fine w \<longrightarrow> run E p w = (a, w') \<longrightarrow> still w w')"

lemma keeps_booksD: "keeps_books p \<Longrightarrow> fine w \<Longrightarrow> run E p w = (a, w') \<Longrightarrow> book w w'"
  by (simp add: keeps_books_def)

lemma quietD: "quiet p \<Longrightarrow> fine w \<Longrightarrow> run E p w = (a, w') \<Longrightarrow> still w w'"
  by (simp add: quiet_def)

lemma quiet_keeps: "quiet p \<Longrightarrow> keeps_books p"
  by (auto simp: quiet_def keeps_books_def intro: still_book)

lemma keeps_Ret [simp]: "keeps_books (Ret a)" and quiet_Ret [simp]: "quiet (Ret a)"
  by (auto simp: keeps_books_def quiet_def intro: book_refl still_refl)

lemma keeps_bnd:
  assumes "keeps_books p" "\<And>a. keeps_books (f a)"
  shows "keeps_books (bnd p f)"
  unfolding keeps_books_def
proof (intro allI impI)
  fix w a w'
  assume w: "fine w" and r: "run E (bnd p f) w = (a, w')"
  obtain b w1 where p: "run E p w = (b, w1)" by fastforce
  have b: "book w w1" by (rule keeps_booksD [OF assms(1) w p])
  have "run E (f b) w1 = (a, w')" using r p by (simp add: run_simps)
  from keeps_booksD [OF assms(2) _ this] bookD [OF b] have "book w1 w'" by blast
  with b show "book w w'" by (rule book_trans)
qed

lemma quiet_bnd:
  assumes "quiet p" "\<And>a. quiet (f a)"
  shows "quiet (bnd p f)"
  unfolding quiet_def
proof (intro allI impI)
  fix w a w'
  assume w: "fine w" and r: "run E (bnd p f) w = (a, w')"
  obtain b w1 where p: "run E p w = (b, w1)" by fastforce
  have b: "still w w1" by (rule quietD [OF assms(1) w p])
  have "run E (f b) w1 = (a, w')" using r p by (simp add: run_simps)
  from quietD [OF assms(2) _ this] stillD [OF b] have "still w1 w'" by blast
  with b show "still w w'" by (rule still_trans)
qed

lemma quiet_now: "quiet time_now"
  unfolding quiet_def by (auto simp: run_simps split: prod.splits intro: now_still)

lemma quiet_log: "quiet (log_line l)"
  unfolding quiet_def by (auto simp: run_simps intro: still_log)

lemma quiet_rand: "quiet (rand_read n)"
  unfolding quiet_def
  by (auto simp: run_simps fine_def split: prod.splits intro!: still_other dest: rand_fair)

lemma quiet_InGroup: "quiet (kc_InGroup (sv_kc s) u g)"
  unfolding quiet_def using in_frame by (auto simp: fine_def intro: calm_still [unfolded fine_def])

lemma quiet_in_group_or_not: "quiet (in_group_or_not s u g)"
  unfolding in_group_or_not_def by (intro quiet_bnd quiet_InGroup) simp

lemma quiet_FromRequest: "quiet (FromRequest cfg rq)"
  by (auto simp: FromRequest_def intro!: quiet_bnd quiet_now split: sum.split)

lemma quiet_Keycloak:
  assumes "\<And>k r k'. e_keycloak E q k = (r, k') \<Longrightarrow> holds k' = holds k" "\<And>x. quiet (f x)"
  shows "quiet (Keycloak q f)"
  unfolding quiet_def
proof (intro allI impI)
  fix w a w'
  assume w: "fine w" and r: "run E (Keycloak q f) w = (a, w')"
  obtain x y where xy: "e_keycloak E q (w_kc w) = (x, y)" by fastforce
  have "fine (w\<lparr>w_kc := y\<rparr>)" using w by (simp add: fine_def)
  from quietD [OF assms(2) this, of x] r xy have "still (w\<lparr>w_kc := y\<rparr>) w'" by simp
  then show "still w w'" using assms(1) [OF xy] by (simp add: still_def)
qed

lemma still_irrelevant:
  "fine w \<Longrightarrow> w_db w' = w_db w \<Longrightarrow> w_kc w' = w_kc w \<Longrightarrow> w_other w' = w_other w \<Longrightarrow>
   w_client w' = w_client w \<Longrightarrow> still w w'"
  by (simp add: still_def fine_def)

text \<open>A node that only touches the mutexes or the memory of the login manager.\<close>

lemma quiet_node:
  assumes "\<And>w. \<exists>p. quiet p \<and> run E P w = run E p (g w)"
    "\<And>w. w_db (g w) = w_db w \<and> w_kc (g w) = w_kc w \<and> w_other (g w) = w_other w \<and> w_client (g w) = w_client w"
  shows "quiet P"
  unfolding quiet_def
proof (intro allI impI)
  fix w a w'
  assume w: "fine w" and r: "run E P w = (a, w')"
  obtain p where p: "quiet p" "run E p (g w) = (a, w')" using assms(1) [of w] r by force
  have 1: "still w (g w)" using assms(2) [of w] w by (intro still_irrelevant) simp_all
  with quietD [OF p(1) _ p(2)] have "still (g w) w'" using stillD by blast
  with 1 show "still w w'" by (rule still_trans)
qed

lemma quiet_Lock: "quiet p \<Longrightarrow> quiet (Lock m p)"
  by (rule quiet_node [where g = "\<lambda>w. w\<lparr>w_held := insert m (w_held w)\<rparr>"]) auto

lemma quiet_Unlock: "quiet p \<Longrightarrow> quiet (Unlock m p)"
  by (rule quiet_node [where g = "\<lambda>w. w\<lparr>w_held := w_held w - {m}\<rparr>"]) auto

lemma quiet_PutManager: "quiet p \<Longrightarrow> quiet (PutManager c p)"
  by (rule quiet_node [where g = "\<lambda>w. w\<lparr>w_manager := c\<rparr>"]) auto

lemma quiet_GetManager: "(\<And>c. quiet (f c)) \<Longrightarrow> quiet (GetManager f)"
  by (rule quiet_node [where g = "\<lambda>w. w"]) auto

lemma quiet_Now: "(\<And>t. quiet (g t)) \<Longrightarrow> quiet (Now g)"
  using quiet_bnd [OF quiet_now, of g] by (simp add: time_now_def)

lemmas quiet_manager = quiet_Lock quiet_Unlock quiet_PutManager quiet_GetManager quiet_Now

lemma quiet_randomToken: "quiet (randomToken n)"
  by (simp add: randomToken_def quiet_bnd quiet_rand)

lemma quiet_LoginURL: "quiet (LoginURL cfg)"
  by (auto simp: LoginURL_def intro!: quiet_bnd quiet_randomToken quiet_manager split: sum.split)

lemma quiet_userInfo: "quiet (userInfo cfg tok)"
  unfolding userInfo_def by (rule quiet_Keycloak, rule read_frame, assumption, rule quiet_Ret)

lemma quiet_exchange: "quiet (exchange_code cfg code v)"
  unfolding exchange_code_def
proof (rule quiet_Keycloak, rule form_frame, assumption)
  fix x :: "error + http_response"
  show "quiet (case (case x of Inl e \<Rightarrow> Inl e | Inr resp \<Rightarrow> read_exchange resp) of
      Inl e \<Rightarrow> Ret (Inl e)
    | Inr tok \<Rightarrow> bnd (userInfo cfg tok) (\<lambda>u. case u of
        Inl e \<Rightarrow> Ret (Inl e)
      | Inr ui \<Rightarrow> (if ui_PreferredUsername ui = []
         then Ret (Inl (Msg ''no preferred_username in userinfo''))
         else bnd time_now (\<lambda>now. Ret (Inr
           \<lparr>se_Username = ui_PreferredUsername ui, se_Groups = ui_Groups ui,
            se_Expiry = Unix (now + 8 * Hour)\<rparr>)))))"
    by (auto intro!: quiet_bnd quiet_userInfo quiet_now split: sum.split)
qed

lemma quiet_HandleCallback: "quiet (HandleCallback cfg rq)"
proof -
  note quiet_exchange
  moreover have "quiet (take_state st)" for st
    unfolding take_state_def
    by (intro quiet_manager) (auto intro!: quiet_bnd quiet_now split: option.split)
  ultimately show ?thesis
    by (auto simp: HandleCallback_def Let_def intro!: quiet_bnd split: sum.split)
qed

lemma quiet_actor: "quiet (actor s rq)"
  by (auto simp: actor_def Actor_def Let_def intro!: quiet_bnd quiet_FromRequest split: option.split)

lemma quiet_newID: "quiet newID"
  unfolding newID_def by (intro quiet_bnd quiet_rand) simp

lemma query_still: "fine w \<Longrightarrow> tabs d = tabs (w_db w) \<Longrightarrow> still w (w\<lparr>w_db := d\<rparr>)"
  by (simp add: still_def fine_def)

lemma quiet_Get: "quiet (Get i)"
  unfolding quiet_def by (auto elim!: run_Get intro: query_still query_frame)

lemma quiet_scan_rows: "quiet (scan_rows q)"
  unfolding quiet_def by (auto elim!: run_scan_rows intro: query_still query_frame)

lemma quiet_ListAudit: "quiet (ListAudit f)"
  unfolding quiet_def by (auto elim!: run_ListAudit intro: query_still audit_frame)

lemma clock_storable_fine: "fine w \<Longrightarrow> clock_storable E w"
  using now_fair [of "w_other w" "fst (e_now E (w_other w))" "snd (e_now E (w_other w))"]
  by (simp add: fine_def clock_storable_def sane_storable)

lemma keeps_AppendAudit:
  assumes "storable_event e"
  shows "keeps_books (AppendAudit e)"
  unfolding keeps_books_def
proof (intro allI impI)
  fix w a w'
  assume w: "fine w" and r: "run E (AppendAudit e) w = (a, w')"
  from r obtain e1 d y o1 where x: "e_exec E (InsertAudit (audit_row_of e1)) (w_db w) = (y, d)"
    "w' = w\<lparr>w_db := d, w_other := o1\<rparr>"
    "o1 = (if EvAt e = zero_time then snd (e_now E (w_other w)) else w_other w)"
    by (rule run_AppendAudit)
  have fair: "fair o1" using w now_fair x(3) by (cases "e_now E (w_other w)") (auto simp: fine_def)
  have parts: "request_part (tabs d) = request_part (tabs (w_db w)) \<and>
      notif_part (tabs d) = notif_part (tabs (w_db w))"
    by (intro conjI exec_keeps [OF x(1)]) (simp_all only: exec_parts(3))
  have "audit_ok (tabs (w_db w)) \<and> clock_storable E w"
    using w clock_storable_fine by (simp add: fine_def)
  then have "audit_ok (tabs (w_db w')) \<and> (\<exists>new. log_events w' = log_events w @ new)"
    using append_extends [OF _ _ assms r] by blast
  with fair w x(2) request_part_cong [OF conjunct1 [OF parts]] notif_part_cong [OF conjunct2 [OF parts]]
  show "book w w'" by (simp add: book_def fine_def)
qed

lemma keeps_audit: "keeps_books (audit s ac wh su ri ju de bg)"
proof -
  have "storable_event \<lparr>EvID = 0, EvAt = zero_time, EvAction = ac, EvActor = wh, EvSubject = su,
         EvRequestID = ri, EvJustification = ju, EvDetail = de, EvBreakGlass = bg\<rparr>"
    by (simp add: storable_event_def storable_def zero_time_def days_before_year_def duration_defs)
  then show ?thesis
    by (auto simp: audit_def intro!: keeps_bnd keeps_AppendAudit quiet_keeps [OF quiet_log] split: sum.split)
qed

lemma keeps_TryMarkNotified: "keeps_books (TryMarkNotified i k)"
  unfolding keeps_books_def
proof (intro allI impI)
  fix w a w'
  assume w: "fine w" and r: "run E (TryMarkNotified i k) w = (a, w')"
  from r obtain now o1 d y row where x: "e_now E (w_other w) = (now, o1)"
    "e_exec E (InsertNotification row) (w_db w) = (y, d)" "w' = w\<lparr>w_db := d, w_other := o1\<rparr>"
    by (rule run_TryMarkNotified) blast
  have fair: "fair o1" using w now_fair x(1) by (auto simp: fine_def)
  have parts: "request_part (tabs d) = request_part (tabs (w_db w)) \<and>
      audit_part (tabs d) = audit_part (tabs (w_db w))"
    by (intro conjI exec_keeps [OF x(2)]) (simp_all only: exec_parts(4))
  have "notif_ok (tabs d)"
    using exec_cases [OF x(2)] mark_exec(3) w by (auto simp: fine_def simp del: exec_sem.simps)
  moreover have "mark_set w \<subseteq> mark_set w'" by (rule mark_mono [OF r])
  ultimately show "book w w'"
    using fair w x(3) request_part_cong [OF conjunct1 [OF parts]] audit_part_cong [OF conjunct2 [OF parts]]
    by (simp add: book_def fine_def)
qed

lemma quiet_post: "quiet (post n t)"
  unfolding quiet_def
  by (auto simp: post_def fine_def split: prod.splits intro!: still_other dest: webhook_fair)

lemma keeps_NotifyOnce: "keeps_books (NotifyOnce n i k t)"
  by (auto simp: NotifyOnce_def
      intro!: keeps_bnd keeps_TryMarkNotified quiet_keeps [OF quiet_log] quiet_keeps [OF quiet_post]
      split: sum.split)

lemma keeps_messages:
  "keeps_books (PendingApprovers n r)" "keeps_books (Approved n r)" "keeps_books (RequestExpired n r)"
  "keeps_books (Released n r x)"
  by (simp_all add: message_defs keeps_NotifyOnce)

lemma keeps_notifying: "(\<And>n. keeps_books (f n)) \<Longrightarrow> keeps_books (notifying s f)"
  by (auto simp: notifying_def intro!: keeps_bnd split: option.split)

lemmas keeps_intros =
  keeps_bnd keeps_audit keeps_notifying keeps_messages quiet_keeps [OF quiet_log]
  quiet_keeps [OF quiet_in_group_or_not]

section \<open>Operations that change requests or memberships\<close>

text \<open>The requests become \<open>m\<close>, the rest stays.\<close>

definition stores :: "('d, 'k, 'o) world \<Rightarrow> (string \<rightharpoonup> request) \<Rightarrow> ('d, 'k, 'o) world \<Rightarrow> bool" where
  "stores w m w' \<longleftrightarrow>
     fine w' \<and> requests w' = m \<and> members w' = members w \<and> log_events w' = log_events w \<and>
     mark_set w' = mark_set w"

lemma Update_rule:
  assumes "fine w" "storable_req r" "run E (Update r) w = (x, w')"
  shows "case x of Inl e \<Rightarrow> still w w'
    | Inr u \<Rightarrow> \<exists>q. requests w (ID r) = Some q \<and> stores w ((requests w)(ID r \<mapsto> merge_update q r)) w'"
proof -
  from assms(3) obtain d y where u: "e_exec E (update_stmt r) (w_db w) = (y, d)" "w' = w\<lparr>w_db := d\<rparr>"
    by (rule run_Update)
  have parts: "audit_part (tabs d) = audit_part (tabs (w_db w)) \<and> notif_part (tabs d) = notif_part (tabs (w_db w))"
    by (intro conjI exec_keeps [OF u(1)]) (simp_all only: exec_parts(2))
  note same = audit_part_cong [OF conjunct1 [OF parts]] notif_part_cong [OF conjunct2 [OF parts]]
  have ok: "store_ok (tabs (w_db w))" using assms(1) by (simp add: fine_def)
  have fine': "fine w'"
    using assms(1) u(2) same update_good [OF ok assms(2,3)]
    by (simp add: fine_def)
  show ?thesis
  proof (cases x)
    case (Inl e)
    with update_err [OF ok assms(2)] assms(3) have "requests w' = requests w" by blast
    with Inl fine' u(2) same show ?thesis by (simp add: still_def)
  next
    case (Inr v)
    with update_ok [OF ok assms(2)] assms(3) obtain q where
      "requests w (ID r) = Some q" "requests w' = (requests w)(ID r \<mapsto> merge_update q r)" by auto
    with Inr fine' u(2) same show ?thesis by (auto simp: stores_def)
  qed
qed

text \<open>Updating a request that was read: the row becomes the value that was written.\<close>

lemma Update_read:
  assumes "fine w" "requests w (ID r) = Some q" "same_subject q r" "storable_req r"
    "run E (Update r) w = (x, w')"
  shows "case x of Inl e \<Rightarrow> still w w' | Inr u \<Rightarrow> stores w ((requests w)(ID r \<mapsto> r)) w'"
  using Update_rule [OF assms(1,4,5)] assms(2,3) by (auto split: sum.splits)

lemma Create_rule:
  assumes "fine w" "storable_req r" "run E (Create r) w = (x, w')"
  shows "case x of Inl e \<Rightarrow> still w w'
    | Inr u \<Rightarrow> requests w (ID r) = None \<and> stores w ((requests w)(ID r \<mapsto> r)) w'"
proof -
  from assms(3) obtain d y where u: "e_exec E (InsertRequest (row_of r)) (w_db w) = (y, d)" "w' = w\<lparr>w_db := d\<rparr>"
    by (rule run_Create)
  have parts: "audit_part (tabs d) = audit_part (tabs (w_db w)) \<and> notif_part (tabs d) = notif_part (tabs (w_db w))"
    by (intro conjI exec_keeps [OF u(1)]) (simp_all only: exec_parts(1))
  note same = audit_part_cong [OF conjunct1 [OF parts]] notif_part_cong [OF conjunct2 [OF parts]]
  have ok: "store_ok (tabs (w_db w))" using assms(1) by (simp add: fine_def)
  have fine': "fine w'"
    using assms(1) u(2) same create_good [OF ok assms(2,3)]
    by (simp add: fine_def)
  show ?thesis
  proof (cases x)
    case (Inl e)
    with create_err [OF ok] assms(3) have "requests w' = requests w" by blast
    with Inl fine' u(2) same show ?thesis by (simp add: still_def)
  next
    case (Inr v)
    with create_ok [OF ok assms(2)] assms(3) have
      "requests w (ID r) = None \<and> requests w' = (requests w)(ID r \<mapsto> r)" by auto
    with Inr fine' u(2) same show ?thesis by (auto simp: stores_def)
  qed
qed

lemma Get_rule:
  assumes "fine w" "run E (Get i) w = (x, w')"
  shows "still w w'" "x = Inr r \<Longrightarrow> requests w i = Some r"
proof -
  show "still w w'" by (rule quietD [OF quiet_Get assms])
  assume "x = Inr r"
  with assms get_ok show "requests w i = Some r" by (auto simp: fine_def)
qed

text \<open>The memberships become \<open>m\<close>, the rest stays.\<close>

definition moves :: "('d, 'k, 'o) world \<Rightarrow> (string \<times> string) set \<Rightarrow> ('d, 'k, 'o) world \<Rightarrow> bool" where
  "moves w m w' \<longleftrightarrow>
     fine w' \<and> requests w' = requests w \<and> members w' = m \<and> log_events w' = log_events w \<and>
     mark_set w' = mark_set w"

lemma calm_moves: "fine w \<Longrightarrow> calm ready fair w w' \<Longrightarrow> members w' = m \<Longrightarrow> moves w m w'"
  by (simp add: moves_def fine_def calm_def)

lemma AddToGroup_rule:
  assumes "fine w" "run E (kc_AddToGroup (sv_kc s) u g) w = (x, w')"
  shows "case x of Inl e \<Rightarrow> \<exists>m. m \<in> {members w, insert (who u, g) (members w)} \<and> moves w m w'
    | Inr v \<Rightarrow> moves w (insert (who u, g) (members w)) w'"
proof -
  have r: "ready (w_client w)" using assms(1) by (simp add: fine_def)
  note f = add_frame [OF r assms(2)]
  show ?thesis
  proof (cases x)
    case (Inl e)
    with f calm_moves [OF assms(1) conjunct1 [OF f] refl] show ?thesis by auto
  next
    case (Inr v)
    with add_ok [OF r] assms(2) have "(who u, g) \<in> members w'" by auto
    with f have "members w' = insert (who u, g) (members w)" by auto
    with calm_moves [OF assms(1) conjunct1 [OF f] refl] Inr show ?thesis by simp
  qed
qed

lemma RemoveFromGroup_rule:
  assumes "fine w" "run E (kc_RemoveFromGroup (sv_kc s) u g) w = (x, w')"
  shows "case x of Inl e \<Rightarrow> \<exists>m. m \<in> {members w, members w - {(who u, g)}} \<and> moves w m w'
    | Inr v \<Rightarrow> moves w (members w - {(who u, g)}) w'"
proof -
  have r: "ready (w_client w)" using assms(1) by (simp add: fine_def)
  note f = remove_frame [OF r assms(2)]
  show ?thesis
  proof (cases x)
    case (Inl e)
    with f calm_moves [OF assms(1) conjunct1 [OF f] refl] show ?thesis by auto
  next
    case (Inr v)
    with remove_ok [OF r] assms(2) have "(who u, g) \<notin> members w'" by auto
    with f have "members w' = members w - {(who u, g)}" by auto
    with calm_moves [OF assms(1) conjunct1 [OF f] refl] Inr show ?thesis by simp
  qed
qed

lemma InGroup_rule:
  assumes "fine w" "run E (kc_InGroup (sv_kc s) u g) w = (x, w')"
  shows "still w w'" "x = Inr b \<Longrightarrow> b \<longleftrightarrow> (who u, g) \<in> members w"
proof -
  show "still w w'" by (rule quietD [OF quiet_InGroup assms])
  have "ready (w_client w)" using assms(1) by (simp add: fine_def)
  then show "x = Inr b \<Longrightarrow> b \<longleftrightarrow> (who u, g) \<in> members w" using in_ok assms(2) by blast
qed

end

end
