(* ===== verification/Handlers.thy ===== *)
theory Handlers
  imports Effects
begin

text \<open>
  The handlers, branch by branch: for every handler that changes requests or memberships one
  elimination rule that lists its outcomes -- the answer, and what the requests and the
  memberships are afterwards.  Everything else a handler does keeps the books (\<open>book\<close>).
\<close>

context service_world
begin

lemma stores_book: "stores w m w1 \<Longrightarrow> book w1 w' \<Longrightarrow> fine w' \<and> requests w' = m \<and> members w' = members w"
  by (simp add: stores_def book_def)

lemma stored_storable: "fine w \<Longrightarrow> requests w i = Some r \<Longrightarrow> storable_req r \<and> ID r = i"
  by (auto simp: fine_def dest: content_good)

lemma approved_storable:
  "storable_req r \<Longrightarrow> sane now \<Longrightarrow> storable_req (approved_request (sv_cfg s) r a n now)"
  using ttl sane_deadline [of now "ActiveTTL (sv_cfg s)"] sane_storable [of now]
  by (simp add: approved_request_def storable_req_def ttl_ok_def)

lemma released_storable: "storable_req r \<Longrightarrow> sane now \<Longrightarrow> storable_req (released_request r now)"
  by (simp add: released_request_def storable_req_def sane_storable)

lemma new_storable: "sane now \<Longrightarrow> storable_req (new_request (sv_cfg s) i b now)"
  using ttl sane_deadline [of now "RequestTTL (sv_cfg s)"] sane_storable [of now]
  by (simp add: new_request_def storable_req_def ttl_ok_def)

lemma subject_simps [simp]:
  "same_subject r (approved_request cfg r a n now)" "same_subject r (released_request r now)"
  "same_subject r (r\<lparr>Status := st\<rparr>)"
  "ID (approved_request cfg r a n now) = ID r" "ID (released_request r now) = ID r"
  "Username (approved_request cfg r a n now) = Username r" "Username (released_request r now) = Username r"
  "Status (approved_request cfg r a n now) = StatusApproved" "Status (released_request r now) = StatusReleased"
  by (simp_all add: same_subject_def approved_request_def released_request_def)

section \<open>Approving\<close>

lemma grant_cases:
  assumes "fine w" "requests w (ID req) = Some req" "sane now"
    and r: "run E (grant s req a notes now) w = (resp, w')"
  obtains
    (add_failed) m where "m \<in> {members w, insert (who (Username req), GroupActive (sv_cfg s)) (members w)}"
      "moves w m w'" "rs_code resp = StatusBadGateway"
  | (not_recorded) "moves w (insert (who (Username req), GroupActive (sv_cfg s)) (members w)) w'"
      "rs_code resp = StatusInternalServerError"
  | (granted) "fine w'"
      "requests w' = (requests w)(ID req \<mapsto> approved_request (sv_cfg s) req a notes now)"
      "members w' = insert (who (Username req), GroupActive (sv_cfg s)) (members w)"
      "resp = writeJSON StatusOK (request_json (approved_request (sv_cfg s) req a notes now))"
proof -
  let ?g = "GroupActive (sv_cfg s)" and ?r = "approved_request (sv_cfg s) req a notes now"
  obtain x w1 where add: "run E (kc_AddToGroup (sv_kc s) (Username req) ?g) w = (x, w1)" by fastforce
  note added = AddToGroup_rule [OF assms(1) add]
  show thesis
  proof (cases x)
    case (Inl e)
    with add r have "resp = writeErr StatusBadGateway e" "w' = w1"
      by (simp_all add: grant_def run_simps)
    with added Inl add_failed show thesis by auto
  next
    case (Inr u)
    with added have m1: "moves w (insert (who (Username req), ?g) (members w)) w1" by simp
    then have w1: "fine w1" "requests w1 (ID ?r) = Some req" using assms(2) by (simp_all add: moves_def)
    obtain y w2 where upd: "run E (Update ?r) w1 = (y, w2)" by fastforce
    have "storable_req ?r" using stored_storable [OF assms(1,2)] assms(3) approved_storable by blast
    note stored = Update_read [OF w1 _ this upd]
    show thesis
    proof (cases y)
      case (Inl e)
      with add upd Inr r have "resp = writeErr StatusInternalServerError e" "w' = w2"
        by (simp_all add: grant_def run_simps Let_def)
      with stored Inl m1 not_recorded show thesis by (simp add: still_def moves_def)
    next
      case ok: (Inr v)
      with stored have st: "stores w1 ((requests w1)(ID req \<mapsto> ?r)) w2" by simp
      let ?rest = "bnd (in_group_or_not s a (GroupBreakGlass (sv_cfg s))) (\<lambda>bg.
          bnd (audit s ''request_approved'' a (Username ?r) (ID ?r) (Justification ?r) (''notes: '' @ notes) bg) (\<lambda>_.
          bnd (audit s ''grant_active'' a (Username ?r) (ID ?r) (Justification ?r)
                 (''user added to '' @ ?g) bg) (\<lambda>_.
          bnd (notifying s (\<lambda>n. Approved n ?r)) (\<lambda>_. Ret (writeJSON StatusOK (request_json ?r))))))"
      have rest: "run E ?rest w2 = (resp, w')"
        using add upd Inr ok r by (simp add: grant_def Let_def run_simps)
      have "keeps_books ?rest" by (intro keeps_intros keeps_Ret)
      from keeps_booksD [OF this _ rest] st have "book w2 w'" by (simp add: stores_def)
      moreover have "resp = writeJSON StatusOK (request_json ?r)"
        using rest by (auto simp: run_simps split: prod.splits)
      ultimately show thesis using stores_book [OF st] m1 granted by (simp add: moves_def)
    qed
  qed
qed

lemma expire_late_cases:
  assumes "fine w" "requests w (ID req) = Some req"
    and r: "run E (expire_late s req) w = (resp, w')"
  shows "fine w'" "members w' = members w" "rs_code resp = StatusConflict"
    "requests w' \<in> {requests w, (requests w)(ID req \<mapsto> req\<lparr>Status := StatusExpired\<rparr>)}"
proof -
  let ?r = "req\<lparr>Status := StatusExpired\<rparr>"
  obtain y w1 where upd: "run E (Update ?r) w = (y, w1)" by fastforce
  have "storable_req ?r" using stored_storable [OF assms(1,2)] by (simp add: storable_req_def)
  with Update_read [of w ?r req y w1] assms(1,2) upd
  have st: "case y of Inl e \<Rightarrow> still w w1 | Inr u \<Rightarrow> stores w ((requests w)(ID req \<mapsto> ?r)) w1"
    by (cases y) simp_all
  let ?rest = "bnd (audit s ''request_expired'' ''system'' (Username ?r) (ID ?r) (Justification ?r)
             ''expired before approve'' False) (\<lambda>_.
      bnd (notifying s (\<lambda>n. RequestExpired n ?r)) (\<lambda>_.
      Ret (writeErr StatusConflict (Msg ''request expired''))))"
  have rest: "run E ?rest w1 = (resp, w')" using upd r by (simp add: expire_late_def Let_def run_simps)
  have "keeps_books ?rest" by (intro keeps_intros keeps_Ret)
  moreover have "fine w1" using st by (cases y) (simp_all add: still_def stores_def)
  ultimately have "book w1 w'" using rest by (rule keeps_booksD)
  with st show "fine w'" "members w' = members w"
    "requests w' \<in> {requests w, (requests w)(ID req \<mapsto> ?r)}"
    by (cases y; simp add: still_def stores_def book_def)+
  show "rs_code resp = StatusConflict" using rest by (auto simp: run_simps split: prod.splits)
qed

text \<open>Who asks: the actor, read without changing anything.\<close>

definition asks :: "web_request \<Rightarrow> ('d, 'k, 'o) world \<Rightarrow> string" where
  "asks rq w = fst (run E (actor s rq) w)"

lemma actor_rule:
  assumes "fine w" "run E (actor s rq) w = (a, w1)"
  shows "a = asks rq w" "still w w1"
  using assms quietD [OF quiet_actor] by (simp_all add: asks_def)

lemma handleApprove_cases:
  assumes w: "fine w" and r: "run E (handleApprove s rq pid) w = (resp, w')"
  obtains
    (refused) "still w w'"
      "rs_code resp \<in> {StatusBadRequest, StatusUnauthorized, StatusForbidden, StatusNotFound,
         StatusConflict, StatusBadGateway}"
  | (allowed) a nt req now w1 where "a = asks rq w" "a \<noteq> []"
      "(who a, GroupPermanent (sv_cfg s)) \<in> members w"
      "read_approve (rq_body rq) = Inr nt" "requests w pid = Some req" "Status req = StatusPending"
      "sane now" "still w w1"
      "run E (if now > RequestExpiresAt req then expire_late s req else grant s req a nt now) w1 = (resp, w')"
proof -
  note codes = refused [unfolded insert_iff]
  obtain a w1 where ac: "run E (actor s rq) w = (a, w1)" by fastforce
  note s1 = actor_rule [OF w ac]
  show thesis
  proof (cases "a = []")
    case True
    with r ac s1 codes show thesis by (auto simp: handleApprove_def run_simps)
  next
    case False
    obtain x w2 where ig: "run E (kc_InGroup (sv_kc s) a (GroupPermanent (sv_cfg s))) w1 = (x, w2)" by fastforce
    have w1: "fine w1" using s1 by (simp add: still_def)
    note s2 = InGroup_rule [OF w1 ig]
    have st2: "still w w2" using s1(2) s2(1) by (rule still_trans)
    consider e where "x = Inl e" | "x = Inr False" | "x = Inr True" by (cases x) auto
    then show thesis
    proof cases
      case 1
      with r ac ig False st2 codes show thesis by (auto simp: handleApprove_def run_simps)
    next
      case 2
      with r ac ig False st2 codes show thesis by (auto simp: handleApprove_def run_simps)
    next
      case 3
      have member: "(who a, GroupPermanent (sv_cfg s)) \<in> members w"
        using s2(2) [OF 3] s1(2) by (simp add: still_def)
      show thesis
      proof (cases "read_approve (rq_body rq)")
        case (Inl ce)
        then obtain c e where "read_approve (rq_body rq) = Inl (c, e)" by (cases ce) auto
        moreover from this have "c = StatusBadRequest"
          by (auto simp: read_approve_def Let_def split: sum.splits if_splits)
        ultimately show thesis using r ac ig False 3 st2 codes
          by (auto simp: handleApprove_def run_simps)
      next
        case (Inr nt)
        obtain y w3 where g: "run E (Get pid) w2 = (y, w3)" by fastforce
        have w2: "fine w2" using st2 by (simp add: still_def)
        have st3: "still w w3" using st2 Get_rule(1) [OF w2 g] by (rule still_trans)
        show thesis
        proof (cases y)
          case (Inl e)
          with r ac ig False 3 Inr g st3 codes show thesis by (auto simp: handleApprove_def run_simps)
        next
          case req: (Inr req)
          have stored: "requests w pid = Some req"
            using Get_rule(2) [OF w2 g req] st2 by (simp add: still_def)
          show thesis
          proof (cases "Status req = StatusPending")
            case no: False
            with r ac ig False 3 Inr g req st3 codes show thesis by (auto simp: handleApprove_def run_simps)
          next
            case yes: True
            obtain now o1 where now: "e_now E (w_other w3) = (now, o1)" by fastforce
            have w3: "fine w3" using st3 by (simp add: still_def)
            have "still w (w3\<lparr>w_other := o1\<rparr>)" using st3 now_still(2) [OF w3 now] by (rule still_trans)
            moreover have "run E (if now > RequestExpiresAt req then expire_late s req else grant s req a nt now)
                (w3\<lparr>w_other := o1\<rparr>) = (resp, w')"
              using r ac ig False 3 Inr g req yes now by (simp add: handleApprove_def run_simps)
            ultimately show thesis
              using allowed s1(1) False member Inr stored yes now_still(1) [OF w3 now] by blast
          qed
        qed
      qed
    qed
  qed
qed

section \<open>Asking\<close>

lemma handleCreate_cases:
  assumes w: "fine w" and r: "run E (handleCreate s rq) w = (resp, w')"
  obtains
    (refused) "still w w'"
      "rs_code resp \<in> {StatusBadRequest, StatusForbidden, StatusBadGateway, StatusInternalServerError}"
  | (created) b i now where "read_create (asks rq w) (rq_body rq) = Inr b" "sane now"
      "(who (cb_Username b), GroupEligible (sv_cfg s)) \<in> members w"
      "requests w i = None" "fine w'" "members w' = members w"
      "requests w' = (requests w)(i \<mapsto> new_request (sv_cfg s) i b now)"
      "resp = writeJSON StatusCreated (request_json (new_request (sv_cfg s) i b now))"
proof -
  note codes = refused [unfolded insert_iff]
  obtain a w1 where ac: "run E (actor s rq) w = (a, w1)" by fastforce
  note s1 = actor_rule [OF w ac]
  show thesis
  proof (cases "read_create a (rq_body rq)")
    case (Inl ce)
    then obtain c e where ce: "read_create a (rq_body rq) = Inl (c, e)" by (cases ce) auto
    then have "c \<in> {StatusBadRequest, StatusForbidden}"
      by (auto simp: read_create_def Let_def split: sum.splits if_splits)
    with r ac ce s1 codes show thesis by (auto simp: handleCreate_def run_simps)
  next
    case (Inr b)
    obtain x w2 where ig: "run E (kc_InGroup (sv_kc s) (cb_Username b) (GroupEligible (sv_cfg s))) w1 = (x, w2)"
      by fastforce
    have w1: "fine w1" using s1 by (simp add: still_def)
    note s2 = InGroup_rule [OF w1 ig]
    have st2: "still w w2" using s1(2) s2(1) by (rule still_trans)
    consider e where "x = Inl e" | "x = Inr False" | "x = Inr True" by (cases x) auto
    then show thesis
    proof cases
      case 1
      with r ac ig Inr st2 codes show thesis by (auto simp: handleCreate_def run_simps)
    next
      case 2
      with r ac ig Inr st2 codes show thesis by (auto simp: handleCreate_def run_simps)
    next
      case 3
      have member: "(who (cb_Username b), GroupEligible (sv_cfg s)) \<in> members w"
        using s2(2) [OF 3] s1(2) by (simp add: still_def)
      have w2: "fine w2" using st2 by (simp add: still_def)
      obtain now o1 where now: "e_now E (w_other w2) = (now, o1)" by fastforce
      note n = now_still [OF w2 now]
      obtain i w3 where i: "run E newID (w2\<lparr>w_other := o1\<rparr>) = (i, w3)" by fastforce
      have "fine (w2\<lparr>w_other := o1\<rparr>)" using n(2) by (simp add: still_def)
      from quietD [OF quiet_newID this i] have st3: "still w w3"
        using st2 n(2) by (blast intro: still_trans)
      let ?r = "new_request (sv_cfg s) i b now"
      obtain y w4 where cr: "run E (Create ?r) w3 = (y, w4)" by fastforce
      have w3: "fine w3" using st3 by (simp add: still_def)
      have id: "ID ?r = i" by (simp add: new_request_def)
      note made = Create_rule [OF w3 new_storable [OF n(1)] cr, unfolded id]
      let ?rest = "bnd (in_group_or_not s (cb_Username b) (GroupBreakGlass (sv_cfg s))) (\<lambda>bg.
          bnd (audit s ''request_created'' a (cb_Username b) (ID ?r) (cb_Justification b)
                 ''pending elevation request'' bg) (\<lambda>_.
          bnd (notifying s (\<lambda>n. PendingApprovers n ?r)) (\<lambda>_.
          Ret (writeJSON StatusCreated (request_json ?r)))))"
      have body: "run E (case y of Inl e \<Rightarrow> Ret (writeErr StatusInternalServerError e) | Inr _ \<Rightarrow> ?rest) w4 =
          (resp, w')"
        using r ac ig Inr 3 now i cr by (simp add: handleCreate_def run_simps Let_def)
      show thesis
      proof (cases y)
        case (Inl e)
        with made st3 have "still w w4" by (auto intro: still_trans)
        with body Inl codes show thesis by auto
      next
        case ok: (Inr u)
        with made have new: "requests w3 i = None" and st: "stores w3 ((requests w3)(i \<mapsto> ?r)) w4" by auto
        have rest: "run E ?rest w4 = (resp, w')" using body ok by simp
        have "keeps_books ?rest" by (intro keeps_intros keeps_Ret)
        from keeps_booksD [OF this _ rest] st have "book w4 w'" by (simp add: stores_def)
        moreover have "resp = writeJSON StatusCreated (request_json ?r)"
          using rest by (auto simp: run_simps split: prod.splits)
        ultimately show thesis
          using created [of b now i] Inr s1(1) n(1) member new stores_book [OF st] st3
          by (simp add: still_def)
      qed
    qed
  qed
qed

section \<open>Releasing\<close>

lemma release_cases:
  assumes "fine w" "requests w (ID req) = Some req"
    and r: "run E (release s req a act) w = (x, w')"
  obtains
    (failed) e m where "x = Inl e"
      "m \<in> {members w, members w - {(who (Username req), GroupActive (sv_cfg s))}}" "moves w m w'"
  | (released) now where "sane now" "x = Inr (released_request req now)" "fine w'"
      "requests w' = (requests w)(ID req \<mapsto> released_request req now)"
      "members w' = members w - {(who (Username req), GroupActive (sv_cfg s))}"
proof -
  let ?g = "GroupActive (sv_cfg s)"
  obtain y w1 where rem: "run E (kc_RemoveFromGroup (sv_kc s) (Username req) ?g) w = (y, w1)" by fastforce
  note removed = RemoveFromGroup_rule [OF assms(1) rem]
  show thesis
  proof (cases y)
    case (Inl e)
    with rem r have "x = Inl e" "w' = w1" by (simp_all add: release_def run_simps)
    with removed Inl failed show thesis by auto
  next
    case (Inr u)
    with removed have m1: "moves w (members w - {(who (Username req), ?g)}) w1" by simp
    then have w1: "fine w1" by (simp add: moves_def)
    obtain now o1 where now: "e_now E (w_other w1) = (now, o1)" by fastforce
    note n = now_still [OF w1 now]
    let ?r = "released_request req now" and ?w = "w1\<lparr>w_other := o1\<rparr>"
    have w: "fine ?w" "requests ?w (ID ?r) = Some req"
      using n(2) m1 assms(2) by (simp_all add: still_def moves_def)
    obtain z w2 where upd: "run E (Update ?r) ?w = (z, w2)" by fastforce
    have "storable_req ?r" using stored_storable [OF assms(1,2)] n(1) released_storable by blast
    note stored = Update_read [OF w _ this upd]
    show thesis
    proof (cases z)
      case (Inl e)
      with rem now upd Inr r have "x = Inl e" "w' = w2" by (simp_all add: release_def run_simps Let_def)
      with stored Inl m1 n(2) failed show thesis by (simp add: still_def moves_def)
    next
      case ok: (Inr v)
      with stored have st: "stores ?w ((requests ?w)(ID req \<mapsto> ?r)) w2" by simp
      let ?rest = "bnd (audit s act (if a = [] then ''system'' else a) (Username ?r) (ID ?r)
              (Justification ?r) (''removed from '' @ ?g) False) (\<lambda>_.
          bnd (notifying s (\<lambda>n. Released n ?r (release_reason act))) (\<lambda>_. Ret (Inr ?r)))"
      have rest: "run E ?rest w2 = (x, w')"
        using rem now upd Inr ok r by (simp add: release_def Let_def run_simps)
      have "keeps_books ?rest" by (intro keeps_intros keeps_Ret)
      from keeps_booksD [OF this _ rest] st have "book w2 w'" by (simp add: stores_def)
      moreover have "x = Inr ?r" using rest by (auto simp: run_simps split: prod.splits)
      ultimately show thesis
        using stores_book [OF st] m1 n released by (simp add: moves_def still_def)
    qed
  qed
qed

lemma may_release_rule:
  assumes "fine w" "run E (may_release s a req) w = (x, w')"
  shows "still w w'"
    "x = None \<Longrightarrow> a = [] \<or> a = Username req \<or> (who a, GroupPermanent (sv_cfg s)) \<in> members w"
    "x = Some resp \<Longrightarrow> rs_code resp \<in> {StatusBadGateway, StatusForbidden}"
proof -
  obtain y w1 where ig: "run E (kc_InGroup (sv_kc s) a (GroupPermanent (sv_cfg s))) w = (y, w1)" by fastforce
  note i = InGroup_rule [OF assms(1) ig]
  show "still w w'" using assms(2) ig i(1) still_refl [OF assms(1)]
    by (auto simp: may_release_def run_simps split: if_splits)
  show "a = [] \<or> a = Username req \<or> (who a, GroupPermanent (sv_cfg s)) \<in> members w" if "x = None"
    using that assms(2) ig i(2) by (auto simp: may_release_def run_simps split: if_splits sum.splits)
  show "rs_code resp \<in> {StatusBadGateway, StatusForbidden}" if "x = Some resp"
    using that assms(2) ig by (auto simp: may_release_def run_simps split: if_splits sum.splits)
qed

lemma handleRelease_cases:
  assumes w: "fine w" and r: "run E (handleRelease s rq pid) w = (resp, w')"
  obtains
    (refused) "still w w'"
      "rs_code resp \<in> {StatusNotFound, StatusConflict, StatusForbidden, StatusBadGateway}"
  | (allowed) req x w1 where "requests w pid = Some req" "Status req = StatusApproved"
      "asks rq w = [] \<or> asks rq w = Username req \<or> (who (asks rq w), GroupPermanent (sv_cfg s)) \<in> members w"
      "still w w1" "run E (release s req (asks rq w) ''early_release'') w1 = (x, w')"
      "resp = (case x of Inl e \<Rightarrow> writeErr StatusBadGateway e
               | Inr req' \<Rightarrow> writeJSON StatusOK (request_json req'))"
proof -
  note codes = refused [unfolded insert_iff]
  obtain a w1 where ac: "run E (actor s rq) w = (a, w1)" by fastforce
  note s1 = actor_rule [OF w ac]
  obtain y w2 where g: "run E (Get pid) w1 = (y, w2)" by fastforce
  have w1: "fine w1" using s1 by (simp add: still_def)
  have st2: "still w w2" using s1(2) Get_rule(1) [OF w1 g] by (rule still_trans)
  show thesis
  proof (cases y)
    case (Inl e)
    with r ac g st2 codes show thesis by (auto simp: handleRelease_def run_simps)
  next
    case (Inr req)
    have stored: "requests w pid = Some req" using Get_rule(2) [OF w1 g Inr] s1 by (simp add: still_def)
    show thesis
    proof (cases "Status req = StatusApproved")
      case False
      with r ac g Inr st2 codes show thesis by (auto simp: handleRelease_def run_simps)
    next
      case True
      obtain x w3 where m: "run E (may_release s a req) w2 = (x, w3)" by fastforce
      have w2: "fine w2" using st2 by (simp add: still_def)
      note mr = may_release_rule [OF w2 m]
      have st3: "still w w3" using st2 mr(1) by (rule still_trans)
      show thesis
      proof (cases x)
        case (Some answer)
        with r ac g Inr True m have "resp = answer" "w' = w3" by (auto simp: handleRelease_def run_simps)
        with mr(3) [OF Some] st3 codes show thesis by auto
      next
        case None
        obtain z w4 where rel: "run E (release s req a ''early_release'') w3 = (z, w4)" by fastforce
        have "resp = (case z of Inl e \<Rightarrow> writeErr StatusBadGateway e
               | Inr req' \<Rightarrow> writeJSON StatusOK (request_json req'))" "w' = w4"
          using r ac g Inr True m None rel by (auto simp: handleRelease_def run_simps)
        moreover have "a = [] \<or> a = Username req \<or> (who a, GroupPermanent (sv_cfg s)) \<in> members w"
          using mr(2) [OF None] st2 by (simp add: still_def)
        ultimately show thesis using allowed [OF stored True _ st3] rel s1(1) by simp
      qed
    qed
  qed
qed

section \<open>Reconciling\<close>

lemma expire_one_rule:
  assumes "fine w" "requests w (ID req) = Some req"
    and r: "run E (expire_one s req) w = (u, w')"
  shows "fine w'" "members w' = members w"
    "requests w' = requests w \<or> requests w' = (requests w)(ID req \<mapsto> req\<lparr>Status := StatusExpired\<rparr>)"
    "ok (fst (run E (Update (req\<lparr>Status := StatusExpired\<rparr>)) w)) \<Longrightarrow>
     requests w' = (requests w)(ID req \<mapsto> req\<lparr>Status := StatusExpired\<rparr>)"
proof -
  let ?r = "req\<lparr>Status := StatusExpired\<rparr>"
  obtain y w1 where upd: "run E (Update ?r) w = (y, w1)" by fastforce
  have "storable_req ?r" using stored_storable [OF assms(1,2)] by (simp add: storable_req_def)
  with Update_read [of w ?r req y w1] assms(1,2) upd
  have st: "case y of Inl e \<Rightarrow> still w w1 | Inr u \<Rightarrow> stores w ((requests w)(ID req \<mapsto> ?r)) w1"
    by (cases y) simp_all
  let ?rest = "case y of
        Inl e \<Rightarrow> log_line (''expire request '' @ ID ?r @ '': '' @ error_text e)
      | Inr _ \<Rightarrow>
          bnd (log_line (''expired pending request '' @ ID ?r @ '' user='' @ Username ?r)) (\<lambda>_.
          bnd (audit s ''request_expired'' ''system'' (Username ?r) (ID ?r) (Justification ?r)
                 ''request TTL elapsed'' False) (\<lambda>_.
          notifying s (\<lambda>n. RequestExpired n ?r)))"
  have rest: "run E ?rest w1 = (u, w')" using r by (simp only: expire_one_def Let_def run_bnd upd prod.case)
  have "keeps_books ?rest" by (auto intro!: keeps_intros split: sum.split)
  moreover have "fine w1" using st by (cases y) (simp_all add: still_def stores_def)
  ultimately have "book w1 w'" using rest by (rule keeps_booksD)
  with st show "fine w'" "members w' = members w"
    "requests w' = requests w \<or> requests w' = (requests w)(ID req \<mapsto> ?r)"
    by (cases y; simp add: still_def stores_def book_def)+
  show "requests w' = (requests w)(ID req \<mapsto> ?r)" if "ok (fst (run E (Update ?r) w))"
    using that upd st \<open>book w1 w'\<close> by (cases y) (simp_all add: stores_def book_def)
qed

lemma revoke_one_cases:
  assumes "fine w" "requests w (ID req) = Some req"
    and r: "run E (revoke_one s req) w = (u, w')"
  obtains
    (failed) m where "m \<in> {members w, members w - {(who (Username req), GroupActive (sv_cfg s))}}"
      "fine w'" "requests w' = requests w" "members w' = m"
      "ok (fst (run E (kc_RemoveFromGroup (sv_kc s) (Username req) (GroupActive (sv_cfg s))) w)) \<Longrightarrow>
       \<exists>w1 now. moves w (members w - {(who (Username req), GroupActive (sv_cfg s))}) w1 \<and> sane now \<and>
          \<not> ok (fst (run E (Update (released_request req now)) w1))"
  | (released) now where "sane now" "fine w'"
      "requests w' = (requests w)(ID req \<mapsto> released_request req now)"
      "members w' = members w - {(who (Username req), GroupActive (sv_cfg s))}"
proof -
  let ?g = "GroupActive (sv_cfg s)"
  obtain y w1 where rem: "run E (kc_RemoveFromGroup (sv_kc s) (Username req) ?g) w = (y, w1)" by fastforce
  note removed = RemoveFromGroup_rule [OF assms(1) rem]
  show thesis
  proof (cases y)
    case (Inl e)
    with removed obtain m where m: "m \<in> {members w, members w - {(who (Username req), ?g)}}" "moves w m w1"
      by auto
    have "run E (log_line (''revoke active '' @ ID req @ '': '' @ error_text e)) w1 = (u, w')"
      using rem r Inl by (simp add: revoke_one_def run_simps)
    from quietD [OF quiet_log _ this] m(2) have "still w1 w'" by (simp add: moves_def)
    with m Inl rem failed show thesis by (simp add: still_def moves_def)
  next
    case (Inr v)
    with removed have m1: "moves w (members w - {(who (Username req), ?g)}) w1" by simp
    then have w1: "fine w1" by (simp add: moves_def)
    obtain now o1 where now: "e_now E (w_other w1) = (now, o1)" by fastforce
    note n = now_still [OF w1 now]
    let ?r = "released_request req now" and ?w = "w1\<lparr>w_other := o1\<rparr>"
    have w: "fine ?w" "requests ?w (ID ?r) = Some req"
      using n(2) m1 assms(2) by (simp_all add: still_def moves_def)
    have mw: "moves w (members w - {(who (Username req), ?g)}) ?w"
      using m1 n(2) by (simp add: moves_def still_def)
    obtain z w2 where upd: "run E (Update ?r) ?w = (z, w2)" by fastforce
    have "storable_req ?r" using stored_storable [OF assms(1,2)] n(1) released_storable by blast
    note stored = Update_read [OF w _ this upd]
    let ?rest = "case z of
           Inl e \<Rightarrow> log_line (''update released '' @ ID ?r @ '': '' @ error_text e)
         | Inr _ \<Rightarrow>
             bnd (log_line (''revoked active grant '' @ ID ?r @ '' user='' @ Username ?r)) (\<lambda>_.
             bnd (audit s ''grant_expired'' ''system'' (Username ?r) (ID ?r) (Justification ?r)
                    ''active TTL elapsed; revoked'' False) (\<lambda>_.
             notifying s (\<lambda>n. Released n ?r ''expire'')))"
    have rest: "run E ?rest w2 = (u, w')"
      using r by (simp only: revoke_one_def Let_def run_bnd run_calls rem Inr now upd sum.case prod.case)
    have "keeps_books ?rest" by (auto intro!: keeps_intros split: sum.split)
    moreover have "fine w2" using stored by (cases z) (simp_all add: still_def stores_def)
    ultimately have b: "book w2 w'" using rest by (rule keeps_booksD)
    show thesis
    proof (cases z)
      case (Inl e)
      have "\<not> ok (fst (run E (Update ?r) ?w))" using upd Inl by simp
      with mw n(1) have "\<exists>w1 now. moves w (members w - {(who (Username req), ?g)}) w1 \<and> sane now \<and>
          \<not> ok (fst (run E (Update (released_request req now)) w1))" by blast
      moreover have "fine w' \<and> requests w' = requests w \<and> members w' = members w - {(who (Username req), ?g)}"
        using stored Inl b mw by (simp add: still_def book_def moves_def)
      ultimately show thesis using failed by blast
    next
      case ok: (Inr v)
      with stored b mw n(1) released show thesis by (simp add: stores_def book_def moves_def)
    qed
  qed
qed

end

end
