(* ===== verification/System.thy ===== *)
theory System
  imports Handlers
begin

text \<open>
  The service as a whole, one operation after the other: \<open>serves\<close> is a request that the
  router handles or a tick of the worker.  Every operation keeps the invariant \<open>fine\<close>, moves
  a request only along its lifecycle, and touches only the memberships of the active group.
  (That the log only grows is shown for every interleaving, in \<open>Interleaving\<close>.)
\<close>

section \<open>The lifecycle of a request\<close>

text \<open>What may become of a request in one operation: a new one is pending, a pending one is
  approved or expires, an approved one is released, and only the columns of \<open>Update\<close> change.\<close>

fun may_become :: "request option \<Rightarrow> request option \<Rightarrow> bool" where
  "may_become None None = True"
| "may_become None (Some r) = (Status r = StatusPending \<and> ApprovedAt r = None \<and> ReleasedAt r = None)"
| "may_become (Some q) None = False"
| "may_become (Some q) (Some r) =
     (q = r \<or>
      (same_subject q r \<and>
       ((Status q = StatusPending \<and> Status r \<in> {StatusApproved, StatusExpired}) \<or>
        (Status q = StatusApproved \<and> Status r = StatusReleased))))"

lemma may_become_refl [simp]: "may_become x x"
  by (cases x) simp_all

text \<open>The order of the statuses along the lifecycle.\<close>

definition later_status :: "string \<Rightarrow> string \<Rightarrow> bool" where
  "later_status a b \<longleftrightarrow>
     a = b \<or> (a = StatusPending \<and> b \<in> {StatusApproved, StatusExpired, StatusReleased}) \<or>
     (a = StatusApproved \<and> b = StatusReleased)"

lemma later_status_trans: "later_status a b \<Longrightarrow> later_status b c \<Longrightarrow> later_status a c"
  unfolding later_status_def by (auto simp: status_defs)

lemma may_become_Some: "may_become (Some q) x \<Longrightarrow> \<exists>r. x = Some r \<and> same_subject q r \<and> later_status (Status q) (Status r)"
  by (cases x) (auto simp: later_status_def)

lemma same_subject_trans: "same_subject a b \<Longrightarrow> same_subject b c \<Longrightarrow> same_subject a c"
  by (simp add: same_subject_def)

lemma approve_step [simp]:
  "Status q = StatusPending \<Longrightarrow> may_become (Some q) (Some (approved_request cfg q a n t))"
  by (simp add: approved_request_def same_subject_def)

lemma expire_step [simp]: "Status q = StatusPending \<Longrightarrow> may_become (Some q) (Some (q\<lparr>Status := StatusExpired\<rparr>))"
  by (simp add: same_subject_def)

lemma release_step [simp]: "Status q = StatusApproved \<Longrightarrow> may_become (Some q) (Some (released_request q t))"
  by (simp add: released_request_def same_subject_def)

lemma create_step [simp]: "may_become None (Some (new_request cfg i b t))"
  by (simp add: new_request_def)

section \<open>One operation\<close>

inductive serves ::
  "('d, 'k, 'o) env \<Rightarrow> service \<Rightarrow> ('d, 'k, 'o) world \<Rightarrow> ('d, 'k, 'o) world \<Rightarrow> bool"
  for E s
where
  serve_http: "run E (NewRouter index files s rq) w = (resp, w') \<Longrightarrow> serves E s w w'"
| serve_tick: "run E (tick s) w = (u, w') \<Longrightarrow> serves E s w w'"

inductive_cases serves_elim: "serves E s w w'"

context service_world
begin

text \<open>What an operation may do: \<open>g\<close> is the only group whose memberships change.\<close>

definition proper :: "('d, 'k, 'o) world \<Rightarrow> ('d, 'k, 'o) world \<Rightarrow> bool" where
  "proper w w' \<longleftrightarrow>
     fine w' \<and> (\<forall>i. may_become (requests w i) (requests w' i)) \<and>
     (\<forall>u g. g \<noteq> GroupActive (sv_cfg s) \<longrightarrow> ((u, g) \<in> members w' \<longleftrightarrow> (u, g) \<in> members w))"

lemma properI:
  assumes "fine w'" "\<And>i. may_become (requests w i) (requests w' i)"
    "\<And>u g. g \<noteq> GroupActive (sv_cfg s) \<Longrightarrow> (u, g) \<in> members w' \<longleftrightarrow> (u, g) \<in> members w"
  shows "proper w w'"
  using assms by (simp add: proper_def)

lemma properD:
  assumes "proper w w'"
  shows "fine w'" "may_become (requests w i) (requests w' i)"
    "g \<noteq> GroupActive (sv_cfg s) \<Longrightarrow> (u, g) \<in> members w' \<longleftrightarrow> (u, g) \<in> members w"
  using assms by (simp_all add: proper_def)

lemma still_proper: "still w w' \<Longrightarrow> proper w w'"
  by (rule properI) (simp_all add: still_def)

lemma book_proper: "book w w' \<Longrightarrow> proper w w'"
  by (rule properI) (simp_all add: book_def)

lemma quiet_proper: "quiet p \<Longrightarrow> fine w \<Longrightarrow> run E p w = (x, w') \<Longrightarrow> proper w w'"
  by (blast intro: still_proper dest: quietD)

lemma keeps_proper: "keeps_books p \<Longrightarrow> fine w \<Longrightarrow> run E p w = (x, w') \<Longrightarrow> proper w w'"
  by (blast intro: book_proper dest: keeps_booksD)

lemma approve_proper:
  assumes "fine w" "run E (handleApprove s rq pid) w = (resp, w')"
  shows "proper w w'"
  using assms
proof (rule handleApprove_cases)
  assume "still w w'"
  then show ?thesis by (rule still_proper)
next
  fix a nt req now w1
  assume req: "requests w pid = Some req" "Status req = StatusPending" and now: "sane now"
    and st: "still w w1"
    and r: "run E (if now > RequestExpiresAt req then expire_late s req else grant s req a nt now) w1 = (resp, w')"
  have id: "ID req = pid" using stored_storable assms(1) req(1) by blast
  have w1: "fine w1" "requests w1 (ID req) = Some req" using st req id by (simp_all add: still_def)
  show ?thesis
  proof (cases "now > RequestExpiresAt req")
    case True
    with r have "run E (expire_late s req) w1 = (resp, w')" by simp
    note e = expire_late_cases [OF w1 this]
    show ?thesis
      by (rule properI [OF e(1)]) (use e(2,4) req id st in \<open>auto simp: still_def simp del: may_become.simps\<close>)
  next
    case False
    with r have "run E (grant s req a nt now) w1 = (resp, w')" by simp
    with w1 now show ?thesis
    proof (rule grant_cases)
      fix m assume "m \<in> {members w1, insert (who (Username req), GroupActive (sv_cfg s)) (members w1)}" "moves w1 m w'"
      then show ?thesis using st by (intro properI) (auto simp: moves_def still_def)
    next
      assume "moves w1 (insert (who (Username req), GroupActive (sv_cfg s)) (members w1)) w'"
      then show ?thesis using st by (intro properI) (auto simp: moves_def still_def)
    next
      assume "fine w'" "requests w' = (requests w1)(ID req \<mapsto> approved_request (sv_cfg s) req a nt now)"
        "members w' = insert (who (Username req), GroupActive (sv_cfg s)) (members w1)"
      then show ?thesis
        using st req id by (intro properI) (auto simp: still_def simp del: may_become.simps)
    qed
  qed
qed

lemma create_proper:
  assumes "fine w" "run E (handleCreate s rq) w = (resp, w')"
  shows "proper w w'"
  using assms
proof (rule handleCreate_cases)
  assume "still w w'"
  then show ?thesis by (rule still_proper)
next
  fix b i now
  assume "requests w i = None" "fine w'" "members w' = members w"
    "requests w' = (requests w)(i \<mapsto> new_request (sv_cfg s) i b now)"
  then show ?thesis by (intro properI) (auto simp del: may_become.simps)
qed

lemma released_proper:
  assumes "requests w (ID req) = Some req" "Status req = StatusApproved" "fine w'"
    "requests w' = (requests w)(ID req \<mapsto> released_request req now)"
    "members w' = members w - {(u, GroupActive (sv_cfg s))}"
  shows "proper w w'"
  using assms by (intro properI) (auto simp del: may_become.simps)

lemma moves_proper:
  assumes "moves w m w'" "m \<in> {members w, members w - {(u, GroupActive (sv_cfg s))}}"
  shows "proper w w'"
  using assms by (intro properI) (auto simp: moves_def)

lemma proper_trans_still: "still w w1 \<Longrightarrow> proper w1 w' \<Longrightarrow> proper w w'"
  by (simp add: proper_def still_def)

lemma release_proper:
  assumes "fine w" "run E (handleRelease s rq pid) w = (resp, w')"
  shows "proper w w'"
  using assms
proof (rule handleRelease_cases)
  assume "still w w'"
  then show ?thesis by (rule still_proper)
next
  fix req x w1
  assume req: "requests w pid = Some req" "Status req = StatusApproved"
    and st: "still w w1" and r: "run E (release s req (asks rq w) ''early_release'') w1 = (x, w')"
  have "ID req = pid" using stored_storable assms(1) req(1) by blast
  then have w1: "fine w1" "requests w1 (ID req) = Some req" using st req by (simp_all add: still_def)
  have "proper w1 w'"
    using w1 r
  proof (rule release_cases)
    fix e m assume "moves w1 m w'" "m \<in> {members w1, members w1 - {(who (Username req), GroupActive (sv_cfg s))}}"
    then show ?thesis by (rule moves_proper)
  next
    fix now assume "fine w'" "requests w' = (requests w1)(ID req \<mapsto> released_request req now)"
        "members w' = members w1 - {(who (Username req), GroupActive (sv_cfg s))}"
    with w1 req(2) show ?thesis by (intro released_proper)
  qed
  with st show ?thesis by (rule proper_trans_still)
qed

section \<open>The sweep\<close>

text \<open>The two loops: each element is a row as it is in the table, and the ids are distinct.\<close>

lemma expire_all:
  assumes "fine w" "distinct (map ID rs)" "\<And>r. r \<in> set rs \<Longrightarrow> requests w (ID r) = Some r"
    "run E (for_each (expire_one s) rs) w = (u, w')"
  shows "fine w' \<and> members w' = members w \<and>
    (\<forall>i. requests w' i = requests w i \<or>
         (\<exists>r \<in> set rs. ID r = i \<and> requests w' i = Some (r\<lparr>Status := StatusExpired\<rparr>)))"
  using assms
proof (induction rs arbitrary: w)
  case Nil
  then show ?case by simp
next
  case (Cons r rs)
  obtain v w1 where one: "run E (expire_one s r) w = (v, w1)" by (rule prod.exhaust)
  note e = expire_one_rule [OF Cons.prems(1) Cons.prems(3) [of r] one]
  have r1: "requests w1 i = requests w i \<or> i = ID r \<and> requests w1 i = Some (r\<lparr>Status := StatusExpired\<rparr>)" for i
    using e(3) by (auto split: if_splits)
  have rest: "run E (for_each (expire_one s) rs) w1 = (u, w')"
    using Cons.prems(4) one by (simp add: run_simps)
  have "requests w1 (ID q) = Some q" if "q \<in> set rs" for q
    using that r1 [of "ID q"] Cons.prems(2) Cons.prems(3) [of q] by (auto simp: image_iff)
  from Cons.IH [OF _ _ this rest] e(1,2) Cons.prems(2) have
    ih: "fine w'" "members w' = members w1"
    "\<And>i. requests w' i = requests w1 i \<or>
         (\<exists>r \<in> set rs. ID r = i \<and> requests w' i = Some (r\<lparr>Status := StatusExpired\<rparr>))" by auto
  have "requests w' i = requests w i \<or>
         (\<exists>q \<in> set (r # rs). ID q = i \<and> requests w' i = Some (q\<lparr>Status := StatusExpired\<rparr>))" for i
    using ih(3) [of i] r1 [of i] by auto
  with ih(1,2) e(2) show ?case by simp
qed

lemma revoke_one_rule:
  assumes "fine w" "requests w (ID req) = Some req" "run E (revoke_one s req) w = (u, w')"
  shows "fine w'"
    "members w' \<in> {members w, members w - {(who (Username req), GroupActive (sv_cfg s))}}"
    "requests w' = requests w \<or>
     (\<exists>now. sane now \<and> requests w' = (requests w)(ID req \<mapsto> released_request req now) \<and>
        (who (Username req), GroupActive (sv_cfg s)) \<notin> members w')"
proof -
  have "fine w' \<and> members w' \<in> {members w, members w - {(who (Username req), GroupActive (sv_cfg s))}} \<and>
    (requests w' = requests w \<or>
     (\<exists>now. sane now \<and> requests w' = (requests w)(ID req \<mapsto> released_request req now) \<and>
        (who (Username req), GroupActive (sv_cfg s)) \<notin> members w'))"
    using assms
  proof (rule revoke_one_cases)
    fix m assume "m \<in> {members w, members w - {(who (Username req), GroupActive (sv_cfg s))}}"
      "fine w'" "requests w' = requests w" "members w' = m"
    then show ?thesis by simp
  next
    fix now assume "sane now" "fine w'"
      "requests w' = (requests w)(ID req \<mapsto> released_request req now)"
      "members w' = members w - {(who (Username req), GroupActive (sv_cfg s))}"
    then show ?thesis by blast
  qed
  then show "fine w'" "members w' \<in> {members w, members w - {(who (Username req), GroupActive (sv_cfg s))}}"
    "requests w' = requests w \<or>
     (\<exists>now. sane now \<and> requests w' = (requests w)(ID req \<mapsto> released_request req now) \<and>
        (who (Username req), GroupActive (sv_cfg s)) \<notin> members w')" by blast+
qed

lemma revoke_all:
  assumes "fine w" "distinct (map ID rs)" "\<And>r. r \<in> set rs \<Longrightarrow> requests w (ID r) = Some r"
    "run E (for_each (revoke_one s) rs) w = (u, w')"
  shows "fine w' \<and> members w' \<subseteq> members w \<and>
    (\<forall>x \<in> members w - members w'. \<exists>r \<in> set rs. x = (who (Username r), GroupActive (sv_cfg s))) \<and>
    (\<forall>i. requests w' i = requests w i \<or>
         (\<exists>r \<in> set rs. \<exists>now. ID r = i \<and> requests w' i = Some (released_request r now) \<and>
            (who (Username r), GroupActive (sv_cfg s)) \<notin> members w'))"
  using assms
proof (induction rs arbitrary: w)
  case Nil
  then show ?case by simp
next
  case (Cons r rs)
  let ?m = "\<lambda>r. (who (Username r), GroupActive (sv_cfg s))"
  obtain v w1 where one: "run E (revoke_one s r) w = (v, w1)" by (rule prod.exhaust)
  note e = revoke_one_rule [OF Cons.prems(1) Cons.prems(3) [of r] one]
  have r1: "requests w1 i = requests w i \<or>
      (\<exists>now. i = ID r \<and> requests w1 i = Some (released_request r now) \<and> ?m r \<notin> members w1)" for i
    using e(3) by (auto split: if_splits)
  have rest: "run E (for_each (revoke_one s) rs) w1 = (u, w')"
    using Cons.prems(4) one by (simp add: run_simps)
  have "requests w1 (ID q) = Some q" if "q \<in> set rs" for q
    using that r1 [of "ID q"] Cons.prems(2) Cons.prems(3) [of q] by (auto simp: image_iff)
  from Cons.IH [OF _ _ this rest] e(1) Cons.prems(2) have
    ih: "fine w'" "members w' \<subseteq> members w1"
    "\<And>x. x \<in> members w1 - members w' \<Longrightarrow> \<exists>r \<in> set rs. x = ?m r"
    "\<And>i. requests w' i = requests w1 i \<or>
         (\<exists>r \<in> set rs. \<exists>now. ID r = i \<and> requests w' i = Some (released_request r now) \<and> ?m r \<notin> members w')"
    by auto
  have sub: "members w1 \<subseteq> members w" "members w - members w1 \<subseteq> {?m r}" using e(2) by auto
  have "requests w' i = requests w i \<or>
         (\<exists>q \<in> set (r # rs). \<exists>now. ID q = i \<and> requests w' i = Some (released_request q now) \<and> ?m q \<notin> members w')" for i
    using ih(4) [of i] r1 [of i] ih(2) by auto
  moreover have "\<exists>q \<in> set (r # rs). x = ?m q" if "x \<in> members w - members w'" for x
    using that ih(3) [of x] sub by auto
  ultimately show ?case using ih(1,2) sub by auto
qed

text \<open>The whole sweep: what it expires was pending and overdue, what it releases was approved
  and overdue, and it takes away no other membership.\<close>

lemma reconcile_effect:
  assumes w: "fine w" and r: "run E (Reconcile s) w = (x, w')"
  shows "\<exists>now. now = fst (e_now E (w_other w)) \<and> sane now \<and> fine w' \<and> members w' \<subseteq> members w \<and>
    (\<forall>i. requests w' i = requests w i \<or>
       (\<exists>q. requests w i = Some q \<and> pending_overdue now q \<and>
            requests w' i = Some (q\<lparr>Status := StatusExpired\<rparr>)) \<or>
       (\<exists>q t. requests w i = Some q \<and> active_overdue now q \<and> requests w' i = Some (released_request q t) \<and>
            (who (Username q), GroupActive (sv_cfg s)) \<notin> members w')) \<and>
    (\<forall>y \<in> members w - members w'.
       \<exists>i q. requests w i = Some q \<and> active_overdue now q \<and> y = (who (Username q), GroupActive (sv_cfg s)))"
proof -
  let ?g = "GroupActive (sv_cfg s)"
  obtain now o1 where now: "e_now E (w_other w) = (now, o1)" by fastforce
  note n = now_still [OF w now]
  let ?w0 = "w\<lparr>w_other := o1\<rparr>"
  obtain p w1 where pend: "run E (PendingExpired now) ?w0 = (p, w1)" by fastforce
  have w0: "fine ?w0" using n(2) by (simp add: still_def)
  have "quiet (PendingExpired now)" by (simp add: PendingExpired_def byStatusBefore_def quiet_scan_rows)
  from n(2) quietD [OF this w0 pend] have st1: "still w w1" by (rule still_trans)
  show ?thesis
  proof (cases p)
    case (Inl e)
    with r now pend have "w' = w1" by (simp add: Reconcile_def run_simps)
    with st1 n(1) now show ?thesis by (auto simp: still_def)
  next
    case (Inr pending)
    have "store_ok (tabs (w_db ?w0))" using w0 by (simp add: fine_def)
    from pending_ok [OF this pend [unfolded Inr]]
    have ps: "distinct (map ID pending)" "set pending = {r \<in> ran (requests w). pending_overdue now r}" by simp_all
    obtain u1 w2 where loop1: "run E (for_each (expire_one s) pending) w1 = (u1, w2)" by (rule prod.exhaust)
    have w1: "fine w1" using st1 by (simp add: still_def)
    have rows1: "requests w1 (ID q) = Some q" if "q \<in> set pending" for q
    proof -
      have "q \<in> ran (requests w)" using that ps(2) by blast
      then obtain i where i: "requests w i = Some q" by (auto simp: ran_def)
      with stored_storable [OF w i] st1 show ?thesis by (simp add: still_def)
    qed
    from expire_all [OF w1 ps(1) rows1 loop1] have
      l1: "fine w2" "members w2 = members w1"
      "\<And>i. requests w2 i = requests w1 i \<or>
         (\<exists>r \<in> set pending. ID r = i \<and> requests w2 i = Some (r\<lparr>Status := StatusExpired\<rparr>))" by auto
    have first: "requests w2 i = requests w i \<or>
       (\<exists>q. requests w i = Some q \<and> pending_overdue now q \<and> requests w2 i = Some (q\<lparr>Status := StatusExpired\<rparr>))" for i
      using l1(3) [of i] st1 rows1 ps(2) by (auto simp: still_def)
    obtain z w3 where act: "run E (ActiveExpired now) w2 = (z, w3)" by fastforce
    have "quiet (ActiveExpired now)" by (simp add: ActiveExpired_def byStatusBefore_def quiet_scan_rows)
    note st3 = quietD [OF this l1(1) act]
    show ?thesis
    proof (cases z)
      case (Inl e)
      with r now pend Inr loop1 act have "w' = w3" by (simp add: Reconcile_def run_simps)
      with first st3 l1(2) st1 n(1) now show ?thesis by (intro exI [of _ now]) (auto simp: still_def)
    next
      case act_rows: (Inr active)
      have "store_ok (tabs (w_db w2))" using l1(1) by (simp add: fine_def)
      from active_ok [OF this act [unfolded act_rows]]
      have as: "distinct (map ID active)" "set active = {r \<in> ran (requests w2). active_overdue now r}" by simp_all
      obtain u2 w4 where loop2: "run E (for_each (revoke_one s) active) w3 = (u2, w4)" by (rule prod.exhaust)
      have w3: "fine w3" using st3 by (simp add: still_def)
      have rows2: "requests w3 (ID q) = Some q" if "q \<in> set active" for q
      proof -
        have "q \<in> ran (requests w2)" using that as(2) by blast
        then obtain i where i: "requests w2 i = Some q" by (auto simp: ran_def)
        with stored_storable [OF l1(1) i] st3 show ?thesis by (simp add: still_def)
      qed
      have same: "requests w (ID q) = Some q" if "q \<in> set active" for q
      proof -
        have "active_overdue now q" using that as(2) by blast
        then have "Status q = StatusApproved" by (simp add: overdue_def)
        with first [of "ID q"] rows2 [OF that] st3 show ?thesis by (auto simp: still_def)
      qed
      have "w' = w4" using r now pend Inr loop1 act act_rows loop2 by (simp add: Reconcile_def run_simps)
      with revoke_all [OF w3 as(1) rows2 loop2] have
        l2: "fine w'" "members w' \<subseteq> members w3"
        "\<And>y. y \<in> members w3 - members w' \<Longrightarrow> \<exists>r \<in> set active. y = (who (Username r), ?g)"
        "\<And>i. requests w' i = requests w3 i \<or>
         (\<exists>r \<in> set active. \<exists>t. ID r = i \<and> requests w' i = Some (released_request r t) \<and>
            (who (Username r), ?g) \<notin> members w')" by auto
      have mem: "members w3 = members w" using st3 l1(2) st1 by (simp add: still_def)
      have act_over: "active_overdue now q" if "q \<in> set active" for q using that as(2) by blast
      have "requests w' i = requests w i \<or>
       (\<exists>q. requests w i = Some q \<and> pending_overdue now q \<and>
            requests w' i = Some (q\<lparr>Status := StatusExpired\<rparr>)) \<or>
       (\<exists>q t. requests w i = Some q \<and> active_overdue now q \<and> requests w' i = Some (released_request q t) \<and>
            (who (Username q), ?g) \<notin> members w')" for i
        using l2(4) [of i] first [of i] st3 same act_over by (auto simp: still_def)
      moreover have "\<exists>i q. requests w i = Some q \<and> active_overdue now q \<and> y = (who (Username q), ?g)"
        if "y \<in> members w - members w'" for y
        using that l2(3) [of y] mem same act_over by blast
      moreover have "now = fst (e_now E (w_other w))" using now by simp
      ultimately show ?thesis using l2(1,2) mem n(1) by (intro exI [of _ now]) blast
    qed
  qed
qed

lemma reconcile_proper:
  assumes "fine w" "run E (Reconcile s) w = (x, w')"
  shows "proper w w'"
proof -
  obtain now where r: "fine w'" "members w' \<subseteq> members w"
    "\<And>i. requests w' i = requests w i \<or>
       (\<exists>q. requests w i = Some q \<and> pending_overdue now q \<and>
            requests w' i = Some (q\<lparr>Status := StatusExpired\<rparr>)) \<or>
       (\<exists>q t. requests w i = Some q \<and> active_overdue now q \<and> requests w' i = Some (released_request q t) \<and>
            (who (Username q), GroupActive (sv_cfg s)) \<notin> members w')"
    "\<And>y. y \<in> members w - members w' \<Longrightarrow>
       \<exists>i q. requests w i = Some q \<and> active_overdue now q \<and> y = (who (Username q), GroupActive (sv_cfg s))"
    using reconcile_effect [OF assms] by blast
  have "may_become (requests w i) (requests w' i)" for i
  proof -
    from r(3) [of i] show ?thesis
    proof (elim disjE exE conjE)
      fix q assume "requests w i = Some q" "pending_overdue now q" "requests w' i = Some (q\<lparr>Status := StatusExpired\<rparr>)"
      then show ?thesis using expire_step by (simp add: overdue_def del: may_become.simps)
    next
      fix q t assume "requests w i = Some q" "active_overdue now q" "requests w' i = Some (released_request q t)"
      then show ?thesis using release_step by (simp add: overdue_def del: may_become.simps)
    qed simp
  qed
  moreover have "(u, g) \<in> members w' \<longleftrightarrow> (u, g) \<in> members w" if "g \<noteq> GroupActive (sv_cfg s)" for u g
    using r(2) r(4) [of "(u, g)"] that by auto
  ultimately show ?thesis using r(1) by (intro properI)
qed

section \<open>Any operation\<close>

lemma tick_proper:
  assumes "fine w" "run E (tick s) w = (u, w')"
  shows "proper w w'"
proof -
  obtain x w1 where rec: "run E (Reconcile s) w = (x, w1)" by fastforce
  note p = reconcile_proper [OF assms(1) rec]
  have "run E (case x of Inl e \<Rightarrow> log_line (''reconcile: '' @ error_text e) | Inr _ \<Rightarrow> Ret ()) w1 = (u, w')"
    using assms(2) rec by (simp add: tick_def run_simps)
  moreover have "quiet (case x of Inl e \<Rightarrow> log_line (''reconcile: '' @ error_text e) | Inr _ \<Rightarrow> Ret ())"
    by (auto simp: quiet_log split: sum.split)
  ultimately have "still w1 w'" using properD(1) [OF p] quietD by metis
  with p show ?thesis by (simp add: proper_def still_def)
qed

lemma quiet_reads:
  "quiet (handleLogin s rq)" "quiet (handleCallback s rq)" "quiet (handleLogout s rq)"
  "quiet (handleAudit s rq)" "quiet (handleList s rq)" "quiet (handleGet s rq i)"
  unfolding handleLogin_def handleCallback_def handleLogout_def handleAudit_def handleList_def handleGet_def
    List_requests_def Let_def
  by (auto intro!: quiet_bnd quiet_LoginURL quiet_HandleCallback quiet_ListAudit quiet_scan_rows quiet_Get
      split: option.split)

lemma keeps_handleMe: "keeps_books (handleMe s rq)"
  unfolding handleMe_def
  by (auto intro!: keeps_intros quiet_keeps [OF quiet_actor])

text \<open>What the router answers without \<open>POST\<close> only keeps the books.\<close>

lemma keeps_get:
  assumes "rq_method rq \<noteq> ''POST''"
  shows "keeps_books (NewRouter index files s rq)"
proof -
  have "\<not> is_post rq" using assms by (simp add: is_post_def)
  then show ?thesis
    by (simp add: NewRouter_def Let_def quiet_reads [THEN quiet_keeps] keeps_handleMe)
qed

definition properly :: "'a prog \<Rightarrow> bool" where
  "properly p \<longleftrightarrow> (\<forall>w a w'. fine w \<longrightarrow> run E p w = (a, w') \<longrightarrow> proper w w')"

lemma properly_if: "properly p \<Longrightarrow> properly q \<Longrightarrow> properly (if c then p else q)"
  by simp

lemma keeps_properly: "keeps_books p \<Longrightarrow> properly p"
  unfolding properly_def by (intro allI impI) (rule keeps_proper)

lemma properly_handlers:
  "properly (handleCreate s rq)" "properly (handleApprove s rq i)" "properly (handleRelease s rq i)"
  unfolding properly_def
  by (intro allI impI; rule create_proper approve_proper release_proper; assumption)+

lemma router_proper:
  assumes "fine w" "run E (NewRouter index files s rq) w = (resp, w')"
  shows "proper w w'"
proof -
  have "properly (NewRouter index files s rq)"
    unfolding NewRouter_def Let_def
    by (intro properly_if properly_handlers keeps_properly keeps_handleMe keeps_Ret quiet_reads [THEN quiet_keeps])
  with assms show ?thesis unfolding properly_def by blast
qed

lemma serves_proper:
  assumes "serves E s w w'" "fine w"
  shows "proper w w'"
  using assms by (cases rule: serves.cases) (auto intro: router_proper tick_proper)

text \<open>Any number of operations.\<close>

lemma served_proper:
  assumes "(serves E s)\<^sup>*\<^sup>* w w'" "fine w"
  shows "fine w' \<and>
    (\<forall>i q. requests w i = Some q \<longrightarrow>
       (\<exists>r. requests w' i = Some r \<and> same_subject q r \<and> later_status (Status q) (Status r))) \<and>
    (\<forall>u g. g \<noteq> GroupActive (sv_cfg s) \<longrightarrow> ((u, g) \<in> members w' \<longleftrightarrow> (u, g) \<in> members w))"
  using assms
proof (induction rule: rtranclp_induct)
  case base
  then show ?case by (auto simp: later_status_def)
next
  case (step v v')
  then have ih: "fine v" "\<And>i q. requests w i = Some q \<Longrightarrow>
       \<exists>r. requests v i = Some r \<and> same_subject q r \<and> later_status (Status q) (Status r)"
    "\<And>u g. g \<noteq> GroupActive (sv_cfg s) \<Longrightarrow> (u, g) \<in> members v \<longleftrightarrow> (u, g) \<in> members w" by blast+
  note p = properD [OF serves_proper [OF step.hyps(2) ih(1)]]
  have "\<exists>r. requests v' i = Some r \<and> same_subject q r \<and> later_status (Status q) (Status r)"
    if q: "requests w i = Some q" for i q
  proof -
    obtain r where r: "requests v i = Some r" "same_subject q r" "later_status (Status q) (Status r)"
      using ih(2) [OF q] by blast
    from p(2) [of i] r(1) have "may_become (Some r) (requests v' i)" by simp
    from may_become_Some [OF this] r(2,3) same_subject_trans later_status_trans show ?thesis by blast
  qed
  with p(1,3) ih(3) show ?case by blast
qed

end

section \<open>The program as it is built\<close>

text \<open>The service of \<open>main\<close>: the real client of Keycloak, sessions, and the notifier, on a
  database and a Keycloak server that keep their contracts.\<close>

locale pim =
  service_db E tabs + keycloak_api E fair cfg user_id group_id in_grp
  for E :: "('d, 'k, 'o) env" and tabs :: "'d \<Rightarrow> tables" and fair :: "'o \<Rightarrow> bool"
    and cfg :: config and user_id :: "string \<Rightarrow> string option" and group_id :: "string \<Rightarrow> string option"
    and in_grp :: "'k \<Rightarrow> (string \<times> string) set" +
  assumes durations: "ttl_ok cfg"

sublocale pim \<subseteq> service_world E tabs "make_service cfg" identity in_grp ids_ok fair
proof (intro service_world.intro service_world_axioms.intro)
  show "service_db E tabs" by (rule service_db_axioms)
  show "groups_iface E (sv_kc (make_service cfg)) identity in_grp ids_ok fair"
    using groups_iface_axioms by (simp add: make_service_def NewService_def)
  show "clock E fair" by (rule clock_axioms)
  show "ttl_ok (sv_cfg (make_service cfg))" using durations by (simp add: make_service_def NewService_def)
qed (rule keycloak_api.token_frame [OF keycloak_api_axioms] keycloak_api.get_frame [OF keycloak_api_axioms], assumption)+

end
