(* ===== verification/Reference.thy ===== *)
theory Reference
  imports Handlers
begin

text \<open>
  An executable environment that satisfies every contract: an engine on the tables with a
  script of faults, a clock that ticks, and a membership server behind three program-level
  operations, as the test double of \<open>api_test.go\<close>.  It is no part of the service; it shows
  that the contracts can be met, and the witnesses run on it.
\<close>

section \<open>The engine\<close>

text \<open>The tables and the script: one entry per statement, \<open>True\<close> for a fault.\<close>

type_synonym engine = "tables \<times> bool list"

fun exec_fun :: "exec_stmt \<Rightarrow> tables \<Rightarrow> error + ((nat \<times> int) \<times> tables)" where
  "exec_fun CreateTableRequests t =
     Inr ((0, 0), if has_requests t then t
          else t\<lparr>has_requests := True, has_notes := True, t_requests := []\<rparr>)"
| "exec_fun CreateTableAudit t =
     Inr ((0, 0), if has_audit t then t else t\<lparr>has_audit := True, t_audit := [], t_seq := 0\<rparr>)"
| "exec_fun CreateTableNotifications t =
     Inr ((0, 0), if has_notifs t then t else t\<lparr>has_notifs := True, t_notifs := []\<rparr>)"
| "exec_fun AddColumnApprovalNotes t =
     (if \<not> has_requests t then Inl (Ext ''no such table: requests'')
      else if has_notes t then Inl (Ext ''duplicate column name: approval_notes'')
      else Inr ((0, 0), t\<lparr>has_notes := True,
             t_requests := map (\<lambda>r. r\<lparr>c_approval_notes := []\<rparr>) (t_requests t)\<rparr>))"
| "exec_fun (InsertRequest r) t =
     (if \<not> has_requests t \<or> \<not> has_notes t then Inl (Ext ''no such table: requests'')
      else if c_id r \<in> c_id ` set (t_requests t) then Inl (Ext ''UNIQUE constraint failed: requests.id'')
      else Inr ((1, 0), t\<lparr>t_requests := t_requests t @ [r]\<rparr>))"
| "exec_fun (UpdateRequest st aat aby aexp rel nt rid) t =
     (if \<not> has_requests t \<or> \<not> has_notes t then Inl (Ext ''no such table: requests'')
      else Inr ((length (filter (\<lambda>r. c_id r = rid) (t_requests t)), 0),
             t\<lparr>t_requests :=
               map (\<lambda>r. if c_id r = rid then update_row st aat aby aexp rel nt r else r)
                 (t_requests t)\<rparr>))"
| "exec_fun (InsertAudit e) t =
     (if \<not> has_audit t then Inl (Ext ''no such table: audit_events'')
      else Inr ((1, t_seq t + 1),
             t\<lparr>t_audit := t_audit t @ [e\<lparr>a_id := t_seq t + 1\<rparr>], t_seq := t_seq t + 1\<rparr>))"
| "exec_fun (InsertNotification e) t =
     (if \<not> has_notifs t then Inl (Ext ''no such table: notifications'')
      else if notif_key e \<in> notif_key ` set (t_notifs t) then Inr ((0, 0), t)
      else Inr ((1, 0), t\<lparr>t_notifs := t_notifs t @ [e]\<rparr>))"

definition engine_exec :: "exec_stmt \<Rightarrow> engine \<Rightarrow> (error + nat \<times> int) \<times> engine" where
  "engine_exec st d =
     (case d of (t, fs) \<Rightarrow>
        if take 1 fs = [True] then (Inl (Ext ''disk I/O error''), (t, drop 1 fs))
        else (case exec_fun st t of
            Inl e \<Rightarrow> (Inl e, (t, drop 1 fs))
          | Inr (r, t') \<Rightarrow> (Inr r, (t', drop 1 fs))))"

fun insert_newest :: "req_row \<Rightarrow> req_row list \<Rightarrow> req_row list" where
  "insert_newest r [] = [r]"
| "insert_newest r (s # ss) =
     (if text_le (c_created_at s) (c_created_at r) then r # s # ss else s # insert_newest r ss)"

fun query_fun :: "req_query \<Rightarrow> tables \<Rightarrow> req_row list" where
  "query_fun (SelectRequest rid) t = filter (\<lambda>r. c_id r = rid) (t_requests t)"
| "query_fun SelectRequests t = foldr insert_newest (t_requests t) []"
| "query_fun (SelectByStatusBefore st col now) t =
     filter (\<lambda>r. c_status r = st \<and>
            (case col_value col r of None \<Rightarrow> False | Some v \<Rightarrow> text_le v now)) (t_requests t)"

definition engine_query :: "req_query \<Rightarrow> engine \<Rightarrow> (error + req_row list) \<times> engine" where
  "engine_query q d =
     (if has_requests (fst d) \<and> has_notes (fst d) then (Inr (query_fun q (fst d)), d)
      else (Inl (Ext ''no such table: requests''), d))"

fun engine_audit :: "audit_query \<Rightarrow> engine \<Rightarrow> (error + audit_row list) \<times> engine" where
  "engine_audit (SelectAudit rid act bg n) d =
     (if has_audit (fst d)
      then (Inr (take (nat n) (rev (filter (audit_match rid act bg) (t_audit (fst d))))), d)
      else (Inl (Ext ''no such table: audit_events''), d))"

definition engine_healthy :: "engine \<Rightarrow> bool" where
  "engine_healthy d \<longleftrightarrow> True \<notin> set (snd d)"

lemma exec_fun_sem: "exec_fun st t = Inr (r, t') \<Longrightarrow> exec_sem st t r t'"
  by (cases st) (auto split: if_splits)

lemma exec_fun_total: "exec_sem st t n t' \<Longrightarrow> ok (exec_fun st t)"
  by (cases n; cases st) auto

lemma insert_newest_mset: "mset (insert_newest r rs) = add_mset r (mset rs)"
  by (induction rs) auto

lemma insert_newest_sorted:
  "sorted_wrt (\<lambda>r s. text_le (c_created_at s) (c_created_at r)) rs \<Longrightarrow>
   sorted_wrt (\<lambda>r s. text_le (c_created_at s) (c_created_at r)) (insert_newest r rs)"
proof (induction rs)
  case (Cons s ss)
  have set: "set (insert_newest r ss) = insert r (set ss)"
    using insert_newest_mset [of r ss] by (metis set_mset_add_mset_insert set_mset_mset)
  show ?case
  proof (cases "text_le (c_created_at s) (c_created_at r)")
    case True
    with Cons.prems show ?thesis by (auto intro: text_le_trans)
  next
    case False
    then have "text_le (c_created_at r) (c_created_at s)"
      using text_less_linear text_le_iff by blast
    with False Cons set show ?thesis by auto
  qed
qed simp

lemma query_fun_sem:
  assumes "has_requests t" "has_notes t"
  shows "query_sem q t (query_fun q t)"
proof (cases q)
  case SelectRequests
  have "mset (foldr insert_newest rs []) = mset rs" for rs
    by (induction rs) (simp_all add: insert_newest_mset)
  moreover have "sorted_wrt (\<lambda>r s. text_le (c_created_at s) (c_created_at r)) (foldr insert_newest rs [])" for rs
    by (induction rs) (simp_all add: insert_newest_sorted)
  ultimately show ?thesis using assms SelectRequests by (simp add: same_rows_def)
qed (use assms in simp_all)

interpretation reference_engine: sqlite_up engine_exec engine_query engine_audit fst engine_healthy
proof (unfold_locales, goal_cases)
  case (1 st d r d')
  then show ?case
    by (auto simp: engine_exec_def exec_fun_sem split: prod.splits sum.splits if_splits)
next
  case (2 st d e d')
  then show ?case by (auto simp: engine_exec_def split: prod.splits sum.splits if_splits)
next
  case (3 q d rs d')
  then show ?case by (auto simp: engine_query_def query_fun_sem split: if_splits)
next
  case (4 q d rq d')
  then show ?case by (auto simp: engine_query_def split: if_splits)
next
  case (5 a d es d')
  then show ?case by (cases a) (auto split: if_splits)
next
  case (6 a d ra d')
  then show ?case by (cases a) (auto split: if_splits)
next
  case (7 d e d')
  have "\<not> Contains (ToLower ''disk I/O error'') ''duplicate''"
    "\<not> Contains (ToLower ''no such table: requests'') ''duplicate''"
    by (simp_all add: to_lower_def)
  moreover have "has_requests (fst d) \<and> has_notes (fst d) \<or>
      e = Ext ''disk I/O error'' \<or> e = Ext ''no such table: requests''"
    using 7(1) by (cases d; cases "has_requests (fst d)"; cases "has_notes (fst d)")
      (simp_all add: engine_exec_def split: if_splits)
  ultimately show ?case using 7(2) by (metis error_text.simps(2))
next
  case (8 d st r d')
  then show ?case
    by (auto simp: engine_exec_def engine_healthy_def split: prod.splits sum.splits if_splits dest: in_set_dropD)
next
  case (9 d q rq d')
  then show ?case by (auto simp: engine_query_def split: if_splits)
next
  case (10 d a ra d')
  then show ?case by (cases a) (auto split: if_splits)
next
  case (11 d st n t)
  then have "ok (exec_fun st (fst d))" by (auto dest: exec_fun_total)
  moreover have "take 1 (snd d) \<noteq> [True]"
    using 11(1) by (cases "snd d") (auto simp: engine_healthy_def)
  ultimately show ?case by (auto simp: engine_exec_def split: prod.split sum.split)
next
  case (12 d q rs)
  then show ?case by (cases q) (auto simp: engine_query_def)
next
  case (13 d a es)
  then show ?case by (cases a) auto
next
  case (14 d e d')
  have "take 1 (snd d) \<noteq> [True]" using 14(1) by (cases "snd d") (auto simp: engine_healthy_def)
  with 14 show ?case by (cases d) (auto simp: engine_exec_def)
qed

section \<open>Clock, entropy, webhook, membership server\<close>

text \<open>The rest of the outside: the time of the next reading (the clock advances by a
  millisecond), a counter that feeds the entropy, and the posts that were received
  (one address of a receiver is out of order).\<close>

record outside =
  o_time :: time
  o_count :: nat
  o_posts :: nat

definition ref_now :: "outside \<Rightarrow> time \<times> outside" where
  "ref_now x = (o_time x, x\<lparr>o_time := (if o_time x + 1000000 \<le> 284018400000000000000 then o_time x + 1000000 else o_time x)\<rparr>)"

definition ref_rand :: "nat \<Rightarrow> outside \<Rightarrow> (error + string) \<times> outside" where
  "ref_rand n x = (Inr (replicate n (char_of (o_count x))), x\<lparr>o_count := o_count x + 1\<rparr>)"

definition ref_webhook :: "http_request \<Rightarrow> outside \<Rightarrow> (error + http_response) \<times> outside" where
  "ref_webhook q x =
     (Inr (if hq_url q = ''http://down'' then \<lparr>hp_code = 503, hp_status = ''503'', hp_body = []\<rparr>
           else \<lparr>hp_code = 200, hp_status = ''200 OK'', hp_body = ''ok''\<rparr>), x\<lparr>o_posts := o_posts x + 1\<rparr>)"

text \<open>The server: pairs of user and group, and the users whose memberships it refuses to
  change.  A request names the user in its URL and the group in its body.\<close>

record directory =
  d_members :: "(string \<times> string) list"
  d_broken :: "string list"

definition yes_no :: "bool \<Rightarrow> http_response" where
  "yes_no b = \<lparr>hp_code = (if b then 200 else 404), hp_status = [], hp_body = []\<rparr>"

definition ref_keycloak :: "http_request \<Rightarrow> directory \<Rightarrow> (error + http_response) \<times> directory" where
  "ref_keycloak q k =
     (let p = (hq_url q, hq_body q) in
      if hq_method q = ''GET'' then (Inr (yes_no (p \<in> set (d_members k))), k)
      else if hq_url q \<in> set (d_broken k) then (Inl (Ext ''connection refused''), k)
      else if hq_method q = ''PUT'' then (Inr (yes_no True), k\<lparr>d_members := p # d_members k\<rparr>)
      else if hq_method q = ''DELETE'' then
        (Inr (yes_no True), k\<lparr>d_members := filter (\<lambda>x. x \<noteq> p) (d_members k)\<rparr>)
      else (Inr (yes_no False), k))"

definition ref_call :: "string \<Rightarrow> string \<Rightarrow> string \<Rightarrow> (error + http_response) prog" where
  "ref_call verb u g = Keycloak \<lparr>hq_method = verb, hq_url = u, hq_header = [], hq_body = g\<rparr> Ret"

definition ref_groups :: groups where
  "ref_groups =
     \<lparr>kc_InGroup = (\<lambda>u g. bnd (ref_call ''GET'' u g) (\<lambda>r. Ret (map_sum id (\<lambda>p. hp_code p = 200) r))),
      kc_AddToGroup = (\<lambda>u g. bnd (ref_call ''PUT'' u g) (\<lambda>r. Ret (map_sum id (\<lambda>_. ()) r))),
      kc_RemoveFromGroup = (\<lambda>u g. bnd (ref_call ''DELETE'' u g) (\<lambda>r. Ret (map_sum id (\<lambda>_. ()) r)))\<rparr>"

definition ref_env :: "(engine, directory, outside) env" where
  "ref_env =
     \<lparr>e_exec = engine_exec, e_query = engine_query, e_audit = engine_audit, e_keycloak = ref_keycloak,
      e_webhook = ref_webhook, e_now = ref_now, e_rand = ref_rand\<rparr>"

definition ref_fair :: "outside \<Rightarrow> bool" where
  "ref_fair x \<longleftrightarrow> sane (o_time x)"

interpretation reference_clock: clock ref_env ref_fair
proof (unfold_locales, goal_cases)
  case (1 x t x')
  then show ?case by (auto simp: ref_env_def ref_now_def ref_fair_def sane_def split: if_splits)
next
  case (2 x n bs x')
  then show ?case by (auto simp: ref_env_def ref_rand_def ref_fair_def)
next
  case (3 x q res x')
  then show ?case by (auto simp: ref_env_def ref_webhook_def ref_fair_def)
qed

interpretation reference_groups: groups_iface ref_env ref_groups id "\<lambda>k. set (d_members k)" "\<lambda>_. True" ref_fair
proof (unfold_locales, goal_cases)
  case (1 w u g r w')
  then show ?case by (auto simp: ref_groups_def ref_call_def ref_env_def ref_keycloak_def calm_def)
next
  case (2 w u g b w')
  then show ?case by (auto simp: ref_groups_def ref_call_def ref_env_def ref_keycloak_def yes_no_def split: if_splits)
next
  case (3 w u g a w')
  then show ?case
    by (auto simp: ref_groups_def ref_call_def ref_env_def ref_keycloak_def calm_def Let_def split: if_splits)
next
  case (4 w u g w')
  then show ?case
    by (auto simp: ref_groups_def ref_call_def ref_env_def ref_keycloak_def Let_def split: if_splits)
next
  case (5 w u g a w')
  then show ?case
    by (auto simp: ref_groups_def ref_call_def ref_env_def ref_keycloak_def calm_def Let_def split: if_splits)
next
  case (6 w u g w')
  then show ?case
    by (auto simp: ref_groups_def ref_call_def ref_env_def ref_keycloak_def Let_def split: if_splits)
qed

interpretation reference_up: groups_up ref_env ref_groups id "\<lambda>k. set (d_members k)" "\<lambda>_. True" ref_fair
  "\<lambda>k u g. u \<notin> set (d_broken k)"
proof (unfold_locales, goal_cases)
  case (1 w u g r w')
  then show ?case by (auto simp: ref_groups_def ref_call_def ref_env_def ref_keycloak_def)
next
  case (2 w u g a w')
  then show ?case
    by (auto simp: ref_groups_def ref_call_def ref_env_def ref_keycloak_def Let_def split: if_splits)
next
  case (3 w u g a w')
  then show ?case
    by (auto simp: ref_groups_def ref_call_def ref_env_def ref_keycloak_def Let_def split: if_splits)
qed

interpretation reference_db: service_db_up ref_env fst engine_healthy
proof -
  have "sqlite_up (e_exec ref_env) (e_query ref_env) (e_audit ref_env) fst engine_healthy"
    using reference_engine.sqlite_up_axioms by (simp add: ref_env_def)
  then show "service_db_up ref_env fst engine_healthy" by (rule service_db_up.intro)
qed

interpretation reference_posts: posting ref_env fst o_posts
proof (intro posting.intro posting_axioms.intro)
  show "sqlite (e_exec ref_env) (e_query ref_env) (e_audit ref_env) fst"
    using reference_engine.sqlite_axioms by (simp add: ref_env_def)
qed (auto simp: ref_env_def ref_webhook_def ref_now_def ref_rand_def)

text \<open>A service on this environment: the configuration of an empty environment, header
  authentication, no OIDC, a webhook.\<close>

definition ref_config :: config where
  "ref_config =
     \<lparr>ListenAddr = '':8080'', DBPath = ''/data/pim.db'', PublicURL = ''http://pim'',
      BaseURL = ''http://kc'', PublicBaseURL = [], Realm = ''pim-test'', ClientID = ''pim-service'',
      ClientSecret = [], OIDCEnabled = False, OIDCClientID = ''pim-web'', OIDCClientSecret = [],
      OIDCRedirectURL = [], SessionSecret = ''secret'', AllowHeaderAuth = True,
      NotifyWebhookURL = ''http://hook'', GroupEligible = ''admin-eligible'',
      GroupActive = ''admin-active'', GroupPermanent = ''admin-permanent'',
      GroupBreakGlass = ''break-glass'', RequestTTL = 3600000000000, ActiveTTL = 32400000000000,
      PollInterval = 30000000000\<rparr>"

definition ref_service :: service where
  "ref_service =
     NewService ref_config ref_groups None (Some (New ''http://hook'' ''http://pim''))"

interpretation reference: service_world ref_env fst ref_service id "\<lambda>k. set (d_members k)" "\<lambda>_. True" ref_fair
proof (intro service_world.intro service_world_axioms.intro)
  show "service_db ref_env fst" by (rule reference_db.service_db_axioms)
  show "groups_iface ref_env (sv_kc ref_service) id (\<lambda>k. set (d_members k)) (\<lambda>_. True) ref_fair"
    using reference_groups.groups_iface_axioms by (simp add: ref_service_def NewService_def)
  show "clock ref_env ref_fair" by (rule reference_clock.clock_axioms)
  show "ttl_ok (sv_cfg ref_service)"
    by (simp add: ttl_ok_def ref_service_def NewService_def ref_config_def)
qed (auto simp: ref_env_def ref_keycloak_def form_request_def bearer_request_def Let_def split: if_splits)

section \<open>Worlds for the examples\<close>

definition ref_tables :: "request list \<Rightarrow> tables" where
  "ref_tables qs =
     \<lparr>has_requests = True, has_notes = True, has_audit = True, has_notifs = True,
      t_requests = map row_of qs, t_audit = [], t_seq = 0, t_notifs = []\<rparr>"

text \<open>The stored requests, the script of faults, the memberships, the users the directory cannot
  change, and the time.\<close>

definition ref_world ::
  "request list \<Rightarrow> bool list \<Rightarrow> (string \<times> string) list \<Rightarrow> string list \<Rightarrow> time \<Rightarrow>
   (engine, directory, outside) world"
where
  "ref_world qs faults ms broken t =
     \<lparr>w_db = (ref_tables qs, faults), w_kc = \<lparr>d_members = ms, d_broken = broken\<rparr>,
      w_other = \<lparr>o_time = t, o_count = 0, o_posts = 0\<rparr>,
      w_client = \<lparr>cachedToken = [], tokenExpiry = zero_time, groupIDs = Map.empty\<rparr>,
      w_manager = Map.empty, w_log = [], w_held = {}\<rparr>"

text \<open>A moment in 2025, and requests of alice.\<close>

definition noon :: time where "noon = 63897638400000000000"

definition ref_request :: "string \<Rightarrow> string \<Rightarrow> time \<Rightarrow> time option \<Rightarrow> request" where
  "ref_request i st deadline active =
     \<lparr>ID = i, Username = ''alice'', Justification = ''fix the outage'', Status = st,
      CreatedAt = noon, RequestExpiresAt = deadline, ApprovedAt = None, ApprovedBy = [],
      ApprovalNotes = [], ActiveExpiresAt = active, ReleasedAt = None\<rparr>"

lemma noon_sane: "sane noon" "storable noon"
  by (simp_all add: noon_def sane_def storable_def days_before_year_def Second_def)

lemma ref_request_storable:
  "storable t \<Longrightarrow> pred_option storable a \<Longrightarrow> storable_req (ref_request i st t a)"
  by (simp add: storable_req_def ref_request_def noon_sane)

lemma ref_request_simps [simp]:
  "ID (ref_request i st t a) = i" "Username (ref_request i st t a) = ''alice''"
  "Status (ref_request i st t a) = st" "RequestExpiresAt (ref_request i st t a) = t"
  "ActiveExpiresAt (ref_request i st t a) = a"
  by (simp_all add: ref_request_def)

lemma ref_tables_ok:
  assumes "list_all storable_req qs" "distinct (map ID qs)"
  shows "store_ok (ref_tables qs)" "requests_of (ref_tables qs) = qs"
    "reqs (ref_tables qs) = map_of (map (\<lambda>q. (ID q, q)) qs)"
    "audit_ok (ref_tables qs)" "events_of (ref_tables qs) = []"
    "notif_ok (ref_tables qs)" "marks (ref_tables qs) = {}"
proof -
  show "store_ok (ref_tables qs)"
    by (rule store_okI [OF _ _ assms]) (simp_all add: ref_tables_def)
  show r: "requests_of (ref_tables qs) = qs"
    by (rule requests_of_map_row [OF assms(1)]) (simp add: ref_tables_def)
  show "reqs (ref_tables qs) = map_of (map (\<lambda>q. (ID q, q)) qs)" by (simp add: reqs_def r)
qed (simp_all add: ref_tables_def audit_ok_def events_of_def notif_ok_def marks_def)

lemma ref_world_simps [simp]:
  "w_db (ref_world qs faults ms broken t) = (ref_tables qs, faults)"
  "w_kc (ref_world qs faults ms broken t) = \<lparr>d_members = ms, d_broken = broken\<rparr>"
  "w_other (ref_world qs faults ms broken t) = \<lparr>o_time = t, o_count = 0, o_posts = 0\<rparr>"
  "w_held (ref_world qs faults ms broken t) = {}" "w_manager (ref_world qs faults ms broken t) = Map.empty"
  by (simp_all add: ref_world_def)

lemma ref_world_fine:
  assumes "list_all storable_req qs" "distinct (map ID qs)" "sane t"
  shows "reference.fine (ref_world qs faults ms broken t)"
  using ref_tables_ok [OF assms(1,2)] assms(3) by (simp add: reference.fine_def ref_fair_def)

end
