(* ===== verification/StoreSpec.thy ===== *)
theory StoreSpec
  imports Reference
begin

text \<open>
  The properties of the store: what comes back from the rows, what the two listings of the
  sweep contain, and where the comparison of times as texts goes wrong.
\<close>

section \<open>The listings of the sweep\<close>

context service_db
begin

lemma overdue_soon:
  assumes "overdue st due now r" "storable now" "storable_req r" "due r = Some t" "storable t"
  shows "t < now + Second"
  using assms Format_le_early [of t now] by (simp add: overdue_def)

lemma long_overdue:
  assumes "Status r = st" "due r = Some t" "t + Second \<le> now" "storable t" "storable now"
  shows "overdue st due now r"
  using assms Format_le_late [of t now] by (simp add: overdue_def)

lemma stored_deadlines:
  assumes "store_ok (tabs (w_db w))" "reqs (tabs (w_db w)) i = Some r"
  shows "storable (RequestExpiresAt r)" "ActiveExpiresAt r = Some t \<Longrightarrow> storable t" "storable_req r"
  using reqs_storable [OF assms] by (auto simp: storable_req_def)

lemma pending_listing:
  assumes "store_ok (tabs (w_db w))" "storable now" "run E (PendingExpired now) w = (Inr rs, w')"
  shows "distinct (map ID rs)"
    "\<forall>r \<in> set rs. reqs (tabs (w_db w)) (ID r) = Some r \<and> Status r = StatusPending \<and> RequestExpiresAt r < now + Second"
    "\<forall>i r. reqs (tabs (w_db w)) i = Some r \<longrightarrow> Status r = StatusPending \<longrightarrow>
       RequestExpiresAt r + Second \<le> now \<longrightarrow> r \<in> set rs"
proof -
  from pending_ok [OF assms(1,3)]
  have rs: "distinct (map ID rs)" "set rs = {r \<in> ran (reqs (tabs (w_db w))). pending_overdue now r}" by simp_all
  then show "distinct (map ID rs)" by simp
  show "\<forall>r \<in> set rs. reqs (tabs (w_db w)) (ID r) = Some r \<and> Status r = StatusPending \<and> RequestExpiresAt r < now + Second"
  proof
    fix r assume "r \<in> set rs"
    with rs(2) have over: "pending_overdue now r" and "r \<in> ran (reqs (tabs (w_db w)))" by blast+
    then obtain i where i: "reqs (tabs (w_db w)) i = Some r" by (auto simp: ran_def)
    note st = stored_deadlines [OF assms(1) i]
    from i reqs_ID [OF i] overdue_soon [OF over assms(2) st(3) _ st(1)] over
    show "reqs (tabs (w_db w)) (ID r) = Some r \<and> Status r = StatusPending \<and> RequestExpiresAt r < now + Second"
      by (simp add: overdue_def)
  qed
  show "\<forall>i r. reqs (tabs (w_db w)) i = Some r \<longrightarrow> Status r = StatusPending \<longrightarrow>
       RequestExpiresAt r + Second \<le> now \<longrightarrow> r \<in> set rs"
    using rs(2) long_overdue stored_deadlines(1) [OF assms(1)] assms(2)
    by (auto intro!: ranI)
qed

lemma active_listing:
  assumes "store_ok (tabs (w_db w))" "storable now" "run E (ActiveExpired now) w = (Inr rs, w')"
  shows "distinct (map ID rs)"
    "\<forall>r \<in> set rs. reqs (tabs (w_db w)) (ID r) = Some r \<and> Status r = StatusApproved \<and>
       (\<exists>t. ActiveExpiresAt r = Some t \<and> t < now + Second)"
    "\<forall>i r t. reqs (tabs (w_db w)) i = Some r \<longrightarrow> Status r = StatusApproved \<longrightarrow> ActiveExpiresAt r = Some t \<longrightarrow>
       t + Second \<le> now \<longrightarrow> r \<in> set rs"
proof -
  from active_ok [OF assms(1,3)]
  have rs: "distinct (map ID rs)" "set rs = {r \<in> ran (reqs (tabs (w_db w))). active_overdue now r}" by simp_all
  then show "distinct (map ID rs)" by simp
  show "\<forall>r \<in> set rs. reqs (tabs (w_db w)) (ID r) = Some r \<and> Status r = StatusApproved \<and>
       (\<exists>t. ActiveExpiresAt r = Some t \<and> t < now + Second)"
  proof
    fix r assume "r \<in> set rs"
    with rs(2) have over: "active_overdue now r" and "r \<in> ran (reqs (tabs (w_db w)))" by blast+
    then obtain i where i: "reqs (tabs (w_db w)) i = Some r" by (auto simp: ran_def)
    note st = stored_deadlines [OF assms(1) i]
    obtain t where t: "ActiveExpiresAt r = Some t" using over by (auto simp: overdue_def split: option.splits)
    from i reqs_ID [OF i] overdue_soon [OF over assms(2) st(3) t st(2) [OF t]] over t
    show "reqs (tabs (w_db w)) (ID r) = Some r \<and> Status r = StatusApproved \<and>
       (\<exists>t. ActiveExpiresAt r = Some t \<and> t < now + Second)"
      by (simp add: overdue_def)
  qed
  show "\<forall>i r t. reqs (tabs (w_db w)) i = Some r \<longrightarrow> Status r = StatusApproved \<longrightarrow> ActiveExpiresAt r = Some t \<longrightarrow>
       t + Second \<le> now \<longrightarrow> r \<in> set rs"
    using rs(2) long_overdue [of _ _ ActiveExpiresAt] stored_deadlines(2) [OF assms(1)] assms(2)
    by (auto intro!: ranI)
qed

lemma pending_flaw:
  assumes "store_ok (tabs (w_db w))" "storable t" "t mod Second = 0" "0 < f" "f < Second"
    "reqs (tabs (w_db w)) i = Some r" "Status r = StatusPending"
  shows "RequestExpiresAt r = t + f \<Longrightarrow> run E (PendingExpired t) w = (Inr rs, w') \<Longrightarrow> r \<in> set rs"
    "RequestExpiresAt r = t \<Longrightarrow> run E (PendingExpired (t + f)) w = (Inr rs, w') \<Longrightarrow> r \<notin> set rs"
proof -
  note less = Format_fraction_first [OF assms(2-5)]
  then have le: "text_le (FormatRFC3339Nano (t + f)) (FormatRFC3339Nano t)"
    unfolding text_le_def using text_less_trans text_less_irrefl by blast
  have nle: "\<not> text_le (FormatRFC3339Nano t) (FormatRFC3339Nano (t + f))"
    unfolding text_le_def using less by simp
  show "r \<in> set rs" if "RequestExpiresAt r = t + f" "run E (PendingExpired t) w = (Inr rs, w')"
  proof -
    have "pending_overdue t r" using that(1) assms(7) by (simp add: overdue_def le)
    moreover have "r \<in> ran (reqs (tabs (w_db w)))" using assms(6) by (rule ranI)
    ultimately show ?thesis using pending_ok [OF assms(1) that(2)] by simp
  qed
  show "r \<notin> set rs" if "RequestExpiresAt r = t" "run E (PendingExpired (t + f)) w = (Inr rs, w')"
  proof -
    have "\<not> pending_overdue (t + f) r" using that(1) by (simp add: overdue_def nle)
    then show ?thesis using pending_ok [OF assms(1) that(2)] by simp
  qed
qed

end

section \<open>Opening\<close>

text \<open>What \<open>migrate\<close> may do to tables: every table is there afterwards, and the rows that were
  there are kept; a column \<open>approval_notes\<close> that was missing is empty.\<close>

definition opened :: "tables \<Rightarrow> tables \<Rightarrow> bool" where
  "opened t t' \<longleftrightarrow>
     has_requests t' \<and> has_notes t' \<and> has_audit t' \<and> has_notifs t' \<and>
     t_requests t' = (if \<not> has_requests t then []
                      else if has_notes t then t_requests t
                      else map (\<lambda>r. r\<lparr>c_approval_notes := []\<rparr>) (t_requests t)) \<and>
     t_audit t' = (if has_audit t then t_audit t else []) \<and>
     t_seq t' = (if has_audit t then t_seq t else 0) \<and>
     t_notifs t' = (if has_notifs t then t_notifs t else [])"

context service_db
begin

lemma run_exec_only:
  "run E (exec_only st) w =
     (map_sum id (\<lambda>_. ()) (fst (e_exec E st (w_db w))), w\<lparr>w_db := snd (e_exec E st (w_db w))\<rparr>)"
  by (auto simp: exec_only_def run_simps split: prod.splits sum.splits)

lemma exec_only_ok:
  assumes "run E (exec_only st) w = (Inr u, w')"
  shows "\<exists>n. exec_sem st (tabs (w_db w)) n (tabs (w_db w'))"
proof -
  obtain y d where y: "e_exec E st (w_db w) = (y, d)" by (rule prod.exhaust)
  with assms obtain n where n: "y = Inr n" "w' = w\<lparr>w_db := d\<rparr>"
    by (cases y) (auto simp: run_exec_only)
  have "exec_sem st (tabs (w_db w)) n (tabs d)" by (rule exec_ok) (use y n in simp)
  with n(2) show ?thesis by (intro exI [of _ n]) simp
qed

lemma add_notes_ok:
  assumes "run E migrateApprovalNotes w = (Inr u, w')"
  shows "has_requests (tabs (w_db w)) \<and> has_notes (tabs (w_db w)) \<and> tabs (w_db w') = tabs (w_db w) \<or>
    (\<exists>n. exec_sem AddColumnApprovalNotes (tabs (w_db w)) n (tabs (w_db w')))"
proof -
  obtain y d where y: "e_exec E AddColumnApprovalNotes (w_db w) = (y, d)" by (rule prod.exhaust)
  have w': "w' = w\<lparr>w_db := d\<rparr>" using assms y by (simp add: migrateApprovalNotes_def run_simps)
  show ?thesis
  proof (cases y)
    case (Inl e)
    have "Contains (ToLower (error_text e)) ''duplicate'' \<or> Contains (error_text e) ''duplicate column''"
      using assms y Inl by (auto simp: migrateApprovalNotes_def run_simps split: if_splits)
    then have "Contains (ToLower (error_text e)) ''duplicate''" using duplicate_lower by blast
    with duplicate y Inl have "has_requests (tabs (w_db w)) \<and> has_notes (tabs (w_db w))" by blast
    moreover have "tabs d = tabs (w_db w)" by (rule exec_err) (use y Inl in simp)
    ultimately show ?thesis using w' by simp
  next
    case (Inr n)
    have "exec_sem AddColumnApprovalNotes (tabs (w_db w)) n (tabs d)" by (rule exec_ok) (use y Inr in simp)
    then show ?thesis using w' by (intro disjI2 exI [of _ n]) simp
  qed
qed

lemma migrate_steps:
  assumes "run E migrate w = (Inr u, w')"
  obtains w1 w2 w3 where "run E (exec_only CreateTableRequests) w = (Inr (), w1)"
    "run E (exec_only CreateTableAudit) w1 = (Inr (), w2)"
    "run E (exec_only CreateTableNotifications) w2 = (Inr (), w3)" "run E migrateApprovalNotes w3 = (Inr (), w')"
proof -
  obtain x1 w1 where 1: "run E (exec_only CreateTableRequests) w = (x1, w1)" by (rule prod.exhaust)
  obtain x2 w2 where 2: "run E (exec_only CreateTableAudit) w1 = (x2, w2)" by (rule prod.exhaust)
  obtain x3 w3 where 3: "run E (exec_only CreateTableNotifications) w2 = (x3, w3)" by (rule prod.exhaust)
  note r = assms [unfolded migrate_def run_bnd 1 prod.case]
  obtain u1 where u1: "x1 = Inr u1" using r by (cases x1) auto
  note r = r [unfolded u1 sum.case migrateAudit_def run_bnd 2 prod.case]
  obtain u2 where u2: "x2 = Inr u2" using r by (cases x2) auto
  note r = r [unfolded u2 sum.case migrateNotify_def run_bnd 3 prod.case]
  obtain u3 where u3: "x3 = Inr u3" using r by (cases x3) auto
  show ?thesis using that 1 2 3 u1 u2 u3 r by simp
qed

lemma migrate_opens:
  assumes "run E migrate w = (Inr u, w')"
  shows "opened (tabs (w_db w)) (tabs (w_db w'))"
proof -
  obtain w1 w2 w3 where s: "run E (exec_only CreateTableRequests) w = (Inr (), w1)"
    "run E (exec_only CreateTableAudit) w1 = (Inr (), w2)"
    "run E (exec_only CreateTableNotifications) w2 = (Inr (), w3)" "run E migrateApprovalNotes w3 = (Inr (), w')"
    by (rule migrate_steps [OF assms])
  obtain n1 where e1: "exec_sem CreateTableRequests (tabs (w_db w)) n1 (tabs (w_db w1))" using exec_only_ok [OF s(1)] by blast
  obtain n2 where e2: "exec_sem CreateTableAudit (tabs (w_db w1)) n2 (tabs (w_db w2))" using exec_only_ok [OF s(2)] by blast
  obtain n3 where e3: "exec_sem CreateTableNotifications (tabs (w_db w2)) n3 (tabs (w_db w3))" using exec_only_ok [OF s(3)] by blast
  from e1 have t1: "tabs (w_db w1) = (if has_requests (tabs (w_db w)) then tabs (w_db w)
      else (tabs (w_db w))\<lparr>has_requests := True, has_notes := True, t_requests := []\<rparr>)" by (cases n1) simp
  from e2 have t2: "tabs (w_db w2) = (if has_audit (tabs (w_db w1)) then tabs (w_db w1)
      else (tabs (w_db w1))\<lparr>has_audit := True, t_audit := [], t_seq := 0\<rparr>)" by (cases n2) simp
  from e3 have t3: "tabs (w_db w3) = (if has_notifs (tabs (w_db w2)) then tabs (w_db w2)
      else (tabs (w_db w2))\<lparr>has_notifs := True, t_notifs := []\<rparr>)" by (cases n3) simp
  have t4: "has_notes (tabs (w_db w3)) \<and> tabs (w_db w') = tabs (w_db w3) \<or>
      \<not> has_notes (tabs (w_db w3)) \<and> tabs (w_db w') = (tabs (w_db w3))\<lparr>has_notes := True,
        t_requests := map (\<lambda>r. r\<lparr>c_approval_notes := []\<rparr>) (t_requests (tabs (w_db w3)))\<rparr>"
    using add_notes_ok [OF s(4)] by auto
  show ?thesis using t4 unfolding t3 t2 t1 opened_def
    by (cases "has_requests (tabs (w_db w))"; cases "has_audit (tabs (w_db w))"; cases "has_notifs (tabs (w_db w))") auto
qed

end

text \<open>On an engine that is up the migration succeeds, and a second one changes nothing.\<close>

context service_db_up
begin

lemma exec_only_up:
  assumes "healthy (w_db w)" "exec_sem st (tabs (w_db w)) n t" "run E (exec_only st) w = (x, w')"
  shows "x = Inr () \<and> healthy (w_db w')"
proof -
  obtain y d where y: "e_exec E st (w_db w) = (y, d)" by (rule prod.exhaust)
  from exec_succeeds [OF assms(1,2) y] exec_healthy [OF assms(1) y] y assms(3) show ?thesis
    by (auto simp: run_exec_only)
qed

lemma migrate_up:
  assumes h: "healthy (w_db w)" and r: "run E migrate w = (x, w')"
  shows "x = Inr () \<and> healthy (w_db w')"
proof -
  obtain x1 w1 where 1: "run E (exec_only CreateTableRequests) w = (x1, w1)" by (rule prod.exhaust)
  obtain x2 w2 where 2: "run E (exec_only CreateTableAudit) w1 = (x2, w2)" by (rule prod.exhaust)
  obtain x3 w3 where 3: "run E (exec_only CreateTableNotifications) w2 = (x3, w3)" by (rule prod.exhaust)
  have 11: "x1 = Inr () \<and> healthy (w_db w1)" by (rule exec_only_up [OF h _ 1, of "(0, 0)"]) (simp only: exec_sem.simps)
  have 22: "x2 = Inr () \<and> healthy (w_db w2)"
    by (rule exec_only_up [OF conjunct2 [OF 11] _ 2, of "(0, 0)"]) (simp only: exec_sem.simps)
  have 33: "x3 = Inr () \<and> healthy (w_db w3)"
    by (rule exec_only_up [OF conjunct2 [OF 22] _ 3, of "(0, 0)"]) (simp only: exec_sem.simps)
  have t: "has_requests (tabs (w_db w3))"
  proof -
    obtain n1 where "exec_sem CreateTableRequests (tabs (w_db w)) n1 (tabs (w_db w1))" using exec_only_ok 1 11 by blast
    moreover obtain n2 where "exec_sem CreateTableAudit (tabs (w_db w1)) n2 (tabs (w_db w2))" using exec_only_ok 2 22 by blast
    moreover obtain n3 where "exec_sem CreateTableNotifications (tabs (w_db w2)) n3 (tabs (w_db w3))" using exec_only_ok 3 33 by blast
    ultimately show ?thesis by (cases n1; cases n2; cases n3) (auto split: if_splits)
  qed
  have last: "run E migrateApprovalNotes w3 = (x, w')"
    using r 1 2 3 11 22 33 by (simp add: migrate_def migrateAudit_def migrateNotify_def run_simps)
  obtain y d where y: "e_exec E AddColumnApprovalNotes (w_db w3) = (y, d)" by (rule prod.exhaust)
  have h': "healthy d" using exec_healthy conjunct2 [OF 33] y by blast
  show ?thesis
  proof (cases y)
    case (Inl e)
    have "has_notes (tabs (w_db w3))"
    proof (rule ccontr)
      assume "\<not> has_notes (tabs (w_db w3))"
      with t have "exec_sem AddColumnApprovalNotes (tabs (w_db w3)) (0, 0)
        ((tabs (w_db w3))\<lparr>has_notes := True,
          t_requests := map (\<lambda>r. r\<lparr>c_approval_notes := []\<rparr>) (t_requests (tabs (w_db w3)))\<rparr>)" by simp
      from exec_succeeds [OF conjunct2 [OF 33] this y] Inl show False by simp
    qed
    with column_exists [OF conjunct2 [OF 33] t] y Inl have "Contains (error_text e) ''duplicate column''" by blast
    with last y Inl h' show ?thesis by (auto simp: migrateApprovalNotes_def run_simps)
  next
    case (Inr n)
    with last y h' show ?thesis by (auto simp: migrateApprovalNotes_def run_simps)
  qed
qed

lemma migrate_twice:
  assumes "run E migrate w = (x, w1)" "run E migrate w1 = (y, w2)"
  shows "(x = Inr () \<longrightarrow> opened (tabs (w_db w)) (tabs (w_db w1))) \<and>
    (healthy (w_db w) \<longrightarrow> x = Inr () \<and> y = Inr () \<and> tabs (w_db w2) = tabs (w_db w1))"
proof -
  have "x = Inr () \<and> y = Inr () \<and> tabs (w_db w2) = tabs (w_db w1)" if "healthy (w_db w)"
  proof -
    have x: "x = Inr () \<and> healthy (w_db w1)" using migrate_up that assms(1) by blast
    have y: "y = Inr ()" using migrate_up x assms(2) by blast
    have "opened (tabs (w_db w)) (tabs (w_db w1))" "opened (tabs (w_db w1)) (tabs (w_db w2))"
      using migrate_opens assms x y by blast+
    with x y show ?thesis by (simp add: opened_def)
  qed
  then show ?thesis using migrate_opens assms(1) by blast
qed

lemma create_get:
  assumes "healthy (w_db w)" "store_ok (tabs (w_db w))" "storable_req r"
    "run E (Create r) w = (x, w1)" "run E (Get (ID r)) w1 = (y, w2)"
  shows "(if reqs (tabs (w_db w)) (ID r) = None then x = Inr () \<and> y = Inr r
     else x \<noteq> Inr () \<and> y = Inr (the (reqs (tabs (w_db w)) (ID r))))"
proof -
  have c: "healthy (w_db w1)" "reqs (tabs (w_db w)) (ID r) = None \<Longrightarrow> x = Inr ()"
    using create_up [OF assms(1-4)] by auto
  have good: "store_ok (tabs (w_db w1))" by (rule create_good [OF assms(2-4)])
  show ?thesis
  proof (cases "reqs (tabs (w_db w)) (ID r)")
    case None
    with c(2) have x: "x = Inr ()" by simp
    with create_ok [OF assms(2,3)] assms(4) have "reqs (tabs (w_db w1)) (ID r) = Some r" by simp
    with get_up [OF c(1) good assms(5)] None x show ?thesis by simp
  next
    case (Some q)
    then obtain e where e: "x = Inl e"
      using create_ok [OF assms(2,3)] assms(4) by (cases x) auto
    with create_err [OF assms(2)] assms(4) Some have "reqs (tabs (w_db w1)) (ID r) = Some q" by simp
    with get_up [OF c(1) good assms(5)] Some e show ?thesis by simp
  qed
qed

lemma update_spec:
  assumes "store_ok (tabs (w_db w))" "storable_req r" "run E (Update r) w = (x, w')"
  shows "store_ok (tabs (w_db w')) \<and>
    reqs (tabs (w_db w')) =
      (case x of Inl e \<Rightarrow> reqs (tabs (w_db w))
       | Inr u \<Rightarrow> (reqs (tabs (w_db w)))(ID r \<mapsto>
           r\<lparr>Username := Username (the (reqs (tabs (w_db w)) (ID r))),
             Justification := Justification (the (reqs (tabs (w_db w)) (ID r))),
             CreatedAt := CreatedAt (the (reqs (tabs (w_db w)) (ID r))),
             RequestExpiresAt := RequestExpiresAt (the (reqs (tabs (w_db w)) (ID r)))\<rparr>)) \<and>
    (healthy (w_db w) \<longrightarrow> (ok x \<longleftrightarrow> reqs (tabs (w_db w)) (ID r) \<noteq> None))"
proof -
  have good: "store_ok (tabs (w_db w'))" by (rule update_good [OF assms])
  show ?thesis
  proof (cases x)
    case (Inl e)
    with update_err [OF assms(1,2)] assms(3) have "reqs (tabs (w_db w')) = reqs (tabs (w_db w))" by blast
    with good Inl update_up [OF _ assms] show ?thesis by auto
  next
    case (Inr u)
    with update_ok [OF assms(1,2)] assms(3) obtain q where q: "reqs (tabs (w_db w)) (ID r) = Some q"
      "reqs (tabs (w_db w')) = (reqs (tabs (w_db w)))(ID r \<mapsto> merge_update q r)" by auto
    have "merge_update q r = r\<lparr>Username := Username q, Justification := Justification q,
      CreatedAt := CreatedAt q, RequestExpiresAt := RequestExpiresAt q\<rparr>"
      using reqs_ID [OF q(1)] by (simp add: merge_update_def)
    with good Inr q show ?thesis by simp
  qed
qed

end

section \<open>Properties\<close>

text \<open>
  C31: a request that is written to a row of the table and scanned again is the same request,
  every time to the nanosecond, every null column back to its empty value.
\<close>

theorem row_round_trip:
  assumes "storable_req r"
  shows "scanRequest (row_of r) = Inr r"
  by (rule scan_row_of) (rule assms)

theorem row_round_trip_witness:
  "scanRequest (row_of (ref_request ''r1'' StatusApproved (noon + 1) (Some (noon + 7)))) =
   Inr (ref_request ''r1'' StatusApproved (noon + 1) (Some (noon + 7)))"
proof -
  have "storable (noon + 1)" "storable (noon + 7)"
    by (simp_all add: noon_def storable_def days_before_year_def Second_def)
  then show ?thesis by (intro row_round_trip ref_request_storable) simp_all
qed

text \<open>
  C32: the two listings of the sweep are right up to one second.  What they list is in the
  table, in the right status, and due before a second has passed; what has been due for a
  second is listed; and nothing is listed twice.
\<close>

theorem listings_right_to_a_second:
  assumes "service_db E tabs" "store_ok (tabs (w_db w))" "storable now"
    and "run E (PendingExpired now) w = (Inr ps, w1)" "run E (ActiveExpired now) w = (Inr as, w2)"
  shows "distinct (map ID ps) \<and> distinct (map ID as) \<and>
    (\<forall>r \<in> set ps. reqs (tabs (w_db w)) (ID r) = Some r \<and> Status r = StatusPending \<and>
        RequestExpiresAt r < now + Second) \<and>
    (\<forall>r \<in> set as. reqs (tabs (w_db w)) (ID r) = Some r \<and> Status r = StatusApproved \<and>
        (\<exists>t. ActiveExpiresAt r = Some t \<and> t < now + Second)) \<and>
    (\<forall>i r. reqs (tabs (w_db w)) i = Some r \<longrightarrow> Status r = StatusPending \<longrightarrow>
        RequestExpiresAt r + Second \<le> now \<longrightarrow> r \<in> set ps) \<and>
    (\<forall>i r t. reqs (tabs (w_db w)) i = Some r \<longrightarrow> Status r = StatusApproved \<longrightarrow>
        ActiveExpiresAt r = Some t \<longrightarrow> t + Second \<le> now \<longrightarrow> r \<in> set as)"
  using service_db.pending_listing [OF assms(1-4)] service_db.active_listing [OF assms(1-3,5)] by blast

text \<open>The example: two pending requests around noon and a grant that ends at noon.\<close>

definition due_world :: "(engine, directory, outside) world" where
  "due_world = ref_world
     [ref_request ''r1'' StatusPending (noon + 1) None, ref_request ''r2'' StatusPending noon None,
      ref_request ''r3'' StatusApproved noon (Some noon)] [] [] [] noon"

lemma due_requests_ok:
  "list_all storable_req
     [ref_request ''r1'' StatusPending (noon + 1) None, ref_request ''r2'' StatusPending noon None,
      ref_request ''r3'' StatusApproved noon (Some noon)]"
  "distinct (map ID
     [ref_request ''r1'' StatusPending (noon + 1) None, ref_request ''r2'' StatusPending noon None,
      ref_request ''r3'' StatusApproved noon (Some noon)])"
proof -
  have "storable (noon + 1)"
    by (simp add: noon_def storable_def days_before_year_def Second_def)
  then show "list_all storable_req
     [ref_request ''r1'' StatusPending (noon + 1) None, ref_request ''r2'' StatusPending noon None,
      ref_request ''r3'' StatusApproved noon (Some noon)]"
    by (simp add: ref_request_storable noon_sane)
qed simp

lemma due_world_ok:
  "store_ok (fst (w_db due_world))"
  "reqs (fst (w_db due_world)) ''r1'' = Some (ref_request ''r1'' StatusPending (noon + 1) None)"
  "reqs (fst (w_db due_world)) ''r2'' = Some (ref_request ''r2'' StatusPending noon None)"
  "reqs (fst (w_db due_world)) ''r3'' = Some (ref_request ''r3'' StatusApproved noon (Some noon))"
proof -
  note ok = ref_tables_ok [OF due_requests_ok]
  show "store_ok (fst (w_db due_world))"
    "reqs (fst (w_db due_world)) ''r1'' = Some (ref_request ''r1'' StatusPending (noon + 1) None)"
    "reqs (fst (w_db due_world)) ''r2'' = Some (ref_request ''r2'' StatusPending noon None)"
    "reqs (fst (w_db due_world)) ''r3'' = Some (ref_request ''r3'' StatusApproved noon (Some noon))"
    using ok(1,3) by (simp_all add: due_world_def)
qed

lemma listing_runs:
  assumes "store_ok (fst (w_db w))" "snd (w_db w) = []"
  shows "\<exists>rs w'. run ref_env (PendingExpired t) w = (Inr rs, w')" "\<exists>rs w'. run ref_env (ActiveExpired t) w = (Inr rs, w')"
proof -
  have up: "engine_healthy (w_db w)" using assms(2) by (simp add: engine_healthy_def)
  obtain z w' where r: "run ref_env (PendingExpired t) w = (z, w')" by fastforce
  with reference_db.pending_up [OF up assms(1) r] show "\<exists>rs w'. run ref_env (PendingExpired t) w = (Inr rs, w')"
    by (cases z) auto
  obtain y v where a: "run ref_env (ActiveExpired t) w = (y, v)" by fastforce
  with reference_db.active_up [OF up assms(1) a] show "\<exists>rs w'. run ref_env (ActiveExpired t) w = (Inr rs, w')"
    by (cases y) auto
qed

theorem listings_right_to_a_second_witness:
  "\<exists>ps w1 as w2. run ref_env (PendingExpired (noon + Second)) due_world = (Inr ps, w1) \<and>
     run ref_env (ActiveExpired (noon + Second)) due_world = (Inr as, w2) \<and>
     ref_request ''r2'' StatusPending noon None \<in> set ps \<and>
     ref_request ''r3'' StatusApproved noon (Some noon) \<in> set as"
proof -
  have "snd (w_db due_world) = []" by (simp add: due_world_def)
  note runs = listing_runs [OF due_world_ok(1) this]
  obtain ps w1 where p: "run ref_env (PendingExpired (noon + Second)) due_world = (Inr ps, w1)" using runs(1) by blast
  obtain as w2 where a: "run ref_env (ActiveExpired (noon + Second)) due_world = (Inr as, w2)" using runs(2) by blast
  have "storable (noon + Second)" by (simp add: noon_def storable_def days_before_year_def Second_def)
  from listings_right_to_a_second [OF reference_db.service_db_axioms due_world_ok(1) this p a]
  have "ref_request ''r2'' StatusPending noon None \<in> set ps" "ref_request ''r3'' StatusApproved noon (Some noon) \<in> set as"
    using due_world_ok(3,4) by auto
  with p a show ?thesis by blast
qed

text \<open>
  C33: within a second the listing of the overdue requests is wrong, because the comparison is
  one of texts and the dot of a fraction sorts before the \<open>Z\<close>.  A request that is due a
  fraction of a second after a whole second is listed at that second already, and a request
  that is due at a whole second is not listed at any fraction of a second after it.
\<close>

theorem listing_wrong_within_a_second:
  assumes "service_db E tabs" "store_ok (tabs (w_db w))" "storable t" "t mod Second = 0" "0 < f" "f < Second"
    and "reqs (tabs (w_db w)) i = Some early" "Status early = StatusPending" "RequestExpiresAt early = t + f"
    and "reqs (tabs (w_db w)) j = Some late" "Status late = StatusPending" "RequestExpiresAt late = t"
    and "run E (PendingExpired t) w = (Inr rs, w1)" "run E (PendingExpired (t + f)) w = (Inr rs', w2)"
  shows "t < RequestExpiresAt early \<and> early \<in> set rs \<and> RequestExpiresAt late < t + f \<and> late \<notin> set rs'"
  using service_db.pending_flaw [OF assms(1-6)] assms(5,7-14) by auto

theorem listing_wrong_within_a_second_witness:
  "\<exists>rs w1 rs' w2. run ref_env (PendingExpired noon) due_world = (Inr rs, w1) \<and>
     run ref_env (PendingExpired (noon + 1)) due_world = (Inr rs', w2) \<and>
     ref_request ''r1'' StatusPending (noon + 1) None \<in> set rs \<and>
     ref_request ''r2'' StatusPending noon None \<notin> set rs'"
proof -
  have "snd (w_db due_world) = []" by (simp add: due_world_def)
  note runs = listing_runs(1) [OF due_world_ok(1) this]
  obtain rs w1 where p: "run ref_env (PendingExpired noon) due_world = (Inr rs, w1)" using runs by blast
  obtain rs' w2 where a: "run ref_env (PendingExpired (noon + 1)) due_world = (Inr rs', w2)" using runs by blast
  have "noon mod Second = 0" "(0 :: int) < 1" "1 < Second" by (simp_all add: noon_def Second_def)
  from listing_wrong_within_a_second [OF reference_db.service_db_axioms due_world_ok(1) noon_sane(2) this
      due_world_ok(2) _ _ due_world_ok(3) _ _ p a]
  show ?thesis using p a by simp
qed

text \<open>
  C30: on an engine that is up, a request with a new id is created, and reading that id back
  gives exactly the request; an id that is taken is refused and the table stays as it was.
\<close>

theorem create_then_get:
  assumes "service_db_up E tabs healthy" "healthy (w_db w)" "store_ok (tabs (w_db w))" "storable_req r"
    and "run E (Create r) w = (x, w1)" "run E (Get (ID r)) w1 = (y, w2)"
  shows "(if reqs (tabs (w_db w)) (ID r) = None then x = Inr () \<and> y = Inr r
     else x \<noteq> Inr () \<and> y = Inr (the (reqs (tabs (w_db w)) (ID r))))"
  by (rule service_db_up.create_get [OF assms])

theorem create_then_get_witness:
  "fst (run ref_env (Get ''r9'') (snd (run ref_env (Create (ref_request ''r9'' StatusPending noon None)) due_world))) =
   Inr (ref_request ''r9'' StatusPending noon None)"
proof -
  let ?r = "ref_request ''r9'' StatusPending noon None"
  obtain x w1 where x: "run ref_env (Create ?r) due_world = (x, w1)" by fastforce
  obtain y w2 where y: "run ref_env (Get (ID ?r)) w1 = (y, w2)" by fastforce
  have "engine_healthy (w_db due_world)" by (simp add: engine_healthy_def due_world_def)
  note g = create_then_get [OF reference_db.service_db_up_axioms this due_world_ok(1) _ x y]
  have "reqs (fst (w_db due_world)) ''r9'' = None"
    using ref_tables_ok(3) [OF due_requests_ok] by (simp add: due_world_def)
  then have "y = Inr ?r" using g ref_request_storable noon_sane by simp
  with x y show ?thesis by simp
qed

text \<open>
  C29: \<open>Update\<close> replaces the six columns it writes and no others: on the abstract store the
  request of that id becomes the written one with its old user, justification, creation time
  and deadline, no other request changes, the table stays well formed, and a failed update
  changes nothing.  On an engine that is up it fails exactly when there is no such id.
\<close>

theorem update_refines:
  assumes "service_db_up E tabs healthy" "store_ok (tabs (w_db w))" "storable_req r"
    and "run E (Update r) w = (x, w')"
  shows "store_ok (tabs (w_db w')) \<and>
    reqs (tabs (w_db w')) =
      (case x of Inl e \<Rightarrow> reqs (tabs (w_db w))
       | Inr u \<Rightarrow> (reqs (tabs (w_db w)))(ID r \<mapsto>
           r\<lparr>Username := Username (the (reqs (tabs (w_db w)) (ID r))),
             Justification := Justification (the (reqs (tabs (w_db w)) (ID r))),
             CreatedAt := CreatedAt (the (reqs (tabs (w_db w)) (ID r))),
             RequestExpiresAt := RequestExpiresAt (the (reqs (tabs (w_db w)) (ID r)))\<rparr>)) \<and>
    (healthy (w_db w) \<longrightarrow> (ok x \<longleftrightarrow> reqs (tabs (w_db w)) (ID r) \<noteq> None))"
  by (rule service_db_up.update_spec [OF assms])

theorem update_refines_witness:
  "\<not> ok (fst (run ref_env (Update (ref_request ''r9'' StatusApproved noon None)) due_world)) \<and>
   reqs (fst (w_db (snd (run ref_env (Update (ref_request ''r2'' StatusExpired noon None)) due_world)))) ''r2'' =
     Some (ref_request ''r2'' StatusExpired noon None)"
proof -
  let ?r = "ref_request ''r9'' StatusApproved noon None" and ?q = "ref_request ''r2'' StatusExpired noon None"
  obtain x w1 where x: "run ref_env (Update ?r) due_world = (x, w1)" by fastforce
  obtain y w2 where y: "run ref_env (Update ?q) due_world = (y, w2)" by fastforce
  have st: "storable_req ?r" "storable_req ?q" by (rule ref_request_storable; simp add: noon_sane)+
  have up: "engine_healthy (w_db due_world)" by (simp add: engine_healthy_def due_world_def)
  have none: "reqs (fst (w_db due_world)) ''r9'' = None"
    using ref_tables_ok(3) [OF due_requests_ok] by (simp add: due_world_def)
  note a = update_refines [OF reference_db.service_db_up_axioms due_world_ok(1) st(1) x]
  note b = update_refines [OF reference_db.service_db_up_axioms due_world_ok(1) st(2) y]
  have "\<not> ok x" using a up none by simp
  moreover have "ok y" using b up due_world_ok(3) by simp
  ultimately show ?thesis using b due_world_ok(3) x y by (cases y) (auto simp: ref_request_def)
qed

text \<open>
  C34: opening a database creates every table that is missing and keeps every row that is
  there; a table without the column of the approver's notes gets it, empty.  On an engine
  that is up it always succeeds, and opening again changes nothing.
\<close>

theorem migrate_keeps_rows:
  assumes "service_db_up E tabs healthy" "run E migrate w = (x, w1)" "run E migrate w1 = (y, w2)"
  shows "(x = Inr () \<longrightarrow> opened (tabs (w_db w)) (tabs (w_db w1))) \<and>
    (healthy (w_db w) \<longrightarrow> x = Inr () \<and> y = Inr () \<and> tabs (w_db w2) = tabs (w_db w1))"
  by (rule service_db_up.migrate_twice [OF assms])

theorem migrate_keeps_rows_witness:
  "opened empty_tables (fst (w_db (snd (run ref_env migrate (due_world\<lparr>w_db := (empty_tables, [])\<rparr>)))))"
proof -
  let ?w = "due_world\<lparr>w_db := (empty_tables, [])\<rparr>"
  obtain x w1 where x: "run ref_env migrate ?w = (x, w1)" by fastforce
  obtain y w2 where y: "run ref_env migrate w1 = (y, w2)" by fastforce
  have "engine_healthy (w_db ?w)" by (simp add: engine_healthy_def)
  with migrate_keeps_rows [OF reference_db.service_db_up_axioms x y] x show ?thesis by simp
qed

end
