(* ===== verification/AuditSpec.thy ===== *)
theory AuditSpec
  imports Reference
begin

text \<open>
  The properties of the audit log, of the marks, and of the notifier that stands on them.
\<close>

section \<open>What a listing of the log contains\<close>

lemma sorted_ids_rev:
  "sorted_wrt (\<lambda>x y. EvID x < EvID y) es \<Longrightarrow> sorted_wrt (\<lambda>x y. EvID x > EvID y) (rev es)"
  by (simp add: sorted_wrt_rev)

lemma length_take_le: "length (take n xs) \<le> n"
  by simp

lemma take_newest:
  assumes "sorted_wrt (\<lambda>x y. EvID x > EvID y) xs" "es = take n xs" "e \<in> set xs" "e \<notin> set es"
  shows "length es = n \<and> (\<forall>x \<in> set es. EvID e < EvID x)"
proof -
  have e: "e \<in> set (drop n xs)" using assms(2-4) by (metis UnE append_take_drop_id set_append)
  then have "n < length xs" by (cases "n < length xs") auto
  moreover have "sorted_wrt (\<lambda>x y. EvID x > EvID y) (take n xs @ drop n xs)" using assms(1) by simp
  then have "\<forall>x \<in> set (take n xs). EvID e < EvID x" using e unfolding sorted_wrt_append by blast
  ultimately show ?thesis using assms(2) by simp
qed

context service_db
begin

lemma list_newest:
  assumes w: "audit_ok (tabs (w_db w))" and r: "run E (ListAudit f) w = (Inr es, w')"
  shows "tabs (w_db w') = tabs (w_db w) \<and> sorted_wrt (\<lambda>x y. EvID x > EvID y) es \<and>
    int (length es) \<le> (if FiLimit f \<in> {1..500} then FiLimit f else 100) \<and>
    (\<forall>e \<in> set es. e \<in> set (events_of (tabs (w_db w))) \<and> event_match f e) \<and>
    (\<forall>e \<in> set (events_of (tabs (w_db w))). event_match f e \<longrightarrow> e \<in> set es \<or>
       int (length es) = (if FiLimit f \<in> {1..500} then FiLimit f else 100) \<and> (\<forall>x \<in> set es. EvID e < EvID x))"
proof -
  let ?ev = "events_of (tabs (w_db w))" and ?lim = "if FiLimit f \<in> {1..500} then FiLimit f else 100 :: int"
  let ?xs = "rev (filter (event_match f) ?ev)"
  have lim: "audit_limit (FiLimit f) = ?lim" by (auto simp: audit_limit_def)
  have es: "es = take (nat ?lim) ?xs" using list_ok [OF w r] lim by (simp add: newest_def)
  have srt: "sorted_wrt (\<lambda>x y. EvID x > EvID y) ?xs"
    using sorted_ids_rev [OF sorted_wrt_filter [OF audit_okD(3) [OF w]]] by simp
  have pos: "0 \<le> ?lim" by simp
  have "e \<in> set es \<or> int (length es) = ?lim \<and> (\<forall>x \<in> set es. EvID e < EvID x)"
    if "e \<in> set ?ev" "event_match f e" for e
    using take_newest [OF srt es, of e] that pos by auto
  moreover have "tabs (w_db w') = tabs (w_db w)"
    using r by (rule run_ListAudit) (auto dest: audit_frame)
  moreover have "sorted_wrt (\<lambda>x y. EvID x > EvID y) es" using srt es by (simp add: sorted_wrt_take)
  moreover have "length es \<le> nat ?lim" unfolding es by (rule length_take_le)
  then have "int (length es) \<le> ?lim" using pos by linarith
  moreover have "\<forall>e \<in> set es. e \<in> set ?ev \<and> event_match f e" using es by (auto dest: in_set_takeD)
  ultimately show ?thesis by blast
qed

lemma append_newest:
  assumes w: "audit_ok (tabs (w_db w))" "clock_storable E w" "storable_event e"
    and r: "run E (AppendAudit e) w = (Inr e', w1)" and m: "event_match f e"
    and l: "run E (ListAudit f) w1 = (Inr es, w2)"
  shows "(\<exists>older. es = e' # older) \<and> e' = e\<lparr>EvID := EvID e', EvAt := EvAt e'\<rparr> \<and>
    (\<forall>x \<in> set (events_of (tabs (w_db w))). EvID x < EvID e')"
  using append_then_list [OF w r m l] append_ok [OF w r] by blast

end

section \<open>One notification\<close>

text \<open>One call of \<open>NotifyOnce\<close>, seen through the marks and the posts.\<close>

locale notifying_world =
  posting E tabs posts + service_db E tabs
  for E :: "('d, 'k, 'o) env" and tabs :: "'d \<Rightarrow> tables" and posts :: "'o \<Rightarrow> nat" +
  assumes webhook_posts_one: "e_webhook E q x = (res, x') \<Longrightarrow> posts x' = Suc (posts x)"
begin

abbreviation marked_in :: "('d, 'k, 'o) world \<Rightarrow> (string \<times> string) set" where
  "marked_in w \<equiv> marks (tabs (w_db w))"

lemma mark_posts:
  assumes "run E (TryMarkNotified i k) w = (x, w')"
  shows "posts (w_other w') = posts (w_other w)"
  using assms by (rule run_TryMarkNotified) (auto dest: now_posts)

lemma run_post:
  assumes "run E (post n t) w = (x, w')"
  shows "posts (w_other w') = Suc (posts (w_other w)) \<and> w_db w' = w_db w"
  using assms by (auto simp: post_def split: prod.splits dest: webhook_posts_one)

lemma notify_once_cases:
  assumes "run E (NotifyOnce n i k t) w = (b, w')"
  shows "(\<not> Enabled (Some n) \<longrightarrow> \<not> b \<and> w' = w) \<and>
    (if (i, k) \<in> marked_in w' - marked_in w
     then marked_in w' = insert (i, k) (marked_in w) \<and> posts (w_other w') = Suc (posts (w_other w))
     else marked_in w' = marked_in w \<and> posts (w_other w') = posts (w_other w) \<and> \<not> b)"
proof (cases "Enabled (Some n)")
  case False
  with assms show ?thesis by (simp add: NotifyOnce_def)
next
  case True
  obtain x w1 where m: "run E (TryMarkNotified i k) w = (x, w1)" by (rule prod.exhaust)
  note p = mark_posts [OF m]
  show ?thesis
  proof (cases x)
    case (Inl e)
    with assms m True have "w_db w' = w_db w1" "w_other w' = w_other w1" "\<not> b"
      by (auto simp: NotifyOnce_def run_simps)
    with True p mark_err m Inl show ?thesis by auto
  next
    case (Inr first)
    show ?thesis
    proof (cases first)
      case False
      with assms m True Inr have "w' = w1" "\<not> b" by (auto simp: NotifyOnce_def run_simps)
      with True p mark_old m Inr False show ?thesis by auto
    next
      case first: True
      obtain y w2 where y: "run E (post n t) w1 = (y, w2)" by (rule prod.exhaust)
      with assms m True Inr first have w': "w_db w' = w_db w2 \<and> w_other w' = w_other w2"
        by (cases y) (auto simp: NotifyOnce_def run_simps)
      with run_post [OF y] True p mark_new m Inr first show ?thesis by auto
    qed
  qed
qed

text \<open>Any number of calls for one request and kind, whatever their texts.\<close>

lemma notify_many:
  assumes "run E (for_each (\<lambda>t. bnd (NotifyOnce n i k t) (\<lambda>_. Ret ())) ts) w = (u, w')"
  shows "posts (w_other w') \<le> Suc (posts (w_other w)) \<and> marked_in w \<subseteq> marked_in w' \<and>
    ((i, k) \<in> marked_in w \<longrightarrow> posts (w_other w') = posts (w_other w))"
  using assms
proof (induction ts arbitrary: w)
  case (Cons t ts)
  obtain b w1 where c: "run E (NotifyOnce n i k t) w = (b, w1)" by (rule prod.exhaust)
  note o = notify_once_cases [OF c]
  have "run E (for_each (\<lambda>t. bnd (NotifyOnce n i k t) (\<lambda>_. Ret ())) ts) w1 = (u, w')"
    using Cons.prems c by (simp add: run_simps)
  note ih = Cons.IH [OF this]
  show ?case using o ih by (auto split: if_splits)
qed simp

end

interpretation reference_notifying: notifying_world ref_env fst o_posts
proof (intro notifying_world.intro notifying_world_axioms.intro)
  show "posting ref_env fst o_posts" by (rule reference_posts.posting_axioms)
  show "service_db ref_env fst" by (rule reference_db.service_db_axioms)
qed (auto simp: ref_env_def ref_webhook_def)

text \<open>The examples: an event, and a listing of everything.\<close>

definition ref_event :: "string \<Rightarrow> AuditEvent" where
  "ref_event act =
     \<lparr>EvID = 0, EvAt = noon, EvAction = act, EvActor = ''bob'', EvSubject = ''alice'',
      EvRequestID = ''r1'', EvJustification = [], EvDetail = [], EvBreakGlass = False\<rparr>"

definition everything :: "int \<Rightarrow> AuditFilter" where
  "everything n = \<lparr>FiRequestID = [], FiActor = [], FiBreakGlass = None, FiLimit = n\<rparr>"

definition audit_world :: "(engine, directory, outside) world" where
  "audit_world = ref_world [] [] [] [] noon"

lemma noon_not_zero: "noon \<noteq> zero_time"
  by (simp add: noon_def zero_time_def duration_defs)

lemma audit_world_ok:
  "audit_ok (fst (w_db audit_world))" "clock_storable ref_env audit_world" "storable_event (ref_event act)"
  "event_match (everything n) (ref_event act)"
proof -
  show "audit_ok (fst (w_db audit_world))" using ref_tables_ok(4) [of "[]"] by (simp add: audit_world_def)
qed (simp_all add: audit_world_def clock_storable_def ref_env_def ref_now_def storable_event_def ref_event_def
      noon_sane event_match_def everything_def)

lemma run_append_example:
  "\<exists>e' w1. run ref_env (AppendAudit (ref_event act)) audit_world = (Inr e', w1)"
  by (simp add: AppendAudit_def run_simps ref_event_def noon_not_zero ref_env_def engine_exec_def audit_world_def
      ref_tables_def)

lemma run_list_example:
  assumes "audit_ok (fst (w_db w))"
  shows "\<exists>es w'. run ref_env (ListAudit f) w = (Inr es, w')"
proof -
  obtain z w' where r: "run ref_env (ListAudit f) w = (z, w')" by fastforce
  moreover have "\<exists>es. z = Inr es"
    using r
  proof (rule reference_db.run_ListAudit)
    fix d y assume y: "e_audit ref_env (audit_select f) (w_db w) = (y, d)"
      "z = (case y of Inl e \<Rightarrow> Inl e | Inr rows \<Rightarrow> traverse scanAudit rows)"
    have "has_audit (fst (w_db w))" using assms by (simp add: audit_ok_def)
    then obtain rows where rows: "y = Inr rows"
      using y(1) by (auto simp: ref_env_def audit_select_def)
    from reference_db.audit_ok [OF y(1) [unfolded rows]]
    have "audit_sem (audit_select f) (fst (w_db w)) rows" by simp
    from list_audit_ok [OF assms this] y(2) rows show ?thesis by simp
  qed
  ultimately show ?thesis by blast
qed

section \<open>Properties\<close>

text \<open>
  C35: a listing of the audit log is newest first, no longer than the limit (100 unless a limit
  from 1 to 500 is given), and holds only events of the log that match the filter; a matching
  event it leaves out is older than all it lists, and then the limit is reached.
\<close>

theorem list_audit_newest:
  assumes "service_db E tabs" "audit_ok (tabs (w_db w))" "run E (ListAudit f) w = (Inr es, w')"
  shows "tabs (w_db w') = tabs (w_db w) \<and> sorted_wrt (\<lambda>x y. EvID x > EvID y) es \<and>
    int (length es) \<le> (if FiLimit f \<in> {1..500} then FiLimit f else 100) \<and>
    (\<forall>e \<in> set es. e \<in> set (events_of (tabs (w_db w))) \<and> event_match f e) \<and>
    (\<forall>e \<in> set (events_of (tabs (w_db w))). event_match f e \<longrightarrow> e \<in> set es \<or>
       int (length es) = (if FiLimit f \<in> {1..500} then FiLimit f else 100) \<and> (\<forall>x \<in> set es. EvID e < EvID x))"
  by (rule service_db.list_newest [OF assms])

theorem list_audit_newest_witness:
  "\<exists>e' w1 es w2. run ref_env (AppendAudit (ref_event ''grant_active'')) audit_world = (Inr e', w1) \<and>
     run ref_env (ListAudit (everything 1)) w1 = (Inr es, w2) \<and> e' \<in> set es"
proof -
  obtain e' w1 where a: "run ref_env (AppendAudit (ref_event ''grant_active'')) audit_world = (Inr e', w1)"
    using run_append_example by blast
  note ok = reference_db.append_ok [OF audit_world_ok(1,2,3) a]
  have "audit_ok (fst (w_db w1))" using ok by blast
  moreover from this obtain es w2 where l: "run ref_env (ListAudit (everything 1)) w1 = (Inr es, w2)"
    using run_list_example by blast
  ultimately have n: "e' \<in> set es \<or> int (length es) = 1 \<and> (\<forall>x \<in> set es. EvID e' < EvID x)"
      "\<forall>e \<in> set es. e \<in> set (events_of (fst (w_db w1)))"
    using list_audit_newest [OF reference_db.service_db_axioms _ l] ok
    by (auto simp: event_match_def everything_def)
  have "events_of (fst (w_db w1)) = [e']"
    using ok ref_tables_ok(5) [of "[]"] by (simp add: audit_world_def)
  with n have "e' \<in> set es" by (cases es) auto
  with a l show ?thesis by blast
qed

text \<open>
  An event that is appended gets an id above all earlier ones and its other fields as
  given, and it is the first one of every later listing that matches it.
\<close>

lemma append_then_listed_first:
  assumes "service_db E tabs" "audit_ok (tabs (w_db w))" "clock_storable E w" "storable_event e"
    and "run E (AppendAudit e) w = (Inr e', w1)" "event_match f e" "run E (ListAudit f) w1 = (Inr es, w2)"
  shows "(\<exists>older. es = e' # older) \<and> e' = e\<lparr>EvID := EvID e', EvAt := EvAt e'\<rparr> \<and>
    (\<forall>x \<in> set (events_of (tabs (w_db w))). EvID x < EvID e')"
  by (rule service_db.append_newest [OF assms])

lemma append_then_listed_first_witness:
  "\<exists>e' w1 older w2. run ref_env (AppendAudit (ref_event ''grant_active'')) audit_world = (Inr e', w1) \<and>
     run ref_env (ListAudit (everything 0)) w1 = (Inr (e' # older), w2)"
proof -
  obtain e' w1 where a: "run ref_env (AppendAudit (ref_event ''grant_active'')) audit_world = (Inr e', w1)"
    using run_append_example by blast
  have "audit_ok (fst (w_db w1))" using reference_db.append_ok [OF audit_world_ok(1,2,3) a] by blast
  then obtain es w2 where l: "run ref_env (ListAudit (everything 0)) w1 = (Inr es, w2)"
    using run_list_example by blast
  from append_then_listed_first [OF reference_db.service_db_axioms audit_world_ok(1,2,3) a audit_world_ok(4) l] a l
  show ?thesis by blast
qed

text \<open>
  However often a notification of one kind for one request is sent, with whatever texts,
  at most one post reaches the webhook, and none when the pair is marked already.
\<close>

lemma notify_at_most_once:
  assumes "notifying_world E tabs posts"
    and "run E (for_each (\<lambda>t. bnd (NotifyOnce n i k t) (\<lambda>_. Ret ())) ts) w = (u, w')"
  shows "posts (w_other w') \<le> Suc (posts (w_other w)) \<and>
    ((i, k) \<in> marks (tabs (w_db w)) \<longrightarrow> posts (w_other w') = posts (w_other w))"
  using notifying_world.notify_many [OF assms] by simp

lemma notify_at_most_once_witness:
  "o_posts (w_other (snd (run ref_env
     (for_each (\<lambda>t. bnd (NotifyOnce (New ''http://hook'' []) ''r1'' ''approved_requester'' t) (\<lambda>_. Ret ()))
       [''a'', ''b'', ''c'']) audit_world))) \<le> 1"
proof -
  obtain u w' where r: "run ref_env
     (for_each (\<lambda>t. bnd (NotifyOnce (New ''http://hook'' []) ''r1'' ''approved_requester'' t) (\<lambda>_. Ret ()))
       [''a'', ''b'', ''c'']) audit_world = (u, w')" by (rule prod.exhaust)
  from notify_at_most_once [OF reference_notifying.notifying_world_axioms this] r
  show ?thesis by (simp add: audit_world_def)
qed

end
