(* ===== verification/RestReference.thy ===== *)
theory RestReference
  imports Reference System
begin

text \<open>
  A Keycloak server that the client of \<open>keycloak/client.go\<close> can talk to: it answers the token
  request, the three queries and the two changes of the admin API with statuses and JSON
  bodies, for two users and three groups.  It shows that the contract of \<open>keycloak_api\<close> can be
  met, and with it the whole program, client included, has a concrete run.
\<close>

section \<open>The server\<close>

type_synonym rest_state = "(string \<times> string) list"   \<comment> \<open>user id and group name\<close>

definition rest_users :: "(string \<times> string) list" where
  "rest_users = [(''alice'', ''u1''), (''bob'', ''u2'')]"

definition rest_groups :: "(string \<times> string) list" where
  "rest_groups = [(''admin-eligible'', ''g1''), (''admin-active'', ''g2''), (''admin-permanent'', ''g3'')]"

definition found :: "json \<Rightarrow> http_response" where
  "found j = \<lparr>hp_code = 200, hp_status = ''200 OK'', hp_body = print_json j\<rparr>"

definition done_204 :: http_response where
  "done_204 = \<lparr>hp_code = 204, hp_status = ''204 No Content'', hp_body = []\<rparr>"

definition missing :: http_response where
  "missing = \<lparr>hp_code = 404, hp_status = ''404 Not Found'', hp_body = []\<rparr>"

definition user_body :: "string \<Rightarrow> json" where
  "user_body i = JArr [JObj [(''id'', JStr i)]]"

definition names_body :: "string list \<Rightarrow> json" where
  "names_body gs = JArr (map (\<lambda>g. JObj [(''name'', JStr g)]) gs)"

definition group_body :: "string \<Rightarrow> string \<Rightarrow> json" where
  "group_body i g = JArr [JObj [(''id'', JStr i), (''name'', JStr g)]]"

definition token_body :: json where
  "token_body = JObj [(''access_token'', JStr ''secret''), (''expires_in'', JNum (dec_int 300))]"

definition userinfo_path :: string where
  "userinfo_path = ''/realms/'' @ Realm ref_config @ ''/protocol/openid-connect/userinfo''"

definition userinfo_body :: json where
  "userinfo_body = JObj [(''preferred_username'', JStr ''alice''), (''groups'', JArr [JStr ''/ops/admin-permanent''])]"

definition names_of :: "string \<Rightarrow> rest_state \<Rightarrow> string list" where
  "names_of i k = filter (\<lambda>g. (i, g) \<in> set k) (map fst rest_groups)"

definition rest_get :: "string \<Rightarrow> rest_state \<Rightarrow> http_response" where
  "rest_get path k =
     (case find (\<lambda>(n, i). path = users_path ref_config n) rest_users of
        Some (n, i) \<Rightarrow> found (user_body i)
      | None \<Rightarrow>
          (case find (\<lambda>(n, i). path = user_groups_path ref_config i) rest_users of
             Some (n, i) \<Rightarrow> found (names_body (names_of i k))
           | None \<Rightarrow>
               (case find (\<lambda>(g, i). path = groups_path ref_config g) rest_groups of
                  Some (g, i) \<Rightarrow> found (group_body i g)
                | None \<Rightarrow> (if path = userinfo_path then found userinfo_body else missing))))"

definition rest_pair :: "string \<Rightarrow> (string \<times> string) option" where
  "rest_pair path =
     map_option (\<lambda>((n, i), (g, j)). (i, g))
       (find (\<lambda>((n, i), (g, j)). path = membership_path ref_config i j) (List.product rest_users rest_groups))"

definition rest_path :: "string \<Rightarrow> string" where
  "rest_path url = drop (length (slashless ref_config)) url"

definition rest_keycloak :: "http_request \<Rightarrow> rest_state \<Rightarrow> (error + http_response) \<times> rest_state" where
  "rest_keycloak q k =
     (if hq_method q = ''POST'' then (Inr (found token_body), k)
      else if hq_method q = ''GET'' then (Inr (rest_get (rest_path (hq_url q)) k), k)
      else (case rest_pair (rest_path (hq_url q)) of
          None \<Rightarrow> (Inr missing, k)
        | Some p \<Rightarrow>
            (if hq_method q = ''PUT'' then (Inr done_204, p # k)
             else if hq_method q = ''DELETE'' then (Inr done_204, filter (\<lambda>x. x \<noteq> p) k)
             else (Inr missing, k))))"

definition rest_user_id :: "string \<Rightarrow> string option" where
  "rest_user_id u = map_option snd (find (\<lambda>(n, i). u = n) rest_users)"

definition rest_in_grp :: "rest_state \<Rightarrow> (string \<times> string) set" where
  "rest_in_grp k = {(i, g) \<in> set k. g \<in> fst ` set rest_groups}"

definition rest_env :: "(engine, rest_state, outside) env" where
  "rest_env =
     \<lparr>e_exec = engine_exec, e_query = engine_query, e_audit = engine_audit, e_keycloak = rest_keycloak,
      e_webhook = ref_webhook, e_now = ref_now, e_rand = ref_rand\<rparr>"

section \<open>Its answers\<close>

lemma rest_user_ids: "rest_user_id u = Some i \<Longrightarrow> i \<in> {''u1'', ''u2''}"
  by (auto simp: rest_user_id_def rest_users_def split: if_splits)

lemma rest_group_ids:
  "map_of rest_groups g = Some j \<Longrightarrow>
   (g, j) \<in> {(''admin-eligible'', ''g1''), (''admin-active'', ''g2''), (''admin-permanent'', ''g3'')}"
  by (auto simp: rest_groups_def split: if_splits)

lemma rest_paths [simp]: "rest_path (slashless ref_config @ p) = p"
  by (simp add: rest_path_def)

lemma path_kinds:
  "users_path cfg u \<noteq> user_groups_path cfg i" "users_path cfg u \<noteq> groups_path cfg g"
  "groups_path cfg g \<noteq> user_groups_path cfg i" "groups_path cfg g \<noteq> users_path cfg u"
  "user_groups_path cfg i \<noteq> users_path cfg u" "user_groups_path cfg i \<noteq> groups_path cfg g"
  "users_path cfg u \<noteq> userinfo_path" "user_groups_path cfg i \<noteq> userinfo_path" "groups_path cfg g \<noteq> userinfo_path"
  by (simp_all add: users_path_def user_groups_path_def groups_path_def userinfo_path_def)

lemma utf8_names:
  "utf8 ''id''" "utf8 ''name''" "i \<in> {''u1'', ''u2'', ''g1'', ''g2'', ''g3''} \<Longrightarrow> utf8 i"
  "g \<in> fst ` set rest_groups \<Longrightarrow> utf8 g"
  by (auto simp: rest_groups_def utf8_ascii)

lemma answer_found:
  assumes "printable j" "depth j \<le> 2"
  shows "read_answer verb p (Some f) z (found j) = decoded (f j)"
proof -
  have "parse_all (print_json j) = Inr j"
    by (rule parse_print_json) (use assms in \<open>simp_all add: max_depth_def\<close>)
  moreover have "print_json j \<noteq> []"
    using cost_printed(1) [OF assms(1)] by (cases j) auto
  ultimately show ?thesis by (simp add: read_answer_def found_def)
qed

lemma user_answer:
  "i \<in> {''u1'', ''u2''} \<Longrightarrow> read_answer ''GET'' p (Some user_fields) [] (found (user_body i)) = Inr [i]"
  using utf8_names by (subst answer_found)
    (auto simp: user_body_def user_fields_def decode_structs_def decoded_def key_matches_def)

lemma group_answer:
  "(g, i) \<in> set rest_groups \<Longrightarrow> read_answer ''GET'' p (Some group_fields) [] (found (group_body i g)) = Inr [(i, g)]"
  using utf8_names by (subst answer_found)
    (auto simp: group_body_def group_fields_def decode_structs_def decoded_def key_matches_def rest_groups_def)

lemma names_answer:
  assumes "set gs \<subseteq> fst ` set rest_groups"
  shows "read_answer ''GET'' p (Some group_names) [] (found (names_body gs)) = Inr gs"
proof -
  have "printable_elems (map (\<lambda>g. JObj [(''name'', JStr g)]) gs)"
    using assms utf8_names by (induction gs) auto
  moreover have "depth_elems (map (\<lambda>g. JObj [(''name'', JStr g)]) gs) \<le> 1" by (induction gs) auto
  moreover have "all_some (map members_of (map (\<lambda>g. JObj [(''name'', JStr g)]) gs)) = Some (map (\<lambda>g. [(''name'', JStr g)]) gs)"
    by (induction gs) auto
  moreover have "all_some (map (field_from as_string ''name'' []) (map (\<lambda>g. [(''name'', JStr g)]) gs)) = Some gs"
    by (induction gs) (auto simp: key_matches_def)
  ultimately show ?thesis
    by (subst answer_found) (simp_all add: names_body_def group_names_def decode_structs_def decoded_def)
qed

lemma no_answer: "\<exists>e. read_answer verb p out z missing = Inl e"
  by (simp add: read_answer_def missing_def)

section \<open>It meets the contract of the client\<close>

lemma rest_form: "rest_keycloak (form_request url kvs) k = (Inr (found token_body), k)"
  by (simp add: rest_keycloak_def form_request_def)

lemma rest_bearer_get:
  "rest_keycloak (bearer_request ''GET'' (slashless ref_config @ p) tok) k = (Inr (rest_get p k), k)"
  by (simp add: rest_keycloak_def bearer_request_def)

lemma rest_get_user:
  "rest_get (users_path ref_config u) k = (case rest_user_id u of None \<Rightarrow> missing | Some i \<Rightarrow> found (user_body i))"
proof (cases "find (\<lambda>(n, i). u = n) rest_users")
  case None
  then have "rest_user_id u = None" by (simp add: rest_user_id_def)
  moreover have "find (\<lambda>(n, i). False) xs = None" for xs :: "(string \<times> string) list" by (induction xs) auto
  ultimately show ?thesis using None by (simp add: rest_get_def path_kinds users_path_inj)
next
  case (Some a)
  then show ?thesis by (cases a) (simp add: rest_get_def rest_user_id_def users_path_inj)
qed

lemma rest_get_names:
  "i \<in> {''u1'', ''u2''} \<Longrightarrow> rest_get (user_groups_path ref_config i) k = found (names_body (names_of i k))"
proof -
  have no: "find (\<lambda>(n, i). False) xs = None" for xs :: "(string \<times> string) list" by (induction xs) auto
  assume "i \<in> {''u1'', ''u2''}"
  then show ?thesis
    by (simp add: rest_get_def path_kinds no) (auto simp: rest_users_def user_groups_path_def)
qed

lemma rest_get_group:
  assumes "rest_get (groups_path ref_config g) k = resp"
  shows "resp = missing \<or> (\<exists>n i. (n, i) \<in> set rest_groups \<and> resp = found (group_body i n))"
proof -
  have no: "find (\<lambda>(n, i). False) xs = None" for xs :: "(string \<times> string) list" by (induction xs) auto
  show ?thesis
  proof (cases "find (\<lambda>(n, i). groups_path ref_config g = groups_path ref_config n) rest_groups")
    case None
    with assms show ?thesis by (simp add: rest_get_def path_kinds no)
  next
    case (Some a)
    then have "a \<in> set rest_groups" by (metis find_Some_iff nth_mem)
    with Some assms show ?thesis by (cases a) (auto simp: rest_get_def path_kinds no)
  qed
qed

lemma rest_group_path:
  assumes "(g, j) \<in> set rest_groups"
  shows "rest_get (groups_path ref_config g) k = found (group_body j g)"
proof -
  have no: "find (\<lambda>(n, i). False) xs = None" for xs :: "(string \<times> string) list" by (induction xs) auto
  show ?thesis
    using assms by (simp add: rest_get_def path_kinds no groups_path_inj) (auto simp: rest_groups_def)
qed

lemma rest_pair_member:
  "i \<in> {''u1'', ''u2''} \<Longrightarrow> map_of rest_groups g = Some j \<Longrightarrow>
   rest_pair (membership_path ref_config i j) = Some (i, g)"
  by (auto dest!: rest_group_ids)
    (simp_all add: rest_pair_def rest_users_def rest_groups_def membership_path_def)

lemma rest_change:
  assumes "i \<in> {''u1'', ''u2''}" "map_of rest_groups g = Some j"
  shows "rest_keycloak (bearer_request ''PUT'' (slashless ref_config @ membership_path ref_config i j) tok) k =
      (Inr done_204, (i, g) # k)"
    "rest_keycloak (bearer_request ''DELETE'' (slashless ref_config @ membership_path ref_config i j) tok) k =
      (Inr done_204, filter (\<lambda>x. x \<noteq> (i, g)) k)"
  using rest_pair_member [OF assms] by (simp_all add: rest_keycloak_def bearer_request_def)

interpretation rest_clock: clock rest_env ref_fair
proof (unfold_locales, goal_cases)
  case (1 x t x')
  then show ?case by (auto simp: rest_env_def ref_now_def ref_fair_def sane_def split: if_splits)
next
  case (2 x n bs x')
  then show ?case by (auto simp: rest_env_def ref_rand_def ref_fair_def)
next
  case (3 x q res x')
  then show ?case by (auto simp: rest_env_def ref_webhook_def ref_fair_def)
qed

interpretation rest_api: keycloak_api rest_env ref_fair ref_config rest_user_id "map_of rest_groups" rest_in_grp
proof (intro keycloak_api.intro keycloak_api_axioms.intro, rule rest_clock.clock_axioms, goal_cases)
  case (1 url kvs k r k')
  then show ?case by (simp add: rest_env_def rest_form)
next
  case (2 url tok k r k')
  then show ?case by (auto simp: rest_env_def rest_keycloak_def bearer_request_def)
next
  case (3 u tok k resp k' us)
  from 3(1) have resp: "resp = rest_get (users_path ref_config u) k" by (auto simp: rest_env_def rest_bearer_get)
  show ?case
  proof (cases "rest_user_id u")
    case None
    with 3(2) resp no_answer show ?thesis by (metis Inl_Inr_False option.simps(4) rest_get_user)
  next
    case (Some i)
    with 3(2) resp user_answer [OF rest_user_ids [OF Some]] show ?thesis by (auto simp: rest_get_user)
  qed
next
  case (4 uid tok k resp k' u names g)
  from rest_user_ids [OF 4(2)] have i: "uid \<in> {''u1'', ''u2''}" .
  have sub: "set (names_of uid k) \<subseteq> fst ` set rest_groups" by (auto simp: names_of_def)
  from 4(1) rest_get_names [OF i] have "resp = found (names_body (names_of uid k))"
    by (auto simp: rest_env_def rest_bearer_get)
  with 4(3) names_answer [OF sub] have "names = names_of uid k" by simp
  then show ?case by (auto simp: names_of_def rest_in_grp_def)
next
  case (5 g tok k resp k' gs gid)
  from 5(1) have "rest_get (groups_path ref_config g) k = resp" by (auto simp: rest_env_def rest_bearer_get)
  from rest_get_group [OF this] show ?case
  proof (elim disjE exE conjE)
    assume "resp = missing"
    with 5(2) no_answer show ?thesis by (metis Inl_Inr_False)
  next
    fix n i assume n: "(n, i) \<in> set rest_groups" "resp = found (group_body i n)"
    with 5(2) group_answer [OF n(1)] have "gs = [(i, n)]" by simp
    with 5(3) n(1) show ?thesis by (auto simp: rest_groups_def)
  qed
next
  case (6 uid gid tok k r k' u g)
  from rest_user_ids [OF 6(2)] have i: "uid \<in> {''u1'', ''u2''}" .
  have "g \<in> fst ` set rest_groups" using 6(3) by (auto dest: map_of_SomeD intro: rev_image_eqI)
  with 6(1) rest_change(1) [OF i 6(3)] show ?case by (auto simp: rest_env_def rest_in_grp_def)
next
  case (7 uid gid tok k r k' u g)
  from rest_user_ids [OF 7(2)] have i: "uid \<in> {''u1'', ''u2''}" .
  from 7(1) rest_change(2) [OF i 7(3)] show ?case by (auto simp: rest_env_def rest_in_grp_def)
qed

lemma token_answer: "read_token (found token_body) = Inr (''secret'', 300)"
proof -
  have "printable token_body"
    by (simp add: token_body_def utf8_ascii exI [of _ 300])
  moreover have "depth token_body \<le> max_depth" by (simp add: token_body_def max_depth_def)
  ultimately have "parse_all (print_json token_body) = Inr token_body" by (rule parse_print_json)
  then show ?thesis
    by (simp add: read_token_def found_def)
      (simp add: token_body_def token_fields_def key_matches_def decoded_def parse_int64_dec_int)
qed

lemma rest_get_userinfo: "rest_get userinfo_path k = found userinfo_body"
proof -
  have no: "find (\<lambda>(n, i). False) xs = None" for xs :: "(string \<times> string) list" by (induction xs) auto
  show ?thesis by (simp add: rest_get_def path_kinds [symmetric] path_kinds(7-9) [THEN not_sym] no)
qed

lemma userinfo_answer:
  "read_userinfo (found userinfo_body) =
     Inr \<lparr>ui_PreferredUsername = ''alice'', ui_Groups = Some [''admin-permanent'']\<rparr>"
proof -
  have "parse_all (print_json userinfo_body) = Inr userinfo_body"
    by (rule parse_print_json) (simp_all add: userinfo_body_def max_depth_def utf8_ascii)
  then show ?thesis
    by (simp add: read_userinfo_def found_def)
      (simp add: userinfo_body_def userinfo_fields_def key_matches_def decoded_def base_name_def)
qed

lemma exchange_answer: "read_exchange (found token_body) = Inr ''secret''"
proof -
  have "parse_all (print_json token_body) = Inr token_body"
    by (rule parse_print_json) (simp_all add: token_body_def max_depth_def utf8_ascii exI [of _ 300])
  then show ?thesis
    by (simp add: read_exchange_def found_def)
      (simp add: token_body_def access_field_def key_matches_def decoded_def)
qed

section \<open>The whole program on it\<close>

definition rest_world :: "request list \<Rightarrow> rest_state \<Rightarrow> time \<Rightarrow> (engine, rest_state, outside) world" where
  "rest_world qs ms t =
     \<lparr>w_db = (ref_tables qs, []), w_kc = ms, w_other = \<lparr>o_time = t, o_count = 0, o_posts = 0\<rparr>,
      w_client = new_client_mem, w_manager = Map.empty, w_log = [], w_held = {}\<rparr>"

interpretation rest_db: service_db_up rest_env fst engine_healthy
proof -
  have "sqlite_up (e_exec rest_env) (e_query rest_env) (e_audit rest_env) fst engine_healthy"
    using reference_engine.sqlite_up_axioms by (simp add: rest_env_def)
  then show "service_db_up rest_env fst engine_healthy" by (rule service_db_up.intro)
qed

interpretation rest_pim: pim rest_env fst ref_fair ref_config rest_user_id "map_of rest_groups" rest_in_grp
proof (intro pim.intro pim_axioms.intro)
  show "service_db rest_env fst" by (rule rest_db.service_db_axioms)
  show "keycloak_api rest_env ref_fair ref_config rest_user_id (map_of rest_groups) rest_in_grp"
    by (rule rest_api.keycloak_api_axioms)
  show "ttl_ok ref_config" by (simp add: ttl_ok_def ref_config_def)
qed

text \<open>The calls of the client on it, one by one.\<close>

definition same_server :: "(engine, rest_state, outside) world \<Rightarrow> (engine, rest_state, outside) world \<Rightarrow> bool" where
  "same_server w w' \<longleftrightarrow> w_kc w' = w_kc w \<and> groupIDs (w_client w') = groupIDs (w_client w)"

lemma rest_accessToken: "\<exists>tok w'. run rest_env (accessToken ref_config) w = (Inr tok, w') \<and> same_server w w'"
proof -
  have fetch: "\<exists>tok w'. run rest_env (fetch_token ref_config) v = (Inr tok, w') \<and> same_server v w'" for v
    by (simp add: fetch_token_def rest_env_def rest_form token_answer same_server_def split: prod.split)
  let ?w = "w\<lparr>w_held := insert Client_mu (w_held w)\<rparr>"
  obtain t x where now: "e_now rest_env (w_other w) = (t, x)" by (rule prod.exhaust)
  show ?thesis
  proof (cases "cachedToken (w_client w) = []")
    case True
    with fetch [of ?w] show ?thesis by (simp only: accessToken_def run.simps) (simp add: same_server_def)
  next
    case False
    show ?thesis
    proof (cases "t < tokenExpiry (w_client w) - 30 * Second")
      case True
      with False now show ?thesis by (simp add: accessToken_def same_server_def)
    next
      case old: False
      have "run rest_env (accessToken ref_config) w = run rest_env (fetch_token ref_config) (?w\<lparr>w_other := x\<rparr>)"
        using False old now by (simp only: accessToken_def run.simps) simp
      with fetch [of "?w\<lparr>w_other := x\<rparr>"] show ?thesis by (auto simp: same_server_def)
    qed
  qed
qed

lemma rest_do_request:
  assumes "\<And>tok. rest_keycloak (bearer_request verb (slashless ref_config @ p) tok) (w_kc w) = (Inr resp, k)"
  shows "\<exists>w'. run rest_env (do_request ref_config verb p out z) w = (read_answer verb p out z resp, w') \<and>
    w_kc w' = k \<and> groupIDs (w_client w') = groupIDs (w_client w)"
proof -
  obtain tok w1 where t: "run rest_env (accessToken ref_config) w = (Inr tok, w1)" "same_server w w1"
    using rest_accessToken by blast
  have "e_keycloak rest_env (bearer_request verb (slashless ref_config @ p) tok) (w_kc w1) = (Inr resp, k)"
    using assms [of tok] t(2) by (simp add: rest_env_def same_server_def)
  with t show ?thesis by (simp add: do_request_def run_simps same_server_def)
qed

lemma rest_get_request:
  "\<exists>w'. run rest_env (do_request ref_config ''GET'' p out z) w =
     (read_answer ''GET'' p out z (rest_get p (w_kc w)), w') \<and> same_server w w'"
  using rest_do_request [OF rest_bearer_get] by (simp add: same_server_def)

lemma rest_userID:
  assumes "rest_user_id u = Some i"
  shows "\<exists>w'. run rest_env (userID ref_config u) w = (Inr i, w') \<and> same_server w w'"
proof -
  obtain w' where "run rest_env (do_request ref_config ''GET'' (users_path ref_config u) (Some user_fields) []) w =
     (read_answer ''GET'' (users_path ref_config u) (Some user_fields) [] (rest_get (users_path ref_config u) (w_kc w)), w')"
     "same_server w w'" using rest_get_request [of "users_path ref_config u" "Some user_fields" "[]" w] by blast
  moreover have "i \<noteq> []" using rest_user_ids [OF assms] by auto
  ultimately show ?thesis
    using user_answer [OF rest_user_ids [OF assms]] assms by (simp add: userID_def run_simps rest_get_user)
qed

lemma rest_InGroup:
  assumes "rest_user_id u = Some i" "g \<in> fst ` set rest_groups"
  shows "\<exists>w'. run rest_env (InGroup ref_config u g) w = (Inr ((i, g) \<in> set (w_kc w)), w') \<and> same_server w w'"
proof -
  obtain w1 where 1: "run rest_env (userID ref_config u) w = (Inr i, w1)" "same_server w w1"
    using rest_userID [OF assms(1)] by blast
  obtain w2 where 2: "run rest_env (userGroups ref_config i) w1 =
     (read_answer ''GET'' (user_groups_path ref_config i) (Some group_names) []
       (rest_get (user_groups_path ref_config i) (w_kc w1)), w2)" "same_server w1 w2"
    unfolding userGroups_def
    using rest_get_request [of "user_groups_path ref_config i" "Some group_names" "[]" w1] by blast
  have "set (names_of i (w_kc w1)) \<subseteq> fst ` set rest_groups" by (auto simp: names_of_def)
  from names_answer [OF this] rest_get_names [OF rest_user_ids [OF assms(1)]] 2(1)
  have "run rest_env (userGroups ref_config i) w1 = (Inr (names_of i (w_kc w1)), w2)" by simp
  moreover have "g \<in> set (names_of i (w_kc w1)) \<longleftrightarrow> (i, g) \<in> set (w_kc w)"
    using assms(2) 1(2) by (auto simp: names_of_def same_server_def)
  ultimately show ?thesis using 1 2(2) by (simp add: InGroup_def run_simps same_server_def)
qed

lemma rest_groupID:
  assumes "map_of rest_groups g = Some j" "rest_api.ids_ok (w_client w)"
  shows "\<exists>w'. run rest_env (groupID ref_config g) w = (Inr j, w') \<and> w_kc w' = w_kc w"
proof (cases "groupIDs (w_client w) g")
  case (Some i)
  with assms have "i = j" by (auto simp: rest_api.ids_ok_def)
  with Some show ?thesis by (simp add: groupID_def)
next
  case None
  have mem: "(g, j) \<in> set rest_groups" using assms(1) by (rule map_of_SomeD)
  let ?w = "w\<lparr>w_held := insert Client_mu (w_held w) - {Client_mu}\<rparr>"
  obtain w1 where 1: "run rest_env (do_request ref_config ''GET'' (groups_path ref_config g) (Some group_fields) []) ?w =
     (read_answer ''GET'' (groups_path ref_config g) (Some group_fields) [] (rest_get (groups_path ref_config g) (w_kc w)), w1)"
    "same_server ?w w1"
    using rest_get_request [of "groups_path ref_config g" "Some group_fields" "[]" ?w] by auto
  have "rest_get (groups_path ref_config g) (w_kc w) = found (group_body j g)"
    by (rule rest_group_path [OF mem])
  with 1 group_answer [OF mem] have "run rest_env
      (do_request ref_config ''GET'' (groups_path ref_config g) (Some group_fields) []) ?w = (Inr [(j, g)], w1)" by simp
  moreover have "j \<noteq> []" using mem by (auto simp: rest_groups_def)
  ultimately show ?thesis using None 1(2) by (simp add: groupID_def run_simps same_server_def)
qed

lemma rest_change_membership:
  assumes "rest_user_id u = Some i" "map_of rest_groups g = Some j" "rest_api.ids_ok (w_client w)"
    and "(verb, k) \<in> {(''PUT'', (i, g) # w_kc w), (''DELETE'', filter (\<lambda>x. x \<noteq> (i, g)) (w_kc w))}"
  shows "\<exists>w'. run rest_env (change_membership ref_config verb u g) w = (Inr (), w') \<and> w_kc w' = k"
proof -
  obtain w1 where 1: "run rest_env (userID ref_config u) w = (Inr i, w1)" "same_server w w1"
    using rest_userID [OF assms(1)] by blast
  have ids: "rest_api.ids_ok (w_client w1)" using assms(3) 1(2) by (simp add: rest_api.ids_ok_def same_server_def)
  obtain w2 where 2: "run rest_env (groupID ref_config g) w1 = (Inr j, w2)" "w_kc w2 = w_kc w1"
    using rest_groupID [OF assms(2) ids] by blast
  have "rest_keycloak (bearer_request verb (slashless ref_config @ membership_path ref_config i j) tok) (w_kc w2) =
      (Inr done_204, k)" for tok
    using assms(4) rest_change [OF rest_user_ids [OF assms(1)] assms(2), of tok "w_kc w2"] 1(2) 2(2)
    by (auto simp: same_server_def)
  from rest_do_request [OF this, of None "()"] obtain w3 where
    "run rest_env (do_request ref_config verb (membership_path ref_config i j) None ()) w2 =
       (read_answer verb (membership_path ref_config i j) None () done_204, w3)" "w_kc w3 = k" by blast
  with 1 2 show ?thesis by (simp add: change_membership_def run_simps read_answer_def done_204_def)
qed

end
