(* ===== verification/ClientSpec.thy ===== *)
theory ClientSpec
  imports RestReference
begin

text \<open>
  The properties of the Keycloak client: its token, its group ids, and that its three calls do
  on the memberships of the server what the service relies on.
\<close>

section \<open>The token\<close>

lemma run_accessToken_cached:
  assumes "cachedToken (w_client w) \<noteq> []" "fst (e_now E (w_other w)) < tokenExpiry (w_client w) - 30 * Second"
  shows "run E (accessToken cfg) w =
    (Inr (cachedToken (w_client w)),
     w\<lparr>w_other := snd (e_now E (w_other w)), w_held := w_held w - {Client_mu}\<rparr>)"
  using assms by (cases "e_now E (w_other w)") (auto simp: accessToken_def)

text \<open>The request for a token.\<close>

definition token_request :: "config \<Rightarrow> http_request" where
  "token_request cfg = form_request (token_url cfg)
     [(''grant_type'', ''client_credentials''), (''client_id'', ClientID cfg),
      (''client_secret'', ClientSecret cfg)]"

lemma run_fetch_token:
  "run E (fetch_token cfg) w =
     (case e_keycloak E (token_request cfg) (w_kc w) of (res, k) \<Rightarrow>
      (case (case res of Inl e \<Rightarrow> Inl e | Inr resp \<Rightarrow> read_token resp) of
         Inl e \<Rightarrow> (Inl e, w\<lparr>w_kc := k, w_held := w_held w - {Client_mu}\<rparr>)
       | Inr (tok, secs) \<Rightarrow>
           (Inr tok, w\<lparr>w_kc := k, w_other := snd (e_now E (w_other w)), w_held := w_held w - {Client_mu},
              w_client := (w_client w)\<lparr>cachedToken := tok,
                tokenExpiry := fst (e_now E (w_other w)) + wrap64 (secs * Second)\<rparr>\<rparr>)))"
  by (auto simp: fetch_token_def token_request_def split: prod.splits sum.splits)

lemma read_token_ok: "read_token resp = Inr (tok, secs) \<Longrightarrow> tok \<noteq> [] \<and> hp_code resp < 300"
  by (auto simp: read_token_def split: if_splits sum.splits prod.splits)

lemma run_accessToken_empty:
  "cachedToken (w_client w) = [] \<Longrightarrow>
   run E (accessToken cfg) w = run E (fetch_token cfg) (w\<lparr>w_held := insert Client_mu (w_held w)\<rparr>)"
  by (simp only: accessToken_def) simp

lemma wrap64_id: "- (2 ^ 63) \<le> x \<Longrightarrow> x < 2 ^ 63 \<Longrightarrow> wrap64 x = x"
  by (simp add: wrap64_def)

lemma wrap64_range: "- (2 ^ 63) \<le> wrap64 x \<and> wrap64 x < 2 ^ 63"
  using pos_mod_bound [of "2 ^ 64 :: int" "x + 2 ^ 63"] pos_mod_sign [of "2 ^ 64 :: int" "x + 2 ^ 63"]
  by (simp add: wrap64_def)

section \<open>Memberships\<close>

context keycloak_api
begin

lemma in_group_answer:
  assumes "ids_ok (w_client w)" "run E (InGroup cfg u g) w = (x, w')"
  shows "in_grp (w_kc w') = in_grp (w_kc w) \<and> ids_ok (w_client w') \<and>
    (\<forall>b. x = Inr b \<longrightarrow> (\<exists>uid. user_id u = Some uid \<and> (b \<longleftrightarrow> (uid, g) \<in> in_grp (w_kc w))))"
proof -
  obtain y w1 where u: "run E (userID cfg u) w = (y, w1)" by (rule prod.exhaust)
  note c = InGroup_contract [OF assms(2)]
  have known: "\<exists>uid. user_id u = Some uid" if "x = Inr b" for b
  proof (cases y)
    case (Inl e)
    with assms(2) u have "x = Inl e" by (simp add: InGroup_def run_simps)
    with that show ?thesis by simp
  next
    case (Inr uid)
    from userID_calm(2) [OF u this] show ?thesis by blast
  qed
  have "\<exists>uid. user_id u = Some uid \<and> (b \<longleftrightarrow> (uid, g) \<in> in_grp (w_kc w))" if x: "x = Inr b" for b
  proof -
    obtain uid where uid: "user_id u = Some uid" using known [OF x] by blast
    with c(2) [OF x] show ?thesis by (simp add: identity_def)
  qed
  moreover have "ids_ok (w_client w')" "in_grp (w_kc w') = in_grp (w_kc w)"
    using c(1) assms(1) by (simp_all add: calm_def)
  ultimately show ?thesis by blast
qed

lemma change_answer:
  assumes "ids_ok (w_client w)" "run E (change_membership cfg verb u g) w = (x, w')"
    and "(verb, op) \<in> {(''PUT'', insert), (''DELETE'', \<lambda>p m. m - {p})}"
  shows "w_db w' = w_db w \<and> ids_ok (w_client w') \<and>
    (in_grp (w_kc w') = in_grp (w_kc w) \<and> x \<noteq> Inr () \<or>
     (\<exists>uid. user_id u = Some uid \<and> group_id g \<noteq> None \<and>
        in_grp (w_kc w') \<in> {in_grp (w_kc w), op (uid, g) (in_grp (w_kc w))} \<and>
        (x = Inr () \<longrightarrow> in_grp (w_kc w') = op (uid, g) (in_grp (w_kc w)))))"
  using assms(1,2)
proof (rule change_cases)
  fix e assume "x = Inl e" "calmly w w'"
  then show ?thesis using assms(1) by (auto simp: calm_def)
next
  fix uid gid tok w1 r k
  assume c: "calmly w w1" "user_id u = Some uid" "group_id g = Some gid"
    "e_keycloak E (bearer_request verb (slashless cfg @ membership_path cfg uid gid) tok) (w_kc w1) = (r, k)"
    "w' = w1\<lparr>w_kc := k\<rparr>" "x = Inr () \<Longrightarrow> \<exists>resp. r = Inr resp \<and> hp_code resp < 300"
  have "in_grp k \<in> {in_grp (w_kc w), op (uid, g) (in_grp (w_kc w))} \<and>
      (x = Inr () \<longrightarrow> in_grp k = op (uid, g) (in_grp (w_kc w)))"
    using assms(3)
  proof (elim insertE emptyE)
    assume "(verb, op) = (''PUT'', insert)"
    with put_api [of uid gid tok "w_kc w1" r k u g] c show ?thesis by (auto simp: insert_absorb)
  next
    assume "(verb, op) = (''DELETE'', \<lambda>p m. m - {p})"
    with delete_api [of uid gid tok "w_kc w1" r k u g] c show ?thesis by auto
  qed
  with c assms(1) show ?thesis by (auto simp: calm_def)
qed

end

section \<open>Properties\<close>

text \<open>
  When no token is cached, exactly one exchange asks for one.  Only an answer with a status
  below 300 and a token that is not empty is cached, until the time it names (in the 64 bits of
  a duration); every other answer is an error and leaves the cache as it was.
\<close>

lemma token_fetched:
  assumes "cachedToken (w_client w) = []" "run E (accessToken cfg) w = (x, w')"
  shows "\<exists>res. e_keycloak E (token_request cfg) (w_kc w) = (res, w_kc w') \<and>
    (case x of
       Inl e \<Rightarrow> w_client w' = w_client w \<and> (case res of Inl d \<Rightarrow> e = d | Inr resp \<Rightarrow> read_token resp = Inl e)
     | Inr tok \<Rightarrow> tok \<noteq> [] \<and>
         (\<exists>resp secs. res = Inr resp \<and> hp_code resp < 300 \<and> read_token resp = Inr (tok, secs) \<and>
            w_client w' = (w_client w)\<lparr>cachedToken := tok,
              tokenExpiry := fst (e_now E (w_other w)) + wrap64 (secs * Second)\<rparr>))"
proof -
  let ?w = "w\<lparr>w_held := insert Client_mu (w_held w)\<rparr>"
  obtain res k where k: "e_keycloak E (token_request cfg) (w_kc w) = (res, k)" by (rule prod.exhaust)
  have r: "run E (fetch_token cfg) ?w = (x, w')"
    using assms(2) unfolding run_accessToken_empty [OF assms(1)] .
  show ?thesis
  proof (cases res)
    case (Inl e)
    with r k show ?thesis by (auto simp: run_fetch_token)
  next
    case (Inr resp)
    show ?thesis
    proof (cases "read_token resp")
      case (Inl e)
      with r k Inr show ?thesis by (auto simp: run_fetch_token)
    next
      case tok: (Inr p)
      obtain t n where p: "p = (t, n)" by (rule prod.exhaust)
      note ok = read_token_ok [OF tok [unfolded p]]
      have "x = Inr t" "w_kc w' = k" "w_client w' = (w_client w)\<lparr>cachedToken := t,
              tokenExpiry := fst (e_now E (w_other w)) + wrap64 (n * Second)\<rparr>"
        using r k Inr tok p by (auto simp: run_fetch_token)
      with k Inr tok p ok show ?thesis by simp
    qed
  qed
qed

lemma token_fetched_witness:
  "\<exists>w'. run rest_env (accessToken ref_config) (rest_world [] [] noon) = (Inr ''secret'', w') \<and>
     cachedToken (w_client w') = ''secret''"
proof -
  obtain x w' where r: "run rest_env (accessToken ref_config) (rest_world [] [] noon) = (x, w')"
    by (rule prod.exhaust)
  have empty: "cachedToken (w_client (rest_world [] [] noon)) = []" by (simp add: rest_world_def new_client_mem_def)
  from token_fetched [OF this r] have "x = Inr ''secret'' \<and> cachedToken (w_client w') = ''secret''"
    by (cases x) (auto simp: rest_env_def token_request_def rest_form token_answer)
  with r show ?thesis by blast
qed

text \<open>What a call that has to ask for a token does, also when an old one is cached.\<close>

lemma run_accessToken_stale:
  assumes "cachedToken (w_client w) \<noteq> []" "\<not> fst (e_now E (w_other w)) < tokenExpiry (w_client w) - 30 * Second"
  shows "run E (accessToken cfg) w =
    run E (fetch_token cfg) (w\<lparr>w_held := insert Client_mu (w_held w), w_other := snd (e_now E (w_other w))\<rparr>)"
  using assms by (cases "e_now E (w_other w)") (simp add: accessToken_def)

definition asked_at :: "('d, 'k, 'o) env \<Rightarrow> ('d, 'k, 'o) world \<Rightarrow> 'o" where
  "asked_at E w = (if cachedToken (w_client w) = [] then w_other w else snd (e_now E (w_other w)))"

lemma token_asked:
  assumes "\<not> (cachedToken (w_client w) \<noteq> [] \<and> fst (e_now E (w_other w)) < tokenExpiry (w_client w) - 30 * Second)"
    and "run E (accessToken cfg) w = (x, w1)"
  shows "\<exists>res. e_keycloak E (token_request cfg) (w_kc w) = (res, w_kc w1) \<and>
    (case x of
       Inl e \<Rightarrow> w_client w1 = w_client w \<and> (case res of Inl d \<Rightarrow> e = d | Inr resp \<Rightarrow> read_token resp = Inl e)
     | Inr tok \<Rightarrow> (\<exists>resp secs. res = Inr resp \<and> tok \<noteq> [] \<and> hp_code resp < 300 \<and> read_token resp = Inr (tok, secs) \<and>
         w_client w1 = (w_client w)\<lparr>cachedToken := tok,
           tokenExpiry := fst (e_now E (asked_at E w)) + wrap64 (secs * Second)\<rparr>))"
proof -
  obtain v where v: "run E (fetch_token cfg) v = (x, w1)" "w_kc v = w_kc w" "w_client v = w_client w" "w_other v = asked_at E w"
  proof (cases "cachedToken (w_client w) = []")
    case True
    with assms(2) run_accessToken_empty [OF True, of E cfg] that show thesis by (simp add: asked_at_def)
  next
    case False
    with assms run_accessToken_stale [OF False, of E cfg] that show thesis by (simp add: asked_at_def)
  qed
  then show ?thesis using read_token_ok
    by (fastforce simp: run_fetch_token split: prod.splits sum.splits)
qed

text \<open>The count tells whether there was an exchange.\<close>

lemma token_counted:
  assumes "\<forall>q k. cnt (snd (e_keycloak E q k)) = Suc (cnt k :: nat)" "run E (accessToken cfg) w = (x, w')"
  shows "cnt (w_kc w') = cnt (w_kc w) \<longleftrightarrow>
    cachedToken (w_client w) \<noteq> [] \<and> fst (e_now E (w_other w)) < tokenExpiry (w_client w) - 30 * Second"
    (is "_ \<longleftrightarrow> ?fresh")
proof (cases ?fresh)
  case True
  with assms(2) show ?thesis by (simp add: run_accessToken_cached) force
next
  case False
  from token_asked [OF this assms(2)] assms(1) have "cnt (w_kc w') = Suc (cnt (w_kc w))" by (metis snd_conv)
  with False show ?thesis by auto
qed

text \<open>An environment that counts the exchanges with the server, around any other.\<close>

definition counting :: "('d, 'k, 'o) env \<Rightarrow> ('d, 'k \<times> nat, 'o) env" where
  "counting E =
     \<lparr>e_exec = e_exec E, e_query = e_query E, e_audit = e_audit E,
      e_keycloak = (\<lambda>q (k, n). case e_keycloak E q k of (res, k') \<Rightarrow> (res, (k', Suc n))),
      e_webhook = e_webhook E, e_now = e_now E, e_rand = e_rand E\<rparr>"

definition counted_world :: "(engine, rest_state \<times> nat, outside) world" where
  "counted_world =
     \<lparr>w_db = (empty_tables, []), w_kc = ([], 0), w_other = \<lparr>o_time = noon, o_count = 0, o_posts = 0\<rparr>,
      w_client = new_client_mem, w_manager = Map.empty, w_log = [], w_held = {}\<rparr>"

text \<open>
  C39: the window of the cached token, in both directions.  A call makes no exchange with the
  server exactly when a token is cached and the clock is more than thirty seconds before its
  expiry; then it answers that token and changes nothing.  In every other case it makes exactly
  one exchange, the request for a token; an answer that is an error, has a status of 300 or more
  or holds no token leaves the cache as it was, and any other is cached and answered.  From then
  on, as long as the cache is as this call left it, a call needs no exchange exactly until thirty
  seconds before the time the server named, counted from the moment the answer came.
\<close>

theorem token_window:
  assumes "\<forall>q k. cnt (snd (e_keycloak E q k)) = Suc (cnt k :: nat)"
    and "run E (accessToken cfg) w = (x, w1)"
  shows "(cnt (w_kc w1) = cnt (w_kc w) \<longleftrightarrow>
      cachedToken (w_client w) \<noteq> [] \<and> fst (e_now E (w_other w)) < tokenExpiry (w_client w) - 30 * Second) \<and>
    (if cnt (w_kc w1) = cnt (w_kc w)
     then x = Inr (cachedToken (w_client w)) \<and> w_client w1 = w_client w \<and> w_kc w1 = w_kc w
     else \<exists>res. e_keycloak E (token_request cfg) (w_kc w) = (res, w_kc w1) \<and>
       (case x of
          Inl e \<Rightarrow> w_client w1 = w_client w \<and> (case res of Inl d \<Rightarrow> e = d | Inr resp \<Rightarrow> read_token resp = Inl e)
        | Inr tok \<Rightarrow> \<exists>resp secs till. res = Inr resp \<and> tok \<noteq> [] \<and> hp_code resp < 300 \<and>
            read_token resp = Inr (tok, secs) \<and> till = fst (e_now E (asked_at E w)) + wrap64 (secs * Second) \<and>
            w_client w1 = (w_client w)\<lparr>cachedToken := tok, tokenExpiry := till\<rparr> \<and>
            (\<forall>w2 y w3. w_client w2 = w_client w1 \<longrightarrow> run E (accessToken cfg) w2 = (y, w3) \<longrightarrow>
               (cnt (w_kc w3) = cnt (w_kc w2) \<longleftrightarrow> fst (e_now E (w_other w2)) < till - 30 * Second))))"
proof -
  let ?fresh = "\<lambda>w. cachedToken (w_client w) \<noteq> [] \<and> fst (e_now E (w_other w)) < tokenExpiry (w_client w) - 30 * Second"
  note count = token_counted [OF assms(1)]
  show ?thesis
  proof (cases "?fresh w")
    case True
    with count [OF assms(2)] assms(2) show ?thesis by (auto simp: run_accessToken_cached)
  next
    case False
    then have more: "cnt (w_kc w1) \<noteq> cnt (w_kc w)" using count [OF assms(2)] by blast
    obtain res where res: "e_keycloak E (token_request cfg) (w_kc w) = (res, w_kc w1)"
      "case x of
         Inl e \<Rightarrow> w_client w1 = w_client w \<and> (case res of Inl d \<Rightarrow> e = d | Inr resp \<Rightarrow> read_token resp = Inl e)
       | Inr tok \<Rightarrow> (\<exists>resp secs. res = Inr resp \<and> tok \<noteq> [] \<and> hp_code resp < 300 \<and> read_token resp = Inr (tok, secs) \<and>
           w_client w1 = (w_client w)\<lparr>cachedToken := tok,
             tokenExpiry := fst (e_now E (asked_at E w)) + wrap64 (secs * Second)\<rparr>)"
      using token_asked [OF False assms(2)] by blast
    have reuse: "\<forall>w2 y w3. w_client w2 = w_client w1 \<longrightarrow> run E (accessToken cfg) w2 = (y, w3) \<longrightarrow>
        (cnt (w_kc w3) = cnt (w_kc w2) \<longleftrightarrow> fst (e_now E (w_other w2)) < till - 30 * Second)"
      if "w_client w1 = (w_client w)\<lparr>cachedToken := tok, tokenExpiry := till\<rparr>" "tok \<noteq> []" for tok till
      using count that by simp
    show ?thesis
    proof (cases x)
      case (Inl e)
      with False count [OF assms(2)] res show ?thesis by simp
    next
      case (Inr tok)
      with res(2) obtain resp secs where t: "res = Inr resp" "tok \<noteq> []" "hp_code resp < 300" "read_token resp = Inr (tok, secs)"
        "w_client w1 = (w_client w)\<lparr>cachedToken := tok,
             tokenExpiry := fst (e_now E (asked_at E w)) + wrap64 (secs * Second)\<rparr>" by auto
      note r = reuse [OF t(5,2)]
      show ?thesis
        unfolding if_not_P [OF more] Inr sum.case
        by (intro conjI exI [of _ res] exI [of _ resp] exI [of _ secs] exI [of _ "fst (e_now E (asked_at E w)) + wrap64 (secs * Second)"])
          (fact count [OF assms(2)] res(1) t r | rule refl)+
    qed
  qed
qed

theorem token_window_witness:
  "\<exists>w1 w2 w3. run (counting rest_env) (accessToken ref_config) counted_world = (Inr ''secret'', w1) \<and> snd (w_kc w1) = 1 \<and>
     run (counting rest_env) (accessToken ref_config) (w1\<lparr>w_other := w_other counted_world\<rparr>) = (Inr ''secret'', w2) \<and>
     snd (w_kc w2) = 1 \<and>
     snd (run (counting rest_env) (accessToken ref_config)
       (w1\<lparr>w_other := (w_other counted_world)\<lparr>o_time := noon + 271 * Second\<rparr>\<rparr>)) = w3 \<and> snd (w_kc w3) = 2"
proof -
  let ?E = "counting rest_env" and ?p = "accessToken ref_config :: (error + string) prog"
  have count: "\<forall>q k. snd (snd (e_keycloak ?E q k)) = Suc (snd k)" by (simp add: counting_def split: prod.split)
  have now: "fst (e_now ?E x) = o_time x" for x by (simp add: counting_def rest_env_def ref_now_def)
  have cold: "cachedToken (w_client counted_world) = []" "snd (w_kc counted_world) = 0" "o_time (w_other counted_world) = noon"
    by (simp_all add: counted_world_def new_client_mem_def)
  obtain x w1 where 1: "run ?E ?p counted_world = (x, w1)" by (rule prod.exhaust)
  let ?w2 = "w1\<lparr>w_other := w_other counted_world\<rparr>"
  let ?w3 = "w1\<lparr>w_other := (w_other counted_world)\<lparr>o_time := noon + 271 * Second\<rparr>\<rparr>"
  obtain y w2 where 2: "run ?E ?p ?w2 = (y, w2)" by (rule prod.exhaust)
  obtain z w3 where 3: "run ?E ?p ?w3 = (z, w3)" by (rule prod.exhaust)
  note c2 = token_window [OF count 2] and c3 = token_window [OF count 3]
  have ask: "e_keycloak ?E (token_request ref_config) (w_kc counted_world) = (Inr (found token_body), ([], 1))"
    by (simp add: counting_def rest_env_def token_request_def rest_form counted_world_def)
  have w1: "x = Inr ''secret''" "cachedToken (w_client w1) = ''secret''" "tokenExpiry (w_client w1) = noon + 300 * Second"
    "snd (w_kc w1) = 1"
    using token_fetched [OF cold(1) 1] ask token_answer now [of "w_other counted_world"] cold(3)
    by (cases x; force simp: wrap64_def Second_def)+
  have "y = Inr ''secret''" "snd (w_kc w2) = 1"
    using c2 w1 now cold(3) by (auto simp: Second_def)
  moreover have "snd (w_kc w3) \<noteq> 1" "\<exists>res. e_keycloak ?E (token_request ref_config) (w_kc w1) = (res, w_kc w3)"
    using c3 w1 now by (auto simp: Second_def)
  then have "snd (w_kc w3) = 2" using count w1(4) by (metis Suc_1 snd_conv)
  ultimately show ?thesis using 1 2 3 w1 by auto
qed

text \<open>
  C37: the client answers a membership question only for a user the server knows, and then with
  the server's own answer; asking changes no membership.
\<close>

theorem in_group_asks_the_server:
  assumes "keycloak_api E fair cfg user_id group_id in_grp"
    and "\<forall>n i. groupIDs (w_client w) n = Some i \<longrightarrow> group_id n = Some i"
    and "run E (InGroup cfg u g) w = (x, w')"
  shows "in_grp (w_kc w') = in_grp (w_kc w) \<and>
    (\<forall>b. x = Inr b \<longrightarrow> (\<exists>uid. user_id u = Some uid \<and> (b \<longleftrightarrow> (uid, g) \<in> in_grp (w_kc w))))"
  using keycloak_api.in_group_answer [OF assms(1) _ assms(3)] assms(2)
  by (simp add: keycloak_api.ids_ok_def [OF assms(1)])

theorem in_group_asks_the_server_witness:
  "\<exists>w'. run rest_env (InGroup ref_config ''alice'' ''admin-active'') (rest_world [] [(''u1'', ''admin-active'')] noon) =
     (Inr True, w') \<and> (''u1'', ''admin-active'') \<in> rest_in_grp (w_kc w')"
proof -
  have alice: "rest_user_id ''alice'' = Some ''u1''" by (simp add: rest_user_id_def rest_users_def)
  have g: "''admin-active'' \<in> fst ` set rest_groups" by (simp add: rest_groups_def)
  obtain w' where r: "run rest_env (InGroup ref_config ''alice'' ''admin-active'')
      (rest_world [] [(''u1'', ''admin-active'')] noon) = (Inr True, w')"
    using rest_InGroup [OF alice g, of "rest_world [] [(''u1'', ''admin-active'')] noon"] by (auto simp: rest_world_def)
  from in_group_asks_the_server [OF rest_api.keycloak_api_axioms _ this] alice
  have "(''u1'', ''admin-active'') \<in> rest_in_grp (w_kc w')" by (auto simp: rest_world_def new_client_mem_def)
  with r show ?thesis by blast
qed

text \<open>
  C38: adding a user to a group or removing it from one, when it succeeds, has changed exactly
  that membership on the server; when it fails it has changed that one or none.  The cached
  group ids stay right, and the tables are not touched.
\<close>

theorem change_membership_effect:
  assumes "keycloak_api E fair cfg user_id group_id in_grp"
    and "\<forall>n i. groupIDs (w_client w) n = Some i \<longrightarrow> group_id n = Some i"
    and "run E (AddToGroup cfg u g) w = (x, w1)" "run E (RemoveFromGroup cfg u g) w = (y, w2)"
  shows "w_db w1 = w_db w \<and> w_db w2 = w_db w \<and>
    (\<forall>n i. groupIDs (w_client w1) n = Some i \<longrightarrow> group_id n = Some i) \<and>
    (\<forall>n i. groupIDs (w_client w2) n = Some i \<longrightarrow> group_id n = Some i) \<and>
    (in_grp (w_kc w1) = in_grp (w_kc w) \<and> x \<noteq> Inr () \<or>
     (\<exists>uid. user_id u = Some uid \<and> in_grp (w_kc w1) \<in> {in_grp (w_kc w), insert (uid, g) (in_grp (w_kc w))} \<and>
        (x = Inr () \<longrightarrow> in_grp (w_kc w1) = insert (uid, g) (in_grp (w_kc w))))) \<and>
    (in_grp (w_kc w2) = in_grp (w_kc w) \<and> y \<noteq> Inr () \<or>
     (\<exists>uid. user_id u = Some uid \<and> in_grp (w_kc w2) \<in> {in_grp (w_kc w), in_grp (w_kc w) - {(uid, g)}} \<and>
        (y = Inr () \<longrightarrow> in_grp (w_kc w2) = in_grp (w_kc w) - {(uid, g)})))"
proof -
  have ids: "keycloak_api.ids_ok group_id (w_client w)"
    using assms(2) by (simp add: keycloak_api.ids_ok_def [OF assms(1)])
  note a = keycloak_api.change_answer [OF assms(1) ids, of "''PUT''" u g x w1 insert]
  note d = keycloak_api.change_answer [OF assms(1) ids, of "''DELETE''" u g y w2 "\<lambda>p m. m - {p}"]
  show ?thesis
    using a d assms(3,4)
    by (auto simp: AddToGroup_def RemoveFromGroup_def keycloak_api.ids_ok_def [OF assms(1)])
qed

theorem change_membership_effect_witness:
  "\<exists>w1. run rest_env (AddToGroup ref_config ''bob'' ''admin-active'') (rest_world [] [] noon) = (Inr (), w1) \<and>
     rest_in_grp (w_kc w1) = {(''u2'', ''admin-active'')}"
proof -
  let ?w = "rest_world [] [] noon"
  have bob: "rest_user_id ''bob'' = Some ''u2''" by (simp add: rest_user_id_def rest_users_def)
  have g: "map_of rest_groups ''admin-active'' = Some ''g2''" by (simp add: rest_groups_def)
  have empty: "groupIDs (w_client ?w) = Map.empty" by (simp add: rest_world_def new_client_mem_def)
  then have ids: "rest_api.ids_ok (w_client ?w)" by (simp add: rest_api.ids_ok_def)
  obtain w1 where a: "run rest_env (AddToGroup ref_config ''bob'' ''admin-active'') ?w = (Inr (), w1)"
    using rest_change_membership [OF bob g ids, of "''PUT''"] by (auto simp: AddToGroup_def)
  obtain y w2 where d: "run rest_env (RemoveFromGroup ref_config ''bob'' ''admin-active'') ?w = (y, w2)"
    by (rule prod.exhaust)
  have "rest_in_grp (w_kc w1) = {(''u2'', ''admin-active'')}"
    using change_membership_effect [OF rest_api.keycloak_api_axioms _ a d] bob empty
    by (simp add: rest_world_def rest_in_grp_def)
  with a show ?thesis by blast
qed

text \<open>
  The id of a group is asked for once: when it is in the map, the lookup makes no exchange.
\<close>

lemma group_id_cached:
  assumes "groupIDs (w_client w) g = Some i"
  shows "run E (groupID cfg g) w = (Inr i, w\<lparr>w_held := w_held w - {Client_mu}\<rparr>)"
  using assms by (auto simp: groupID_def)

lemma group_id_cached_example:
  "run rest_env (groupID ref_config ''g'')
     ((rest_world [] [] noon)\<lparr>w_client := new_client_mem\<lparr>groupIDs := [''g'' \<mapsto> ''g9'']\<rparr>\<rparr>) =
   (Inr ''g9'', (rest_world [] [] noon)\<lparr>w_client := new_client_mem\<lparr>groupIDs := [''g'' \<mapsto> ''g9'']\<rparr>\<rparr>)"
  by (subst group_id_cached) (simp_all add: rest_world_def)

end
