(* ===== verification/LoginSpec.thy ===== *)
theory LoginSpec
  imports RestReference
begin

text \<open>
  The properties of logins and sessions: who the actor of a request is, what a session cookie
  is worth, and that a pending login is used once.
\<close>

section \<open>Cookies\<close>

text \<open>The value of a cookie made of a payload and a signature.\<close>

definition cookie_value :: "string \<Rightarrow> string \<Rightarrow> string" where
  "cookie_value payload sig = EncodeToString (EncodeToString payload @ ''.'' @ EncodeToString sig)"

lemma session_value_cookie: "session_value cfg s = cookie_value (session_json s) (hmac_sha256 (SessionSecret cfg) (session_json s))"
  by (simp add: session_value_def cookie_value_def Let_def)

lemma open_cookie_value:
  "open_session cfg (cookie_value payload sig) =
     (if hmac_sha256 (SessionSecret cfg) payload \<noteq> sig then Inl (Msg ''bad session signature'')
      else (case parse_all payload of
          Inl e \<Rightarrow> Inl (Msg ''bad session'')
        | Inr j \<Rightarrow> (case session_fields j of None \<Rightarrow> Inl (Msg ''bad session'') | Some sess \<Rightarrow> Inr sess)))"
proof -
  have "split_dot (EncodeToString payload @ ''.'' @ EncodeToString sig) = Some (EncodeToString payload, EncodeToString sig)"
    by (rule split_dot_b64) (rule encode64_alphabet)
  moreover have "cookie_value payload sig \<noteq> []" by (simp add: cookie_value_def)
  ultimately show ?thesis by (simp add: open_session_def cookie_value_def decode_encode64)
qed

lemma run_Actor:
  assumes "run E (Actor m cfg rq) w = (a, w')"
  shows "a = (case m of None \<Rightarrow> (if AllowHeaderAuth cfg then TrimSpace (lookup ''X-Actor-Username'' (rq_header rq)) else [])
    | Some mcfg \<Rightarrow>
        (if OIDCEnabled cfg then
           (case fst (run E (FromRequest mcfg rq) w) of
              Inl e \<Rightarrow> (if AllowHeaderAuth cfg then TrimSpace (lookup ''X-Actor-Username'' (rq_header rq)) else [])
            | Inr sess \<Rightarrow>
                (if se_Username sess \<noteq> [] then se_Username sess
                 else (if AllowHeaderAuth cfg then TrimSpace (lookup ''X-Actor-Username'' (rq_header rq)) else [])))
         else (if AllowHeaderAuth cfg then TrimSpace (lookup ''X-Actor-Username'' (rq_header rq)) else [])))"
  using assms by (auto simp: Actor_def Let_def run_simps split: option.splits prod.splits sum.splits if_splits)

text \<open>What makes a session valid, said without the code: the value of the cookie is two parts in
  base64, joined by a dot and encoded again; the second is the HMAC of the first under the secret,
  and the first says who the session is of and when it ends, which is not yet past.\<close>

definition valid_session :: "string \<Rightarrow> time \<Rightarrow> string \<Rightarrow> Session \<Rightarrow> bool" where
  "valid_session secret now value s \<longleftrightarrow> value \<noteq> [] \<and> Unix now \<le> se_Expiry s \<and>
     (\<exists>raw p g payload j. DecodeString value = Some raw \<and> split_dot raw = Some (p, g) \<and>
        DecodeString p = Some payload \<and> DecodeString g = Some (hmac_sha256 secret payload) \<and>
        parse_all payload = Inr j \<and> session_fields j = Some s)"

lemma valid_session_iff:
  "valid_session (SessionSecret cfg) now v s \<longleftrightarrow> open_session cfg v = Inr s \<and> Unix now \<le> se_Expiry s"
  by (auto simp: valid_session_def open_session_def split: option.splits sum.splits prod.splits if_splits)

lemma from_request_iff:
  "fst (run E (FromRequest cfg rq) w) = Inr s \<longleftrightarrow>
   open_session cfg (lookup cookieName (rq_cookies rq)) = Inr s \<and> Unix (fst (e_now E (w_other w))) \<le> se_Expiry s"
  by (auto simp: run_FromRequest split: sum.splits prod.splits if_splits)

section \<open>Pending logins\<close>

lemma manager_exchange: "fst (run E (exchange_code cfg code v) w) = r \<Longrightarrow>
   w_manager (snd (run E (exchange_code cfg code v) w)) = w_manager w"
  by (rule exchange_manager) (simp add: prod_eq_iff)

lemma run_HandleCallback:
  assumes "lookup ''error'' (rq_query rq) = []" "lookup ''state'' (rq_query rq) = st" "st \<noteq> []"
    "lookup ''code'' (rq_query rq) = c" "c \<noteq> []"
  shows "run E (HandleCallback cfg rq) w =
    (case run E (take_state st) w of
       (Inl e, w1) \<Rightarrow> (Inl e, w1)
     | (Inr v, w1) \<Rightarrow>
         (case run E (exchange_code cfg c v) w1 of (x, w2) \<Rightarrow> (map_sum id (setCookie cfg) x, w2)))"
  using assms by (auto simp: HandleCallback_def Let_def run_simps split: prod.split sum.split)

lemma callback_ok:
  assumes "run E (HandleCallback cfg rq) w = (Inr ck, w')"
  shows "\<exists>st c. lookup ''state'' (rq_query rq) = st \<and> st \<noteq> [] \<and> lookup ''code'' (rq_query rq) = c \<and> c \<noteq> [] \<and>
    lookup ''error'' (rq_query rq) = []"
  using assms by (auto simp: HandleCallback_def Let_def split: if_splits)

lemma take_state_ok:
  assumes "run E (take_state st) w = (Inr v, w1)"
  shows "\<exists>p. w_manager w st = Some p \<and> v = codeVerifier p \<and> fst (e_now E (w_other w)) \<le> pa_expiry p \<and>
    w_manager w1 = (w_manager w)(st := None) \<and> w_kc w1 = w_kc w"
  using assms by (cases "w_manager w st") (auto simp: run_take_state Let_def split: prod.splits if_splits)

lemma take_state_none:
  "w_manager w st = None \<Longrightarrow> run E (take_state st) w = (x, w1) \<Longrightarrow>
   x = Inl (Msg ''invalid or expired state'') \<and> w_kc w1 = w_kc w \<and> w_manager w1 = (w_manager w)(st := None)"
  by (auto simp: run_take_state Let_def)

text \<open>The start of a login: the state is stored with a verifier, and the address carries its
  challenge.\<close>

lemma run_LoginURL:
  assumes "run E (LoginURL cfg) w = (Inr url, w')"
  shows "\<exists>st v t. url = login_url cfg st (pkceChallengeS256 v) \<and>
    w_manager w' = (w_manager w)(st \<mapsto> \<lparr>pa_expiry = t + 10 * Minute, codeVerifier = v\<rparr>)"
proof -
  obtain x1 w1 where 1: "run E (randomToken 16) w = (x1, w1)" by (rule prod.exhaust)
  obtain x2 w2 where 2: "run E (randomToken 32) w1 = (x2, w2)" by (rule prod.exhaust)
  note r = assms [unfolded LoginURL_def run_bnd 1 prod.case]
  obtain st where st: "x1 = Inr st" using r by (cases x1) auto
  note r = r [unfolded st sum.case run_bnd 2 prod.case]
  obtain v where v: "x2 = Inr v" using r by (cases x2) auto
  obtain t o1 where now: "e_now E (w_other w2) = (t, o1)" by (rule prod.exhaust)
  have "w_manager w2 = w_manager w"
    using 1 2 by (auto simp: randomToken_def run_simps split: prod.splits)
  with r v now show ?thesis by (intro exI [of _ st] exI [of _ v] exI [of _ t]) auto
qed

text \<open>The examples: a session of alice, a request with its cookie, a world with one pending login.\<close>

definition ref_session :: Session where
  "ref_session = \<lparr>se_Username = ''alice'', se_Groups = Some [''admin-permanent''], se_Expiry = 4000000000\<rparr>"

definition cookie_request :: "string \<Rightarrow> web_request" where
  "cookie_request v =
     \<lparr>rq_method = ''GET'', rq_path = [], rq_query = [], rq_cookies = [(cookieName, v)], rq_header = [], rq_body = []\<rparr>"

text \<open>A service that knows sessions and headers both, as it does by default; a request that carries
  the session of alice and names somebody else in its header; and one with that header only.\<close>

definition sso_config :: config where
  "sso_config = ref_config\<lparr>OIDCEnabled := True, AllowHeaderAuth := True\<rparr>"

definition alice_as :: "string \<Rightarrow> web_request" where
  "alice_as u =
     \<lparr>rq_method = ''GET'', rq_path = [], rq_query = [], rq_cookies = [(cookieName, ck_value (setCookie sso_config ref_session))],
      rq_header = [(''X-Actor-Username'', u)], rq_body = []\<rparr>"

definition header_only :: "string \<Rightarrow> web_request" where
  "header_only u = (alice_as u)\<lparr>rq_cookies := []\<rparr>"

definition callback_request :: "string \<Rightarrow> web_request" where
  "callback_request st =
     \<lparr>rq_method = ''GET'', rq_path = [''auth'', ''callback''], rq_query = [(''state'', st), (''code'', ''c0de'')],
      rq_cookies = [], rq_header = [], rq_body = []\<rparr>"

definition login_world :: "(engine, rest_state, outside) world" where
  "login_world = (rest_world [] [] noon)\<lparr>w_manager := [''st1'' \<mapsto> \<lparr>pa_expiry = noon + Minute, codeVerifier = ''ver''\<rparr>]\<rparr>"

lemma ref_session_ok: "utf8_session ref_session"
  by (simp add: utf8_session_def ref_session_def utf8_ascii)

lemma cookie_lookup: "lookup cookieName (rq_cookies (cookie_request v)) = v"
  by (simp add: lookup_def cookie_request_def)

lemma noon_before: "\<not> Unix (fst (e_now rest_env (w_other login_world))) > se_Expiry ref_session"
  by (simp add: login_world_def rest_world_def rest_env_def ref_now_def Unix_def noon_def Second_def ref_session_def)

section \<open>Properties\<close>

text \<open>
  C27: the cookie of a session opens, on a manager with the same secret, to exactly that
  session until its expiry and to an error after it, whatever the texts in it are, as long as
  they are UTF-8.
\<close>

theorem session_round_trip:
  assumes "utf8_session s" "lookup cookieName (rq_cookies rq) = ck_value (setCookie cfg s)"
  shows "fst (run E (FromRequest cfg rq) w) =
    (if Unix (fst (e_now E (w_other w))) > se_Expiry s then Inl (Msg ''session expired'') else Inr s)"
  using assms by (simp add: run_FromRequest setCookie_def open_session_value split: prod.split)

theorem session_round_trip_witness:
  "fst (run rest_env (FromRequest ref_config (cookie_request (ck_value (setCookie ref_config ref_session)))) login_world) =
   Inr ref_session"
  using session_round_trip [OF ref_session_ok cookie_lookup, of rest_env ref_config login_world] noon_before by simp

text \<open>
  C26: a cookie is opened only when its signature is the HMAC of its payload under the secret;
  any other signature under any payload is refused, and what is opened is what the signed
  payload says.
\<close>

theorem forged_cookie_refused:
  assumes "open_session cfg (cookie_value payload sig) = Inr s"
  shows "sig = hmac_sha256 (SessionSecret cfg) payload \<and>
    (\<exists>j. parse_all payload = Inr j \<and> session_fields j = Some s)"
  using assms by (auto simp: open_cookie_value split: if_splits sum.splits option.splits)

theorem forged_cookie_refused_witness:
  "\<exists>j. parse_all (session_json ref_session) = Inr j \<and> session_fields j = Some ref_session"
proof -
  have "open_session ref_config (cookie_value (session_json ref_session)
      (hmac_sha256 (SessionSecret ref_config) (session_json ref_session))) = Inr ref_session"
    using open_session_value [OF ref_session_ok] by (simp add: session_value_cookie)
  from forged_cookie_refused [OF this] show ?thesis by blast
qed

text \<open>
  C25: the actor of a request, completely.  With OIDC a session that is valid now -- its cookie
  carries the HMAC of its payload under the secret and it is not past its expiry -- and that
  names a user decides, whatever the header says and whether or not header authentication is
  allowed.  In every other case -- no OIDC, no cookie, a bad signature, a session that is expired
  or names nobody -- the actor is the trimmed header where header authentication is allowed,
  and nobody where it is not.
\<close>

theorem actor_is_authenticated:
  assumes "run E (Actor m cfg rq) w = (a, w')" "now = fst (e_now E (w_other w))"
  shows "(\<forall>mcfg s. m = Some mcfg \<longrightarrow> OIDCEnabled cfg \<longrightarrow>
      valid_session (SessionSecret mcfg) now (lookup cookieName (rq_cookies rq)) s \<longrightarrow> se_Username s \<noteq> [] \<longrightarrow>
      a = se_Username s) \<and>
    ((\<nexists>mcfg s. m = Some mcfg \<and> OIDCEnabled cfg \<and>
      valid_session (SessionSecret mcfg) now (lookup cookieName (rq_cookies rq)) s \<and> se_Username s \<noteq> []) \<longrightarrow>
      a = (if AllowHeaderAuth cfg then TrimSpace (lookup ''X-Actor-Username'' (rq_header rq)) else []))"
  using run_Actor [OF assms(1)] unfolding valid_session_iff assms(2) from_request_iff [symmetric]
  by (auto split: option.splits if_splits sum.splits)

theorem actor_is_authenticated_witness:
  "fst (run rest_env (Actor (Some sso_config) sso_config (alice_as ''mallory'')) login_world) = ''alice'' \<and>
   fst (run rest_env (Actor (Some sso_config) sso_config (header_only ''mallory'')) login_world) = ''mallory''"
proof -
  let ?now = "fst (e_now rest_env (w_other login_world))"
  let ?v = "ck_value (setCookie sso_config ref_session)"
  obtain a w' where a: "run rest_env (Actor (Some sso_config) sso_config (alice_as ''mallory'')) login_world = (a, w')"
    by (rule prod.exhaust)
  obtain b w'' where b: "run rest_env (Actor (Some sso_config) sso_config (header_only ''mallory'')) login_world = (b, w'')"
    by (rule prod.exhaust)
  have v: "valid_session (SessionSecret sso_config) ?now ?v ref_session"
    using open_session_value [OF ref_session_ok, of sso_config] noon_before
    by (simp add: valid_session_iff setCookie_def)
  have "OIDCEnabled sso_config" "se_Username ref_session = ''alice''" "AllowHeaderAuth sso_config"
    by (simp_all add: sso_config_def ref_session_def)
  with actor_is_authenticated [OF a refl] v have "a = ''alice''" by (force simp: alice_as_def lookup_def)
  moreover have "\<not> valid_session k t [] s" for k t s by (simp add: valid_session_def)
  with actor_is_authenticated [OF b refl] \<open>AllowHeaderAuth sso_config\<close>
  have "b = TrimSpace ''mallory''" by (simp add: header_only_def alice_as_def lookup_def)
  moreover have "TrimSpace ''mallory'' = ''mallory''" by code_simp
  ultimately show ?thesis using a b by simp
qed

text \<open>
  C28: a login succeeds only with a state that is pending and not older than its time; the code
  is then exchanged with the verifier that was stored for that state, and the state is gone.
  A second callback with it is refused without an exchange with the server.
\<close>

theorem state_used_once:
  assumes "run E (HandleCallback cfg rq) w = (Inr ck, w1)"
    and "lookup ''state'' (rq_query rq') = lookup ''state'' (rq_query rq)"
    and "run E (HandleCallback cfg rq') w1 = (x, w2)"
  shows "\<exists>p. w_manager w (lookup ''state'' (rq_query rq)) = Some p \<and> fst (e_now E (w_other w)) \<le> pa_expiry p \<and>
    (\<exists>s w0. run E (exchange_code cfg (lookup ''code'' (rq_query rq)) (codeVerifier p)) w0 = (Inr s, w1) \<and>
       w_kc w0 = w_kc w \<and> ck = setCookie cfg s) \<and>
    w_manager w1 = (w_manager w)(lookup ''state'' (rq_query rq) := None) \<and> \<not> ok x \<and> w_kc w2 = w_kc w1"
proof -
  obtain st c where q: "lookup ''state'' (rq_query rq) = st" "st \<noteq> []" "lookup ''code'' (rq_query rq) = c" "c \<noteq> []"
    "lookup ''error'' (rq_query rq) = []" using callback_ok [OF assms(1)] by blast
  obtain y w0 where t: "run E (take_state st) w = (y, w0)" by (rule prod.exhaust)
  note r = assms(1) [unfolded run_HandleCallback [OF q(5,1,2,3,4)] t]
  obtain v where v: "y = Inr v" using r by (cases y) auto
  obtain z w3 where e: "run E (exchange_code cfg c v) w0 = (z, w3)" by (rule prod.exhaust)
  obtain s where s: "z = Inr s" "ck = setCookie cfg s" "w3 = w1" using r v e by (cases z) auto
  obtain p where p: "w_manager w st = Some p" "v = codeVerifier p" "fst (e_now E (w_other w)) \<le> pa_expiry p"
    "w_manager w0 = (w_manager w)(st := None)" "w_kc w0 = w_kc w"
    using take_state_ok [OF t [unfolded v]] by blast
  have m: "w_manager w1 = (w_manager w)(st := None)" using exchange_manager [OF e] p(4) s(3) by simp
  have "\<not> ok x \<and> w_kc w2 = w_kc w1"
  proof (cases "lookup ''error'' (rq_query rq') = [] \<and> lookup ''code'' (rq_query rq') \<noteq> []")
    case False
    then show ?thesis using assms(3) q(1,2) assms(2) by (auto simp: HandleCallback_def Let_def split: if_splits)
  next
    case True
    obtain x' w' where t': "run E (take_state st) w1 = (x', w')" by (rule prod.exhaust)
    have "x' = Inl (Msg ''invalid or expired state'') \<and> w_kc w' = w_kc w1"
      using take_state_none [OF _ t'] m by simp
    with assms(2,3) q(1,2) True t' show ?thesis by (auto simp: run_HandleCallback)
  qed
  with p q(1,3) e s m show ?thesis by blast
qed

theorem state_used_once_witness:
  "\<exists>ck w1. run rest_env (HandleCallback ref_config (callback_request ''st1'')) login_world = (Inr ck, w1) \<and>
     \<not> ok (fst (run rest_env (HandleCallback ref_config (callback_request ''st1'')) w1))"
proof -
  have url: "slashless ref_config @ ''/realms/'' @ Realm ref_config @ ''/protocol/openid-connect/userinfo'' =
    slashless ref_config @ userinfo_path" by (simp add: userinfo_path_def)
  have ex: "\<exists>s w'. run rest_env (exchange_code ref_config c v) w = (Inr s, w')" for c v w
    unfolding exchange_code_def userInfo_def url
    by (simp add: run_simps rest_env_def rest_form exchange_answer rest_bearer_get rest_get_userinfo userinfo_answer
        split: prod.split)
  have q: "lookup ''error'' (rq_query (callback_request ''st1'')) = []"
    "lookup ''state'' (rq_query (callback_request ''st1'')) = ''st1''" "''st1'' \<noteq> []"
    "lookup ''code'' (rq_query (callback_request ''st1'')) = ''c0de''" "''c0de'' \<noteq> []"
    by (simp_all add: lookup_def callback_request_def)
  obtain x w0 where t: "run rest_env (take_state ''st1'') login_world = (x, w0)" by (rule prod.exhaust)
  have x: "x = Inr ''ver''"
    using t by (auto simp: run_take_state Let_def login_world_def rest_world_def rest_env_def ref_now_def duration_defs)
  obtain s w1 where "run rest_env (exchange_code ref_config ''c0de'' ''ver'') w0 = (Inr s, w1)" using ex by blast
  with t x have cb: "run rest_env (HandleCallback ref_config (callback_request ''st1'')) login_world =
      (Inr (setCookie ref_config s), w1)" by (simp add: run_HandleCallback [OF q])
  obtain y w2 where second: "run rest_env (HandleCallback ref_config (callback_request ''st1'')) w1 = (y, w2)"
    by (rule prod.exhaust)
  from state_used_once [OF cb refl second] cb second show ?thesis by auto
qed

text \<open>
  The two halves of a login belong together: the address a login starts with carries the
  SHA-256 challenge of the verifier that the callback with its state sends to the server, and
  the state of that address is the only one added to the pending logins, for ten minutes.
\<close>

lemma login_binds_verifier:
  assumes "run E (LoginURL cfg) w = (Inr url, w1)"
  shows "\<exists>st v t. url = login_url cfg st (EncodeToString (Sum256 v)) \<and>
    w_manager w1 = (w_manager w)(st \<mapsto> \<lparr>pa_expiry = t + 10 * Minute, codeVerifier = v\<rparr>) \<and>
    (\<forall>w2 x w3. w_manager w2 st = w_manager w1 st \<longrightarrow> run E (take_state st) w2 = (x, w3) \<longrightarrow>
       (if fst (e_now E (w_other w2)) > t + 10 * Minute then \<not> ok x else x = Inr v))"
proof -
  obtain st v t where l: "url = login_url cfg st (pkceChallengeS256 v)"
    "w_manager w1 = (w_manager w)(st \<mapsto> \<lparr>pa_expiry = t + 10 * Minute, codeVerifier = v\<rparr>)"
    using run_LoginURL [OF assms] by blast
  have "if fst (e_now E (w_other w2)) > t + 10 * Minute then \<not> ok x else x = Inr v"
    if "w_manager w2 st = w_manager w1 st" "run E (take_state st) w2 = (x, w3)" for w2 x w3
    using that l(2) by (auto simp: run_take_state Let_def split: prod.splits if_splits)
  with l show ?thesis unfolding pkceChallengeS256_def by blast
qed

lemma login_binds_verifier_witness:
  "\<exists>url w1 st. run rest_env (LoginURL ref_config) login_world = (Inr url, w1) \<and> w_manager w1 st \<noteq> None"
proof -
  have "\<exists>url w1. run rest_env (LoginURL ref_config) login_world = (Inr url, w1)"
    by (simp add: LoginURL_def randomToken_def run_simps rest_env_def ref_rand_def ref_now_def)
  then obtain url w1 where r: "run rest_env (LoginURL ref_config) login_world = (Inr url, w1)" by blast
  from login_binds_verifier [OF this] obtain st v t where
    "w_manager w1 = (w_manager login_world)(st \<mapsto> \<lparr>pa_expiry = t + 10 * Minute, codeVerifier = v\<rparr>)" by blast
  then have "w_manager w1 st \<noteq> None" by simp
  with r show ?thesis by blast
qed

end
