(* ===== verification/Upkeep.thy ===== *)
theory Upkeep
  imports System
begin

text \<open>
  The service with its surroundings up: a database on which every statement the tables allow
  succeeds, and a membership server that is up for some users and groups.  What the handlers and
  the sweep then achieve, and the audit events they leave.
\<close>

section \<open>The database stays up\<close>

context service_db_up
begin

lemma run_healthy: "run E p w = (a, w') \<Longrightarrow> healthy (w_db w) \<Longrightarrow> healthy (w_db w')"
proof (induction p arbitrary: w)
  case (Exec st k)
  then obtain r d where e: "e_exec E st (w_db w) = (r, d)" "run E (k r) (w\<lparr>w_db := d\<rparr>) = (a, w')"
    by (auto split: prod.splits)
  show ?case
    by (rule Exec.IH [OF rangeI e(2)]) (use exec_healthy [OF Exec.prems(2) e(1)] in simp)
next
  case (Query q k)
  then obtain r d where e: "e_query E q (w_db w) = (r, d)" "run E (k r) (w\<lparr>w_db := d\<rparr>) = (a, w')"
    by (auto split: prod.splits)
  show ?case
    by (rule Query.IH [OF rangeI e(2)]) (use query_healthy [OF Query.prems(2) e(1)] in simp)
next
  case (QueryAudit q k)
  then obtain r d where e: "e_audit E q (w_db w) = (r, d)" "run E (k r) (w\<lparr>w_db := d\<rparr>) = (a, w')"
    by (auto split: prod.splits)
  show ?case
    by (rule QueryAudit.IH [OF rangeI e(2)]) (use audit_healthy [OF QueryAudit.prems(2) e(1)] in simp)
next
  case (Now k)
  then obtain r x where e: "e_now E (w_other w) = (r, x)" "run E (k r) (w\<lparr>w_other := x\<rparr>) = (a, w')"
    by (auto split: prod.splits)
  show ?case by (rule Now.IH [OF rangeI e(2)]) (use Now.prems(2) in simp)
next
  case (Rand n k)
  then obtain r x where e: "e_rand E n (w_other w) = (r, x)" "run E (k r) (w\<lparr>w_other := x\<rparr>) = (a, w')"
    by (auto split: prod.splits)
  show ?case by (rule Rand.IH [OF rangeI e(2)]) (use Rand.prems(2) in simp)
next
  case (Keycloak q k)
  then obtain r x where e: "e_keycloak E q (w_kc w) = (r, x)" "run E (k r) (w\<lparr>w_kc := x\<rparr>) = (a, w')"
    by (auto split: prod.splits)
  show ?case by (rule Keycloak.IH [OF rangeI e(2)]) (use Keycloak.prems(2) in simp)
next
  case (Webhook q k)
  then obtain r x where e: "e_webhook E q (w_other w) = (r, x)" "run E (k r) (w\<lparr>w_other := x\<rparr>) = (a, w')"
    by (auto split: prod.splits)
  show ?case by (rule Webhook.IH [OF rangeI e(2)]) (use Webhook.prems(2) in simp)
qed auto

end

locale service_up =
  service_world E tabs s who holds ready fair + service_db_up E tabs healthy +
  groups_up E "sv_kc s" who holds ready fair reach
  for E :: "('d, 'k, 'o) env" and tabs :: "'d \<Rightarrow> tables" and s :: service
    and who :: "string \<Rightarrow> string" and holds :: "'k \<Rightarrow> (string \<times> string) set"
    and ready :: "client_mem \<Rightarrow> bool" and fair :: "'o \<Rightarrow> bool"
    and healthy :: "'d \<Rightarrow> bool" and reach :: "'k \<Rightarrow> string \<Rightarrow> string \<Rightarrow> bool"
begin

definition fit :: "('d, 'k, 'o) world \<Rightarrow> bool" where
  "fit w \<longleftrightarrow> fine w \<and> healthy (w_db w)"

lemma fitD: "fit w \<Longrightarrow> fine w" "fit w \<Longrightarrow> healthy (w_db w)"
  by (simp_all add: fit_def)

section \<open>Programs that only say so elsewhere\<close>

text \<open>Books are kept, no event is appended, and the membership server stays up where it was.\<close>

definition mute :: "'a prog \<Rightarrow> bool" where
  "mute p \<longleftrightarrow> (\<forall>w a w'. fine w \<longrightarrow> run E p w = (a, w') \<longrightarrow>
     book w w' \<and> log_events w' = log_events w \<and> reach (w_kc w') = reach (w_kc w))"

lemma muteD:
  "mute p \<Longrightarrow> fine w \<Longrightarrow> run E p w = (a, w') \<Longrightarrow>
   book w w' \<and> log_events w' = log_events w \<and> reach (w_kc w') = reach (w_kc w)"
  by (simp add: mute_def)

lemma mute_Ret [simp]: "mute (Ret a)"
  by (simp add: mute_def book_refl)

lemma mute_bnd:
  assumes "mute p" "\<And>a. mute (f a)"
  shows "mute (bnd p f)"
  unfolding mute_def
proof (intro allI impI)
  fix w a w'
  assume w: "fine w" and r: "run E (bnd p f) w = (a, w')"
  obtain b w1 where p: "run E p w = (b, w1)" by (rule prod.exhaust)
  note m = muteD [OF assms(1) w p]
  have "run E (f b) w1 = (a, w')" using r p by (simp add: run_simps)
  with m muteD [OF assms(2) _ this] bookD show
    "book w w' \<and> log_events w' = log_events w \<and> reach (w_kc w') = reach (w_kc w)"
    by (metis book_trans)
qed

lemma quiet_mute:
  assumes "quiet p" "\<And>w a w'. fine w \<Longrightarrow> run E p w = (a, w') \<Longrightarrow> reach (w_kc w') = reach (w_kc w)"
  shows "mute p"
  unfolding mute_def
proof (intro allI impI)
  fix w a w'
  assume w: "fine w" and r: "run E p w = (a, w')"
  from quietD [OF assms(1) w r] assms(2) [OF w r] show
    "book w w' \<and> log_events w' = log_events w \<and> reach (w_kc w') = reach (w_kc w)"
    by (simp add: still_book) (simp add: still_def)
qed

lemma mute_log: "mute (log_line l)"
  by (rule quiet_mute [OF quiet_log]) (auto simp: run_simps)

lemma mute_now: "mute time_now"
  by (rule quiet_mute [OF quiet_now]) (auto simp: run_simps split: prod.splits)

lemma mute_post: "mute (post n t)"
  by (rule quiet_mute [OF quiet_post]) (auto simp: post_def split: prod.splits)

lemma mute_in_group: "mute (in_group_or_not s u g)"
  unfolding in_group_or_not_def
proof (rule mute_bnd)
  show "mute (kc_InGroup (sv_kc s) u g)"
    by (rule quiet_mute [OF quiet_InGroup]) (auto simp: fine_def dest: in_up)
qed simp

lemma mute_mark: "mute (TryMarkNotified i k)"
  unfolding mute_def
proof (intro allI impI)
  fix w a w'
  assume w: "fine w" and r: "run E (TryMarkNotified i k) w = (a, w')"
  from r obtain now o1 d y row where x: "e_exec E (InsertNotification row) (w_db w) = (y, d)"
    "w' = w\<lparr>w_db := d, w_other := o1\<rparr>" by (rule run_TryMarkNotified) blast
  have "audit_part (tabs d) = audit_part (tabs (w_db w))"
    by (rule exec_keeps [OF x(1)]) (simp only: exec_parts(4))
  from audit_part_cong [OF this] x(2) keeps_booksD [OF keeps_TryMarkNotified w r] show
    "book w w' \<and> log_events w' = log_events w \<and> reach (w_kc w') = reach (w_kc w)" by simp
qed

lemma mute_messages:
  "mute (PendingApprovers n r)" "mute (Approved n r)" "mute (RequestExpired n r)" "mute (Released n r x)"
proof -
  have "mute (NotifyOnce n i k t)" for i k t
    by (auto simp: NotifyOnce_def intro!: mute_bnd mute_mark mute_log mute_post split: sum.split)
  then show "mute (PendingApprovers n r)" "mute (Approved n r)" "mute (RequestExpired n r)" "mute (Released n r x)"
    by (simp_all add: message_defs)
qed

lemma mute_notifying: "(\<And>n. mute (f n)) \<Longrightarrow> mute (notifying s f)"
  by (auto simp: notifying_def intro!: mute_bnd split: option.split)

section \<open>Steps that succeed\<close>

lemma Update_up:
  assumes "fit w" "requests w (ID r) = Some q" "same_subject q r" "storable_req r" "run E (Update r) w = (x, w')"
  shows "x = Inr () \<and> fit w' \<and> stores w ((requests w)(ID r \<mapsto> r)) w' \<and> reach (w_kc w') = reach (w_kc w)"
proof -
  have ok: "store_ok (tabs (w_db w))" using assms(1) by (simp add: fit_def fine_def)
  from update_up [OF fitD(2) [OF assms(1)] ok assms(4,5)] assms(2) have x: "x = Inr ()" by auto
  with Update_read [OF fitD(1) [OF assms(1)] assms(2-5)] have st: "stores w ((requests w)(ID r \<mapsto> r)) w'" by simp
  have "w_kc w' = w_kc w" using assms(5) by (rule run_Update) simp
  moreover have "fit w'" using st run_healthy [OF assms(5) fitD(2) [OF assms(1)]] by (simp add: fit_def stores_def)
  ultimately show ?thesis using x st by simp
qed

text \<open>The event a call of \<open>audit\<close> appends.\<close>

definition event_is ::
  "AuditEvent \<Rightarrow> string \<Rightarrow> string \<Rightarrow> string \<Rightarrow> string \<Rightarrow> string \<Rightarrow> string \<Rightarrow> bool \<Rightarrow> bool"
where
  "event_is e act a subj rid just det bg \<longleftrightarrow>
     EvAction e = act \<and> EvActor e = a \<and> EvSubject e = subj \<and> EvRequestID e = rid \<and>
     EvJustification e = just \<and> EvDetail e = det \<and> EvBreakGlass e = bg"

lemma audit_up_rule:
  assumes "fit w" "run E (audit s act a subj rid just det bg) w = (x, w')"
  shows "x = Inr () \<and> fit w' \<and> requests w' = requests w \<and> members w' = members w \<and> reach (w_kc w') = reach (w_kc w) \<and>
    mark_set w' = mark_set w \<and>
    (\<exists>e. log_events w' = log_events w @ [e] \<and> event_is e act a subj rid just det bg)"
proof -
  define e0 where "e0 = \<lparr>EvID = 0, EvAt = zero_time, EvAction = act, EvActor = a, EvSubject = subj,
         EvRequestID = rid, EvJustification = just, EvDetail = det, EvBreakGlass = bg\<rparr>"
  have st: "storable_event e0"
    by (simp add: e0_def storable_event_def storable_def zero_time_def days_before_year_def duration_defs)
  obtain y w1 where ap: "run E (AppendAudit e0) w = (y, w1)" by (rule prod.exhaust)
  have fine: "fine w" using assms(1) by (rule fitD)
  have ok: "audit_ok (tabs (w_db w))" "clock_storable E w" using fine clock_storable_fine by (simp_all add: fine_def)
  note bk = keeps_booksD [OF keeps_AppendAudit [OF st] fine ap]
  obtain e1 d z o1 where x: "e_exec E (InsertAudit (audit_row_of e1)) (w_db w) = (z, d)"
    "w1 = w\<lparr>w_db := d, w_other := o1\<rparr>" "y = (case z of Inl x \<Rightarrow> Inl x | Inr (n, i) \<Rightarrow> Inr (e1\<lparr>EvID := i\<rparr>))"
    using ap by (rule run_AppendAudit)
  let ?t = "tabs (w_db w)"
  have "exec_sem (InsertAudit (audit_row_of e1)) ?t (1, t_seq ?t + 1)
      (?t\<lparr>t_audit := t_audit ?t @ [(audit_row_of e1)\<lparr>a_id := t_seq ?t + 1\<rparr>], t_seq := t_seq ?t + 1\<rparr>)"
    using ok(1) by (simp add: audit_ok_def)
  from exec_succeeds [OF fitD(2) [OF assms(1)] this x(1)] obtain m where "z = Inr m" by blast
  then obtain e where y: "y = Inr e" using x(3) by (cases m) auto
  from append_ok [OF ok st ap [unfolded y]] have e: "log_events w1 = log_events w @ [e]"
    "e = e0\<lparr>EvID := EvID e, EvAt := EvAt e\<rparr>" by blast+
  have marks: "mark_set w1 = mark_set w"
  proof -
    have "notif_part (tabs d) = notif_part ?t" by (rule exec_keeps [OF x(1)]) (simp only: exec_parts(3))
    from notif_part_cong [OF this] x(2) show ?thesis by simp
  qed
  have w': "x = Inr ()" "w_db w' = w_db w1" "w_kc w' = w_kc w1" "w_other w' = w_other w1" "w_client w' = w_client w1"
    using assms(2) ap y unfolding audit_def e0_def [symmetric] by (auto simp: run_simps split: if_splits)
  have "fit w'" using bk w' run_healthy [OF ap fitD(2) [OF assms(1)]] by (simp add: fit_def book_def fine_def)
  moreover have "event_is e act a subj rid just det bg" by (subst e(2)) (simp add: event_is_def e0_def)
  moreover have "w_kc w1 = w_kc w" using x(2) by simp
  ultimately show ?thesis using w' e(1) marks bk by (auto simp: book_def)
qed

lemma mute_fit:
  assumes "mute p" "fit w" "run E p w = (a, w')"
  shows "fit w' \<and> requests w' = requests w \<and> members w' = members w \<and> log_events w' = log_events w \<and>
    reach (w_kc w') = reach (w_kc w)"
  using muteD [OF assms(1) fitD(1) [OF assms(2)] assms(3)] run_healthy [OF assms(3) fitD(2) [OF assms(2)]]
  by (auto simp: fit_def book_def)

section \<open>What the handlers achieve\<close>

abbreviation active :: string where
  "active \<equiv> GroupActive (sv_cfg s)"

abbreviation slot :: "request \<Rightarrow> string \<times> string" where
  "slot r \<equiv> (who (Username r), active)"

lemma Remove_up:
  assumes "fit w" "reach (w_kc w) u g" "run E (kc_RemoveFromGroup (sv_kc s) u g) w = (x, w')"
  shows "x = Inr () \<and> fit w' \<and> moves w (members w - {(who u, g)}) w' \<and> reach (w_kc w') = reach (w_kc w)"
proof -
  have ready: "ready (w_client w)" using assms(1) by (simp add: fit_def fine_def)
  from remove_up [OF ready assms(3)] assms(2) have x: "x = Inr ()" and r: "reach (w_kc w') = reach (w_kc w)"
    by (cases x; simp)+
  with RemoveFromGroup_rule [OF fitD(1) [OF assms(1)] assms(3)] have m: "moves w (members w - {(who u, g)}) w'" by simp
  then have "fit w'" using run_healthy [OF assms(3) fitD(2) [OF assms(1)]] by (simp add: fit_def moves_def)
  with x m r show ?thesis by simp
qed

lemma Add_up:
  assumes "fit w" "reach (w_kc w) u g" "run E (kc_AddToGroup (sv_kc s) u g) w = (x, w')"
  shows "x = Inr () \<and> fit w' \<and> moves w (insert (who u, g) (members w)) w' \<and> reach (w_kc w') = reach (w_kc w)"
proof -
  have ready: "ready (w_client w)" using assms(1) by (simp add: fit_def fine_def)
  from add_up [OF ready assms(3)] assms(2) have x: "x = Inr ()" and r: "reach (w_kc w') = reach (w_kc w)"
    by (cases x; simp)+
  with AddToGroup_rule [OF fitD(1) [OF assms(1)] assms(3)] have m: "moves w (insert (who u, g) (members w)) w'" by simp
  then have "fit w'" using run_healthy [OF assms(3) fitD(2) [OF assms(1)]] by (simp add: fit_def moves_def)
  with x m r show ?thesis by simp
qed

lemma now_up:
  assumes "fit w" "run E time_now w = (t, w')"
  shows "sane t \<and> fit w' \<and> still w w' \<and> reach (w_kc w') = reach (w_kc w)"
proof -
  have "still w w'" by (rule quietD [OF quiet_now fitD(1) [OF assms(1)] assms(2)])
  moreover have "sane t" using assms now_still [OF fitD(1) [OF assms(1)]] by (auto simp: run_simps split: prod.splits)
  ultimately show ?thesis
    using mute_fit [OF mute_now assms] by simp
qed

lemma grant_up:
  assumes "fit w" "requests w (ID req) = Some req" "sane now" "reach (w_kc w) (Username req) active"
    and r: "run E (grant s req a nt now) w = (resp, w')"
  shows "fit w' \<and> resp = writeJSON StatusOK (request_json (approved_request (sv_cfg s) req a nt now)) \<and>
    requests w' = (requests w)(ID req \<mapsto> approved_request (sv_cfg s) req a nt now) \<and>
    members w' = insert (slot req) (members w) \<and> reach (w_kc w') = reach (w_kc w) \<and>
    (\<exists>e1 e2 bg. log_events w' = log_events w @ [e1, e2] \<and>
       event_is e1 ''request_approved'' a (Username req) (ID req) (Justification req) (''notes: '' @ nt) bg \<and>
       event_is e2 ''grant_active'' a (Username req) (ID req) (Justification req) (''user added to '' @ active) bg)"
proof -
  let ?q = "approved_request (sv_cfg s) req a nt now"
  obtain x w1 where 1: "run E (kc_AddToGroup (sv_kc s) (Username req) active) w = (x, w1)" by (rule prod.exhaust)
  note a1 = Add_up [OF assms(1,4) 1]
  have req1: "requests w1 (ID ?q) = Some req" using a1 assms(2) by (simp add: moves_def)
  have st: "storable_req ?q" using approved_storable stored_storable [OF fitD(1) [OF assms(1)] assms(2)] assms(3) by blast
  obtain y w2 where 2: "run E (Update ?q) w1 = (y, w2)" by (rule prod.exhaust)
  have "fit w1" using a1 by blast
  note a2 = Update_up [OF this req1 subject_simps(1) st 2]
  obtain bg w3 where 3: "run E (in_group_or_not s a (GroupBreakGlass (sv_cfg s))) w2 = (bg, w3)" by (rule prod.exhaust)
  have "fit w2" using a2 by blast
  note a3 = mute_fit [OF mute_in_group this 3]
  obtain z w4 where 4: "run E (audit s ''request_approved'' a (Username ?q) (ID ?q) (Justification ?q) (''notes: '' @ nt) bg) w3 = (z, w4)"
    by (rule prod.exhaust)
  have "fit w3" using a3 by blast
  note a4 = audit_up_rule [OF this 4]
  obtain v w5 where 5: "run E (audit s ''grant_active'' a (Username ?q) (ID ?q) (Justification ?q) (''user added to '' @ active) bg) w4 = (v, w5)"
    by (rule prod.exhaust)
  have "fit w4" using a4 by blast
  note a5 = audit_up_rule [OF this 5]
  obtain u w6 where 6: "run E (notifying s (\<lambda>n. Approved n ?q)) w5 = (u, w6)" by (rule prod.exhaust)
  have "fit w5" using a5 by blast
  note a6 = mute_fit [OF mute_notifying [OF mute_messages(2)] this 6]
  have res: "resp = writeJSON StatusOK (request_json ?q)" "w' = w6"
    using r a1 a2 1 2 3 4 5 6 unfolding grant_def Let_def by (simp_all add: run_simps)
  obtain e1 e2 where e: "log_events w4 = log_events w3 @ [e1]" "log_events w5 = log_events w4 @ [e2]"
    "event_is e1 ''request_approved'' a (Username ?q) (ID ?q) (Justification ?q) (''notes: '' @ nt) bg"
    "event_is e2 ''grant_active'' a (Username ?q) (ID ?q) (Justification ?q) (''user added to '' @ active) bg"
    using a4 a5 by blast
  have "log_events w6 = log_events w @ [e1, e2]" using a1 a2 a3 a6 e(1,2) by (simp add: moves_def stores_def)
  moreover have "requests w6 = (requests w)(ID req \<mapsto> ?q)" "members w6 = insert (slot req) (members w)"
    "reach (w_kc w6) = reach (w_kc w)"
    using a1 a2 a3 a4 a5 a6 by (simp_all add: moves_def stores_def)
  moreover have "Justification ?q = Justification req" by (simp add: approved_request_def)
  ultimately show ?thesis using res a6 e(3,4) by auto
qed

lemma expire_one_up:
  assumes "fit w" "requests w (ID req) = Some req" "run E (expire_one s req) w = (u, w')"
  shows "fit w' \<and> requests w' = (requests w)(ID req \<mapsto> req\<lparr>Status := StatusExpired\<rparr>) \<and> members w' = members w \<and>
    reach (w_kc w') = reach (w_kc w) \<and>
    (\<exists>e. log_events w' = log_events w @ [e] \<and>
       event_is e ''request_expired'' ''system'' (Username req) (ID req) (Justification req) ''request TTL elapsed'' False)"
proof -
  let ?q = "req\<lparr>Status := StatusExpired\<rparr>"
  obtain y w2 where 2: "run E (Update ?q) w = (y, w2)" by (rule prod.exhaust)
  have "storable_req ?q" using stored_storable [OF fitD(1) [OF assms(1)] assms(2)] by (simp add: storable_req_def)
  from Update_up [OF assms(1) _ subject_simps(3) this 2] assms(2)
  have a2: "y = Inr ()" "fit w2" "stores w ((requests w)(ID req \<mapsto> ?q)) w2" "reach (w_kc w2) = reach (w_kc w)" by simp_all
  obtain l w3 where 3: "run E (log_line (''expired pending request '' @ ID ?q @ '' user='' @ Username ?q)) w2 = (l, w3)"
    by (rule prod.exhaust)
  note a3 = mute_fit [OF mute_log a2(2) 3]
  obtain z w4 where 4: "run E (audit s ''request_expired'' ''system'' (Username ?q) (ID ?q) (Justification ?q) ''request TTL elapsed'' False) w3 = (z, w4)"
    by (rule prod.exhaust)
  have "fit w3" using a3 by blast
  note a4 = audit_up_rule [OF this 4]
  obtain v w5 where 5: "run E (notifying s (\<lambda>n. RequestExpired n ?q)) w4 = (v, w5)" by (rule prod.exhaust)
  have "fit w4" using a4 by blast
  note a5 = mute_fit [OF mute_notifying [OF mute_messages(3)] this 5]
  have w': "w' = w5"
    using assms(3) 2 3 4 5 a2(1) unfolding expire_one_def Let_def by (simp add: run_bnd)
  obtain e where e: "log_events w4 = log_events w3 @ [e]"
    "event_is e ''request_expired'' ''system'' (Username ?q) (ID ?q) (Justification ?q) ''request TTL elapsed'' False"
    using a4 by blast
  have f: "log_events w5 = log_events w @ [e]" "requests w5 = (requests w)(ID req \<mapsto> ?q)" "members w5 = members w"
    "reach (w_kc w5) = reach (w_kc w)"
    using a2 a3 a4 a5 e(1) by (simp_all add: stores_def)
  have "fit w5" using a5 by blast
  moreover have "event_is e ''request_expired'' ''system'' (Username req) (ID req) (Justification req) ''request TTL elapsed'' False"
    using e(2) by simp
  ultimately show ?thesis unfolding w' using f by blast
qed

lemma revoke_one_up:
  assumes "fit w" "requests w (ID req) = Some req" "reach (w_kc w) (Username req) active"
    "run E (revoke_one s req) w = (u, w')"
  shows "fit w' \<and> reach (w_kc w') = reach (w_kc w) \<and> members w' = members w - {slot req} \<and>
    (\<exists>now. requests w' = (requests w)(ID req \<mapsto> released_request req now)) \<and>
    (\<exists>e. log_events w' = log_events w @ [e] \<and>
       event_is e ''grant_expired'' ''system'' (Username req) (ID req) (Justification req) ''active TTL elapsed; revoked'' False)"
proof -
  obtain x w1 where 1: "run E (kc_RemoveFromGroup (sv_kc s) (Username req) active) w = (x, w1)" by (rule prod.exhaust)
  note a1 = Remove_up [OF assms(1,3) 1]
  obtain now w2 where 2: "run E time_now w1 = (now, w2)" by (rule prod.exhaust)
  have "fit w1" using a1 by blast
  note a2 = now_up [OF this 2]
  let ?q = "released_request req now"
  have st: "storable_req ?q" using released_storable stored_storable [OF fitD(1) [OF assms(1)] assms(2)] a2 by blast
  have req2: "requests w2 (ID ?q) = Some req" using a1 a2 assms(2) by (simp add: moves_def still_def)
  obtain y w3 where 3: "run E (Update ?q) w2 = (y, w3)" by (rule prod.exhaust)
  have "fit w2" using a2 by blast
  note a3 = Update_up [OF this req2 subject_simps(2) st 3]
  obtain l w4 where 4: "run E (log_line (''revoked active grant '' @ ID ?q @ '' user='' @ Username ?q)) w3 = (l, w4)"
    by (rule prod.exhaust)
  have "fit w3" using a3 by blast
  note a4 = mute_fit [OF mute_log this 4]
  obtain z w5 where 5: "run E (audit s ''grant_expired'' ''system'' (Username ?q) (ID ?q) (Justification ?q) ''active TTL elapsed; revoked'' False) w4 = (z, w5)"
    by (rule prod.exhaust)
  have "fit w4" using a4 by blast
  note a5 = audit_up_rule [OF this 5]
  obtain v w6 where 6: "run E (notifying s (\<lambda>n. Released n ?q ''expire'')) w5 = (v, w6)" by (rule prod.exhaust)
  have "fit w5" using a5 by blast
  note a6 = mute_fit [OF mute_notifying [OF mute_messages(4)] this 6]
  have w': "w' = w6"
    using assms(4) 1 2 3 4 5 6 a1 a3 unfolding revoke_one_def Let_def by (simp add: run_bnd)
  obtain e where e: "log_events w5 = log_events w4 @ [e]"
    "event_is e ''grant_expired'' ''system'' (Username ?q) (ID ?q) (Justification ?q) ''active TTL elapsed; revoked'' False"
    using a5 by blast
  have "log_events w6 = log_events w @ [e]" "requests w6 = (requests w)(ID req \<mapsto> ?q)" "members w6 = members w - {slot req}"
    "reach (w_kc w6) = reach (w_kc w)"
    using a1 a2 a3 a4 a5 a6 e(1) by (simp_all add: moves_def still_def stores_def)
  moreover have "Justification ?q = Justification req" by (simp add: released_request_def)
  ultimately show ?thesis using e(2) a6 w' by auto
qed

lemma expire_late_up:
  assumes "fit w" "requests w (ID req) = Some req" "run E (expire_late s req) w = (resp, w')"
  shows "fit w' \<and> rs_code resp = StatusConflict \<and>
    requests w' = (requests w)(ID req \<mapsto> req\<lparr>Status := StatusExpired\<rparr>) \<and> members w' = members w \<and>
    (\<exists>e. log_events w' = log_events w @ [e] \<and>
       event_is e ''request_expired'' ''system'' (Username req) (ID req) (Justification req) ''expired before approve'' False)"
proof -
  let ?q = "req\<lparr>Status := StatusExpired\<rparr>"
  obtain y w2 where 2: "run E (Update ?q) w = (y, w2)" by (rule prod.exhaust)
  have "storable_req ?q" using stored_storable [OF fitD(1) [OF assms(1)] assms(2)] by (simp add: storable_req_def)
  from Update_up [OF assms(1) _ subject_simps(3) this 2] assms(2)
  have a2: "fit w2" "stores w ((requests w)(ID req \<mapsto> ?q)) w2" by simp_all
  obtain z w4 where 4: "run E (audit s ''request_expired'' ''system'' (Username ?q) (ID ?q) (Justification ?q) ''expired before approve'' False) w2 = (z, w4)"
    by (rule prod.exhaust)
  note a4 = audit_up_rule [OF a2(1) 4]
  obtain v w5 where 5: "run E (notifying s (\<lambda>n. RequestExpired n ?q)) w4 = (v, w5)" by (rule prod.exhaust)
  have "fit w4" using a4 by blast
  note a5 = mute_fit [OF mute_notifying [OF mute_messages(3)] this 5]
  have w': "w' = w5" "rs_code resp = StatusConflict"
    using assms(3) 2 4 5 unfolding expire_late_def Let_def by (auto simp: run_bnd)
  obtain e where e: "log_events w4 = log_events w2 @ [e]"
    "event_is e ''request_expired'' ''system'' (Username ?q) (ID ?q) (Justification ?q) ''expired before approve'' False"
    using a4 by blast
  have f: "log_events w5 = log_events w @ [e]" "requests w5 = (requests w)(ID req \<mapsto> ?q)" "members w5 = members w"
    using a2 a4 a5 e(1) by (simp_all add: stores_def)
  have "event_is e ''request_expired'' ''system'' (Username req) (ID req) (Justification req) ''expired before approve'' False"
    using e(2) by simp
  then show ?thesis using f a5 w' by blast
qed

lemma release_up:
  assumes "fit w" "requests w (ID req) = Some req" "reach (w_kc w) (Username req) active"
    and r: "run E (release s req a act) w = (x, w')"
  shows "\<exists>now. x = Inr (released_request req now) \<and> fit w' \<and>
    requests w' = (requests w)(ID req \<mapsto> released_request req now) \<and> members w' = members w - {slot req} \<and>
    (\<exists>e. log_events w' = log_events w @ [e] \<and>
       event_is e act (if a = [] then ''system'' else a) (Username req) (ID req) (Justification req) (''removed from '' @ active) False)"
proof -
  obtain y w1 where 1: "run E (kc_RemoveFromGroup (sv_kc s) (Username req) active) w = (y, w1)" by (rule prod.exhaust)
  note a1 = Remove_up [OF assms(1,3) 1]
  obtain now w2 where 2: "run E time_now w1 = (now, w2)" by (rule prod.exhaust)
  have "fit w1" using a1 by blast
  note a2 = now_up [OF this 2]
  let ?q = "released_request req now"
  have st: "storable_req ?q" using released_storable stored_storable [OF fitD(1) [OF assms(1)] assms(2)] a2 by blast
  have req2: "requests w2 (ID ?q) = Some req" using a1 a2 assms(2) by (simp add: moves_def still_def)
  obtain z w3 where 3: "run E (Update ?q) w2 = (z, w3)" by (rule prod.exhaust)
  have "fit w2" using a2 by blast
  note a3 = Update_up [OF this req2 subject_simps(2) st 3]
  obtain v w4 where 4: "run E (audit s act (if a = [] then ''system'' else a) (Username ?q) (ID ?q) (Justification ?q)
      (''removed from '' @ active) False) w3 = (v, w4)" by (rule prod.exhaust)
  have "fit w3" using a3 by blast
  note a4 = audit_up_rule [OF this 4]
  obtain u w5 where 5: "run E (notifying s (\<lambda>n. Released n ?q (release_reason act))) w4 = (u, w5)" by (rule prod.exhaust)
  have "fit w4" using a4 by blast
  note a5 = mute_fit [OF mute_notifying [OF mute_messages(4)] this 5]
  have res: "x = Inr ?q" "w' = w5"
    using r 1 2 3 4 5 a1 a3 unfolding release_def Let_def by (auto simp: run_bnd)
  obtain e where e: "log_events w4 = log_events w3 @ [e]"
    "event_is e act (if a = [] then ''system'' else a) (Username ?q) (ID ?q) (Justification ?q) (''removed from '' @ active) False"
    using a4 by blast
  have f: "log_events w5 = log_events w @ [e]" "requests w5 = (requests w)(ID req \<mapsto> ?q)" "members w5 = members w - {slot req}"
    using a1 a2 a3 a4 a5 e(1) by (simp_all add: moves_def still_def stores_def)
  have "Justification ?q = Justification req" by (simp add: released_request_def)
  then have "event_is e act (if a = [] then ''system'' else a) (Username req) (ID req) (Justification req) (''removed from '' @ active) False"
    using e(2) by simp
  then show ?thesis using f a5 res by blast
qed

lemma Get_up:
  assumes "fit w" "requests w i = Some r" "run E (Get i) w = (x, w')"
  shows "x = Inr r \<and> fit w' \<and> still w w' \<and> w_kc w' = w_kc w"
proof -
  have "store_ok (tabs (w_db w))" using assms(1) by (simp add: fit_def fine_def)
  from get_up [OF fitD(2) [OF assms(1)] this assms(3)] assms(2) have x: "x = Inr r" by simp
  have st: "still w w'" by (rule Get_rule(1) [OF fitD(1) [OF assms(1)] assms(3)])
  then have "fit w'" using run_healthy [OF assms(3) fitD(2) [OF assms(1)]] by (simp add: fit_def still_def)
  moreover have "w_kc w' = w_kc w" using assms(3) by (rule run_Get) simp
  ultimately show ?thesis using x st by simp
qed

lemma actor_up:
  assumes "fit w" "run E (actor s rq) w = (a, w')"
  shows "a = asks rq w \<and> fit w' \<and> still w w' \<and> w_kc w' = w_kc w"
proof -
  note r = actor_rule [OF fitD(1) [OF assms(1)] assms(2)]
  have "w_kc w' = w_kc w"
    using assms(2)
    by (auto simp: actor_def Actor_def Let_def run_simps run_FromRequest split: option.splits if_splits sum.splits prod.splits)
  with r run_healthy [OF assms(2) fitD(2) [OF assms(1)]] show ?thesis by (simp add: fit_def still_def)
qed

lemma InGroup_up:
  assumes "fit w" "reach (w_kc w) u g" "run E (kc_InGroup (sv_kc s) u g) w = (x, w')"
  shows "x = Inr ((who u, g) \<in> members w) \<and> fit w' \<and> still w w' \<and> reach (w_kc w') = reach (w_kc w)"
proof -
  have ready: "ready (w_client w)" using assms(1) by (simp add: fit_def fine_def)
  note i = InGroup_rule [OF fitD(1) [OF assms(1)] assms(3)]
  from in_up [OF ready assms(3)] assms(2) obtain b where x: "x = Inr b" and r: "reach (w_kc w') = reach (w_kc w)"
    by (cases x) auto
  from i x r run_healthy [OF assms(3) fitD(2) [OF assms(1)]] show ?thesis by (simp add: fit_def still_def)
qed

lemma handleApprove_up:
  assumes w: "fit w" and r: "run E (handleApprove s rq i) w = (resp, w')"
    and a: "asks rq w \<noteq> []" "(who (asks rq w), GroupPermanent (sv_cfg s)) \<in> members w"
    and reach: "reach (w_kc w) (asks rq w) (GroupPermanent (sv_cfg s))" "reach (w_kc w) (Username req) active"
    and nt: "read_approve (rq_body rq) = Inr nt" and req: "requests w i = Some req" "Status req = StatusPending"
  shows "\<exists>now. sane now \<and> fit w' \<and>
    (if now > RequestExpiresAt req
     then rs_code resp = StatusConflict \<and> requests w' = (requests w)(i \<mapsto> req\<lparr>Status := StatusExpired\<rparr>) \<and>
       members w' = members w
     else resp = writeJSON StatusOK (request_json (approved_request (sv_cfg s) req (asks rq w) nt now)) \<and>
       requests w' = (requests w)(i \<mapsto> approved_request (sv_cfg s) req (asks rq w) nt now) \<and>
       members w' = insert (slot req) (members w) \<and>
       (\<exists>e1 e2 bg. log_events w' = log_events w @ [e1, e2] \<and>
         event_is e1 ''request_approved'' (asks rq w) (Username req) i (Justification req) (''notes: '' @ nt) bg \<and>
         event_is e2 ''grant_active'' (asks rq w) (Username req) i (Justification req) (''user added to '' @ active) bg))"
proof -
  obtain b w1 where 1: "run E (actor s rq) w = (b, w1)" by (rule prod.exhaust)
  note a1 = actor_up [OF w 1]
  obtain x w2 where 2: "run E (kc_InGroup (sv_kc s) (asks rq w) (GroupPermanent (sv_cfg s))) w1 = (x, w2)" by (rule prod.exhaust)
  have "fit w1" "reach (w_kc w1) (asks rq w) (GroupPermanent (sv_cfg s))" using a1 reach(1) by simp_all
  note a2 = InGroup_up [OF this 2]
  have x: "x = Inr True" using a2 a1 a(2) by (simp add: still_def)
  obtain y w3 where 3: "run E (Get i) w2 = (y, w3)" by (rule prod.exhaust)
  have "fit w2" "requests w2 i = Some req" using a1 a2 req(1) by (simp_all add: still_def)
  note a3 = Get_up [OF this 3]
  obtain now w4 where 4: "run E time_now w3 = (now, w4)" by (rule prod.exhaust)
  have "fit w3" using a3 by blast
  note a4 = now_up [OF this 4]
  have id: "ID req = i" using stored_storable [OF fitD(1) [OF w] req(1)] by blast
  have w4: "fit w4" "requests w4 (ID req) = Some req" "sane now" "reach (w_kc w4) (Username req) active"
    "requests w4 = requests w" "members w4 = members w" "log_events w4 = log_events w"
    using a1 a2 a3 a4 req(1) id reach(2) by (simp_all add: still_def)
  have run: "run E (if now > RequestExpiresAt req then expire_late s req else grant s req (asks rq w) nt now) w4 = (resp, w')"
    using r 1 2 3 4 a1 x a3 a(1) nt req(2) unfolding handleApprove_def by (simp add: run_bnd)
  show ?thesis
  proof (cases "now > RequestExpiresAt req")
    case True
    with run have "run E (expire_late s req) w4 = (resp, w')" by simp
    from expire_late_up [OF w4(1,2) this] True w4 id show ?thesis by (intro exI [of _ now]) simp
  next
    case False
    with run have "run E (grant s req (asks rq w) nt now) w4 = (resp, w')" by simp
    from grant_up [OF w4(1-4) this] False w4 id show ?thesis by (intro exI [of _ now]) simp
  qed
qed

lemma handleRelease_up:
  assumes w: "fit w" and r: "run E (handleRelease s rq i) w = (resp, w')"
    and req: "requests w i = Some req" "Status req = StatusApproved"
    and a: "asks rq w = [] \<or> asks rq w = Username req" and reach: "reach (w_kc w) (Username req) active"
  shows "\<exists>now. resp = writeJSON StatusOK (request_json (released_request req now)) \<and> fit w' \<and>
    requests w' = (requests w)(i \<mapsto> released_request req now) \<and> members w' = members w - {slot req} \<and>
    (\<exists>e. log_events w' = log_events w @ [e] \<and>
       event_is e ''early_release'' (if asks rq w = [] then ''system'' else asks rq w) (Username req) i (Justification req)
         (''removed from '' @ active) False)"
proof -
  obtain b w1 where 1: "run E (actor s rq) w = (b, w1)" by (rule prod.exhaust)
  note a1 = actor_up [OF w 1]
  obtain y w2 where 2: "run E (Get i) w1 = (y, w2)" by (rule prod.exhaust)
  have "fit w1" "requests w1 i = Some req" using a1 req(1) by (simp_all add: still_def)
  note a2 = Get_up [OF this 2]
  have id: "ID req = i" using stored_storable [OF fitD(1) [OF w] req(1)] by blast
  obtain x w3 where 3: "run E (release s req (asks rq w) ''early_release'') w2 = (x, w3)" by (rule prod.exhaust)
  have w2: "fit w2" "requests w2 (ID req) = Some req" "reach (w_kc w2) (Username req) active"
    "requests w2 = requests w" "members w2 = members w" "log_events w2 = log_events w"
    using a1 a2 req(1) id reach by (simp_all add: still_def)
  from release_up [OF w2(1-3) 3] obtain now where n: "x = Inr (released_request req now)" "fit w3"
    "requests w3 = (requests w2)(ID req \<mapsto> released_request req now)" "members w3 = members w2 - {slot req}"
    "\<exists>e. log_events w3 = log_events w2 @ [e] \<and>
       event_is e ''early_release'' (if asks rq w = [] then ''system'' else asks rq w) (Username req) (ID req) (Justification req)
         (''removed from '' @ active) False" by blast
  have "may_release s (asks rq w) req = Ret None" using a by (auto simp: may_release_def)
  then have "resp = writeJSON StatusOK (request_json (released_request req now))" "w' = w3"
    using r 1 2 3 a1 a2 n(1) req(2) unfolding handleRelease_def by (simp_all add: run_bnd)
  with n w2 id show ?thesis by (intro exI [of _ now]) simp
qed

lemma handleCreate_up:
  assumes w: "fit w" and r: "run E (handleCreate s rq) w = (resp, w')"
    and b: "read_create (asks rq w) (rq_body rq) = Inr b"
    and member: "(who (cb_Username b), GroupEligible (sv_cfg s)) \<in> members w"
      "reach (w_kc w) (cb_Username b) (GroupEligible (sv_cfg s))"
  shows "\<exists>v i now. i = fst (run E newID v) \<and> fit w' \<and> members w' = members w \<and>
    (if requests w i = None
     then rs_code resp = StatusCreated \<and> requests w' = (requests w)(i \<mapsto> new_request (sv_cfg s) i b now) \<and>
       (\<exists>e bg. log_events w' = log_events w @ [e] \<and>
          event_is e ''request_created'' (asks rq w) (cb_Username b) i (cb_Justification b) ''pending elevation request'' bg)
     else rs_code resp = StatusInternalServerError \<and> requests w' = requests w \<and> log_events w' = log_events w)"
proof -
  obtain a w1 where 1: "run E (actor s rq) w = (a, w1)" by (rule prod.exhaust)
  note a1 = actor_up [OF w 1]
  obtain x w2 where 2: "run E (kc_InGroup (sv_kc s) (cb_Username b) (GroupEligible (sv_cfg s))) w1 = (x, w2)"
    by (rule prod.exhaust)
  have "fit w1" "reach (w_kc w1) (cb_Username b) (GroupEligible (sv_cfg s))" using a1 member(2) by simp_all
  note a2 = InGroup_up [OF this 2]
  have x: "x = Inr True" using a2 a1 member(1) by (simp add: still_def)
  obtain now w3 where 3: "run E time_now w2 = (now, w3)" by (rule prod.exhaust)
  have "fit w2" using a2 by blast
  note a3 = now_up [OF this 3]
  obtain i w4 where 4: "run E newID w3 = (i, w4)" by (rule prod.exhaust)
  have fit3: "fit w3" using a3 by blast
  have st4: "still w3 w4" by (rule quietD [OF quiet_newID fitD(1) [OF fit3] 4])
  have fit4: "fit w4" using st4 run_healthy [OF 4 fitD(2) [OF fit3]] by (simp add: fit_def still_def)
  have same: "requests w4 = requests w" "members w4 = members w" "log_events w4 = log_events w"
    using a1 a2 a3 st4 by (simp_all add: still_def)
  let ?r = "new_request (sv_cfg s) i b now"
  let ?rest = "bnd (in_group_or_not s (cb_Username b) (GroupBreakGlass (sv_cfg s))) (\<lambda>bg.
      bnd (audit s ''request_created'' (asks rq w) (cb_Username b) (ID ?r) (cb_Justification b) ''pending elevation request'' bg) (\<lambda>_.
      bnd (notifying s (\<lambda>n. PendingApprovers n ?r)) (\<lambda>_. Ret (writeJSON StatusCreated (request_json ?r)))))"
  obtain y w5 where 5: "run E (Create ?r) w4 = (y, w5)" by (rule prod.exhaust)
  have st: "storable_req ?r" using new_storable a3 by blast
  have id: "ID ?r = i" by (simp add: new_request_def)
  note made = Create_rule [OF fitD(1) [OF fit4] st 5, unfolded id]
  have ok4: "store_ok (tabs (w_db w4))" using fitD(1) [OF fit4] by (simp add: fine_def)
  have body: "run E (case y of Inl e \<Rightarrow> Ret (writeErr StatusInternalServerError e) | Inr _ \<Rightarrow> ?rest) w5 = (resp, w')"
    using r 1 2 3 4 5 a1 x b unfolding handleCreate_def by (simp add: run_bnd Let_def)
  show ?thesis
  proof (cases y)
    case (Inl e)
    then have "still w4 w5" using made by simp
    moreover have "requests w i \<noteq> None"
      using create_up [OF fitD(2) [OF fit4] ok4 st 5] Inl same id by auto
    moreover have "w' = w5" "rs_code resp = StatusInternalServerError" using body Inl by auto
    moreover have "fit w5" using \<open>still w4 w5\<close> run_healthy [OF 5 fitD(2) [OF fit4]] by (simp add: fit_def still_def)
    ultimately show ?thesis using same 4 by (intro exI [of _ w3] exI [of _ i]) (simp add: still_def)
  next
    case (Inr u)
    then have m: "requests w4 i = None" "stores w4 ((requests w4)(i \<mapsto> ?r)) w5" using made by simp_all
    have fit5: "fit w5" using m(2) run_healthy [OF 5 fitD(2) [OF fit4]] by (simp add: fit_def stores_def)
    obtain bg w6 where 6: "run E (in_group_or_not s (cb_Username b) (GroupBreakGlass (sv_cfg s))) w5 = (bg, w6)"
      by (rule prod.exhaust)
    note a6 = mute_fit [OF mute_in_group fit5 6]
    obtain z w7 where 7: "run E (audit s ''request_created'' (asks rq w) (cb_Username b) (ID ?r) (cb_Justification b)
        ''pending elevation request'' bg) w6 = (z, w7)" by (rule prod.exhaust)
    have "fit w6" using a6 by blast
    note a7 = audit_up_rule [OF this 7]
    obtain v w8 where 8: "run E (notifying s (\<lambda>n. PendingApprovers n ?r)) w7 = (v, w8)" by (rule prod.exhaust)
    have "fit w7" using a7 by blast
    note a8 = mute_fit [OF mute_notifying [OF mute_messages(1)] this 8]
    have res: "w' = w8" "rs_code resp = StatusCreated" using body Inr 6 7 8 by (auto simp: run_bnd)
    obtain e where "log_events w7 = log_events w6 @ [e]"
      "event_is e ''request_created'' (asks rq w) (cb_Username b) i (cb_Justification b) ''pending elevation request'' bg"
      using a7 id by auto
    then show ?thesis using res a1 m a6 a7 a8 same 4 by (intro exI [of _ w3] exI [of _ i] exI [of _ now]) (auto simp: stores_def)
  qed
qed

section \<open>The sweep\<close>

text \<open>Programs after which the membership server is up where it was.\<close>

definition steady :: "'a prog \<Rightarrow> bool" where
  "steady p \<longleftrightarrow> (\<forall>w a w'. ready (w_client w) \<longrightarrow> run E p w = (a, w') \<longrightarrow>
     ready (w_client w') \<and> reach (w_kc w') = reach (w_kc w))"

lemma steady_bnd:
  assumes "steady p" "\<And>a. steady (f a)"
  shows "steady (bnd p f)"
  unfolding steady_def
proof (intro allI impI)
  fix w a w'
  assume w: "ready (w_client w)" and r: "run E (bnd p f) w = (a, w')"
  obtain b w1 where p: "run E p w = (b, w1)" by (rule prod.exhaust)
  have "run E (f b) w1 = (a, w')" using r p by (simp add: run_simps)
  with p w assms show "ready (w_client w') \<and> reach (w_kc w') = reach (w_kc w)"
    unfolding steady_def by metis
qed

lemma steady_calls [simp]:
  "steady (Ret a)" "steady time_now" "steady (log_line l)" "steady (sql_exec st)" "steady (post n t)"
  by (auto simp: steady_def run_simps post_def split: prod.splits)

lemma steady_groups: "steady (kc_RemoveFromGroup (sv_kc s) u g)"
  unfolding steady_def using remove_up remove_frame by (auto simp: calm_def)

lemma steady_steps:
  "steady (Update r)" "steady (audit s ac a su ri ju de bg)" "steady (notifying s (\<lambda>n. NotifyOnce n i k t))"
  unfolding Update_def audit_def AppendAudit_def notifying_def NotifyOnce_def TryMarkNotified_def
  by (auto intro!: steady_bnd split: sum.split option.split)

lemma steady_revoke_one: "steady (revoke_one s req)"
  unfolding revoke_one_def Let_def Released_def
  by (auto intro!: steady_bnd steady_groups steady_steps split: sum.split)

lemma expire_all_up:
  assumes "fit w" "distinct (map ID rs)" "\<And>r. r \<in> set rs \<Longrightarrow> requests w (ID r) = Some r"
    "run E (for_each (expire_one s) rs) w = (u, w')"
  shows "fit w' \<and> members w' = members w \<and> reach (w_kc w') = reach (w_kc w) \<and>
    (\<forall>r \<in> set rs. requests w' (ID r) = Some (r\<lparr>Status := StatusExpired\<rparr>)) \<and>
    (\<forall>i. i \<notin> ID ` set rs \<longrightarrow> requests w' i = requests w i)"
  using assms
proof (induction rs arbitrary: w)
  case (Cons r rs)
  obtain v w1 where one: "run E (expire_one s r) w = (v, w1)" by (rule prod.exhaust)
  have e: "fit w1" "requests w1 = (requests w)(ID r \<mapsto> r\<lparr>Status := StatusExpired\<rparr>)" "members w1 = members w"
    "reach (w_kc w1) = reach (w_kc w)"
    using expire_one_up [OF Cons.prems(1) Cons.prems(3) one] by simp_all
  have rest: "run E (for_each (expire_one s) rs) w1 = (u, w')" using Cons.prems(4) one by (simp add: run_simps)
  have rows: "requests w1 (ID q) = Some q" if "q \<in> set rs" for q
    using that e(2) Cons.prems(2) Cons.prems(3) [of q] by (auto simp: image_iff)
  have "distinct (map ID rs)" using Cons.prems(2) by simp
  note ih = Cons.IH [OF e(1) this rows rest]
  have "requests w' (ID r) = Some (r\<lparr>Status := StatusExpired\<rparr>)"
    using ih e(2) Cons.prems(2) by auto
  with ih e show ?case by auto
qed auto

lemma revoke_all_up:
  assumes "fit w" "distinct (map ID rs)" "\<And>r. r \<in> set rs \<Longrightarrow> requests w (ID r) = Some r"
    "run E (for_each (revoke_one s) rs) w = (u, w')"
  shows "fit w' \<and> members w' \<subseteq> members w \<and>
    (\<forall>i. i \<notin> ID ` set rs \<longrightarrow> requests w' i = requests w i) \<and>
    (\<forall>r \<in> set rs. reach (w_kc w) (Username r) active \<longrightarrow>
       (\<exists>t. requests w' (ID r) = Some (released_request r t)) \<and> slot r \<notin> members w')"
  using assms
proof (induction rs arbitrary: w)
  case (Cons r rs)
  obtain v w1 where one: "run E (revoke_one s r) w = (v, w1)" by (rule prod.exhaust)
  have req: "requests w (ID r) = Some r" by (rule Cons.prems(3)) simp
  note any = revoke_one_rule [OF fitD(1) [OF Cons.prems(1)] req one]
  have fit1: "fit w1" using any(1) run_healthy [OF one fitD(2) [OF Cons.prems(1)]] by (simp add: fit_def)
  have reach1: "reach (w_kc w1) = reach (w_kc w)"
    using steady_revoke_one one Cons.prems(1) unfolding steady_def fit_def fine_def by metis
  have sub1: "members w1 \<subseteq> members w" using any(2) by auto
  have other: "requests w1 i = requests w i" if "i \<noteq> ID r" for i using any(3) that by auto
  have rest: "run E (for_each (revoke_one s) rs) w1 = (u, w')" using Cons.prems(4) one by (simp add: run_simps)
  have rows: "requests w1 (ID q) = Some q" if "q \<in> set rs" for q
    using that other [of "ID q"] Cons.prems(2) Cons.prems(3) [of q] by (auto simp: image_iff)
  have "distinct (map ID rs)" using Cons.prems(2) by simp
  note ih = Cons.IH [OF fit1 this rows rest]
  have "(\<exists>t. requests w' (ID r) = Some (released_request r t)) \<and> slot r \<notin> members w'"
    if "reach (w_kc w) (Username r) active"
  proof -
    note up = revoke_one_up [OF Cons.prems(1) req that one]
    then obtain t where "requests w1 (ID r) = Some (released_request r t)" by auto
    moreover have "requests w' (ID r) = requests w1 (ID r)" using ih Cons.prems(2) by auto
    ultimately show ?thesis using up ih by auto
  qed
  with ih sub1 other reach1 show ?case by (auto simp: image_iff)
qed auto

lemma reconcile_up:
  assumes w: "fit w" and r: "run E (Reconcile s) w = (x, w')"
  shows "x = Inr () \<and> fit w' \<and>
    (\<forall>i q. requests w i = Some q \<longrightarrow> pending_overdue (fst (e_now E (w_other w))) q \<longrightarrow>
       requests w' i = Some (q\<lparr>Status := StatusExpired\<rparr>)) \<and>
    (\<forall>i q. requests w i = Some q \<longrightarrow> active_overdue (fst (e_now E (w_other w))) q \<longrightarrow>
       reach (w_kc w) (Username q) active \<longrightarrow>
       (\<exists>t. requests w' i = Some (released_request q t)) \<and> slot q \<notin> members w')"
proof -
  obtain now o1 where now: "e_now E (w_other w) = (now, o1)" by (rule prod.exhaust)
  let ?w0 = "w\<lparr>w_other := o1\<rparr>"
  have fit0: "fit ?w0" using w now_still(2) [OF fitD(1) [OF w] now] by (simp add: fit_def still_def)
  obtain p w1 where pend: "run E (PendingExpired now) ?w0 = (p, w1)" by (rule prod.exhaust)
  have so: "store_ok (tabs (w_db ?w0))" using fit0 by (simp add: fit_def fine_def)
  from pending_up [OF fitD(2) [OF fit0] so pend] obtain pending where p: "p = Inr pending" by (cases p) auto
  have w1: "fit w1" "requests w1 = requests w" "members w1 = members w" "w_kc w1 = w_kc w"
  proof -
    have q: "quiet (PendingExpired now)" by (simp add: PendingExpired_def byStatusBefore_def quiet_scan_rows)
    note st = quietD [OF q fitD(1) [OF fit0] pend]
    then show "fit w1" using run_healthy [OF pend fitD(2) [OF fit0]] by (simp add: fit_def still_def)
    show "requests w1 = requests w" "members w1 = members w" using st by (simp_all add: still_def)
    show "w_kc w1 = w_kc w" using pend unfolding PendingExpired_def byStatusBefore_def by (rule run_scan_rows) simp
  qed
  from pending_ok [OF so pend [unfolded p]] have ps: "distinct (map ID pending)"
    "\<And>q. q \<in> set pending \<longleftrightarrow> q \<in> ran (requests w) \<and> pending_overdue now q" by simp_all
  obtain u1 w2 where loop1: "run E (for_each (expire_one s) pending) w1 = (u1, w2)" by (rule prod.exhaust)
  have rows1: "requests w1 (ID q) = Some q" if "q \<in> set pending" for q
  proof -
    have "q \<in> ran (requests w)" using that ps(2) by blast
    then obtain i where "requests w i = Some q" by (auto simp: ran_def)
    with stored_storable [OF fitD(1) [OF w] this] w1(2) show ?thesis by simp
  qed
  note l1 = expire_all_up [OF w1(1) ps(1) rows1 loop1]
  obtain z w3 where act: "run E (ActiveExpired now) w2 = (z, w3)" by (rule prod.exhaust)
  have fit2: "fit w2" using l1 by blast
  have so2: "store_ok (tabs (w_db w2))" using fit2 by (simp add: fit_def fine_def)
  from active_up [OF fitD(2) [OF fit2] so2 act] obtain active_rs where z: "z = Inr active_rs" by (cases z) auto
  have w3: "fit w3" "requests w3 = requests w2" "members w3 = members w2" "w_kc w3 = w_kc w2"
  proof -
    have q: "quiet (ActiveExpired now)" by (simp add: ActiveExpired_def byStatusBefore_def quiet_scan_rows)
    note st = quietD [OF q fitD(1) [OF fit2] act]
    then show "fit w3" using run_healthy [OF act fitD(2) [OF fit2]] by (simp add: fit_def still_def)
    show "requests w3 = requests w2" "members w3 = members w2" using st by (simp_all add: still_def)
    show "w_kc w3 = w_kc w2" using act unfolding ActiveExpired_def byStatusBefore_def by (rule run_scan_rows) simp
  qed
  from active_ok [OF so2 act [unfolded z]] have as: "distinct (map ID active_rs)"
    "\<And>q. q \<in> set active_rs \<longleftrightarrow> q \<in> ran (requests w2) \<and> active_overdue now q" by simp_all
  obtain u2 w4 where loop2: "run E (for_each (revoke_one s) active_rs) w3 = (u2, w4)" by (rule prod.exhaust)
  have rows2: "requests w3 (ID q) = Some q" if "q \<in> set active_rs" for q
  proof -
    have "q \<in> ran (requests w2)" using that as(2) by blast
    then obtain i where "requests w2 i = Some q" by (auto simp: ran_def)
    with stored_storable [OF fitD(1) [OF fit2] this] w3(2) show ?thesis by simp
  qed
  note l2 = revoke_all_up [OF w3(1) as(1) rows2 loop2]
  have res: "x = Inr ()" "w' = w4"
    using r now pend p loop1 act z loop2 by (simp_all add: Reconcile_def run_simps)
  have expired: "requests w' i = Some (q\<lparr>Status := StatusExpired\<rparr>)"
    if q: "requests w i = Some q" "pending_overdue now q" for i q
  proof -
    have id: "ID q = i" using stored_storable [OF fitD(1) [OF w] q(1)] by blast
    have "q \<in> set pending" using ps(2) q by (auto intro: ranI)
    with l1 id have w2: "requests w2 i = Some (q\<lparr>Status := StatusExpired\<rparr>)" by auto
    have "i \<notin> ID ` set active_rs"
    proof
      assume "i \<in> ID ` set active_rs"
      then obtain a where "a \<in> set active_rs" "ID a = i" by blast
      with rows2 [of a] as(2) [of a] w2 w3(2) show False by (auto simp: overdue_def)
    qed
    with l2 w2 w3(2) res(2) show ?thesis by simp
  qed
  have revoked: "(\<exists>t. requests w' i = Some (released_request q t)) \<and> slot q \<notin> members w'"
    if q: "requests w i = Some q" "active_overdue now q" "reach (w_kc w) (Username q) active" for i q
  proof -
    have id: "ID q = i" using stored_storable [OF fitD(1) [OF w] q(1)] by blast
    have "i \<notin> ID ` set pending"
    proof
      assume "i \<in> ID ` set pending"
      then obtain a where "a \<in> set pending" "ID a = i" by blast
      with rows1 [of a] ps(2) [of a] q w1(2) show False by (auto simp: overdue_def)
    qed
    with l1 w1(2) q(1) have "requests w2 i = Some q" by simp
    then have "q \<in> set active_rs" using as(2) q(2) by (auto intro: ranI)
    moreover have "reach (w_kc w3) (Username q) active" using q(3) w1(4) w3(4) l1 by simp
    ultimately show ?thesis using l2 id res(2) by auto
  qed
  show ?thesis using res l2 expired revoked now by simp
qed

end

end
