(* ===== verification/ServiceSpec.thy ===== *)
theory ServiceSpec
  imports Upkeep StoreSpec JsonRound
begin

text \<open>
  The properties of the service: what a request over HTTP and a tick of the worker may do to
  the requests and to the memberships, who may cause it, and what it leaves in the audit log.
\<close>

interpretation reference_service: service_up ref_env fst ref_service id "\<lambda>k. set (d_members k)" "\<lambda>_. True" ref_fair
  engine_healthy "\<lambda>k u g. u \<notin> set (d_broken k)"
proof (intro service_up.intro)
  show "service_world ref_env fst ref_service id (\<lambda>k. set (d_members k)) (\<lambda>_. True) ref_fair"
    by (rule reference.service_world_axioms)
  show "service_db_up ref_env fst engine_healthy" by (rule reference_db.service_db_up_axioms)
  show "groups_up ref_env (sv_kc ref_service) id (\<lambda>k. set (d_members k)) (\<lambda>_. True) ref_fair
      (\<lambda>k u g. u \<notin> set (d_broken k))"
    using reference_up.groups_up_axioms by (simp add: ref_service_def NewService_def)
qed

section \<open>What a changed world says about the request that changed it\<close>

context service_world
begin

lemma approve_changes:
  assumes "fine w" "run E (handleApprove s rq i) w = (resp, w')"
    and ch: "requests w' \<noteq> requests w \<or> members w' \<noteq> members w \<or> log_events w' \<noteq> log_events w"
  shows "asks rq w \<noteq> [] \<and> (who (asks rq w), GroupPermanent (sv_cfg s)) \<in> members w \<and>
    (\<exists>nt. read_approve (rq_body rq) = Inr nt) \<and> (\<exists>req. requests w i = Some req \<and> Status req = StatusPending)"
  using assms(1,2)
proof (rule handleApprove_cases)
  assume "still w w'"
  with ch show ?thesis by (simp add: still_def)
qed blast

lemma approve_answers_ok:
  assumes "fine w" "run E (handleApprove s rq i) w = (resp, w')" "rs_code resp = StatusOK"
  shows "\<exists>nt req now. asks rq w \<noteq> [] \<and> (who (asks rq w), GroupPermanent (sv_cfg s)) \<in> members w \<and>
    read_approve (rq_body rq) = Inr nt \<and> requests w i = Some req \<and> Status req = StatusPending \<and>
    now \<le> RequestExpiresAt req \<and> fine w' \<and>
    requests w' = (requests w)(i \<mapsto> approved_request (sv_cfg s) req (asks rq w) nt now) \<and>
    members w' = insert (who (Username req), GroupActive (sv_cfg s)) (members w)"
  using assms(1,2)
proof (rule handleApprove_cases)
  assume "still w w'" "rs_code resp \<in> {StatusBadRequest, StatusUnauthorized, StatusForbidden, StatusNotFound,
         StatusConflict, StatusBadGateway}"
  with assms(3) show ?thesis by (simp add: code_defs)
next
  fix a nt req now w1
  assume a: "a = asks rq w" "a \<noteq> []" "(who a, GroupPermanent (sv_cfg s)) \<in> members w"
      "read_approve (rq_body rq) = Inr nt" "requests w i = Some req" "Status req = StatusPending"
      "sane now" "still w w1"
      "run E (if now > RequestExpiresAt req then expire_late s req else grant s req a nt now) w1 = (resp, w')"
  have id: "ID req = i" using stored_storable assms(1) a(5) by blast
  have w1: "fine w1" "requests w1 (ID req) = Some req" using a(5,8) id by (simp_all add: still_def)
  show ?thesis
  proof (cases "now > RequestExpiresAt req")
    case True
    with a(9) expire_late_cases(3) [OF w1] assms(3) show ?thesis by (auto simp: code_defs)
  next
    case False
    with a(9) have "run E (grant s req a nt now) w1 = (resp, w')" by simp
    with w1 a(7) show ?thesis
    proof (rule grant_cases)
      assume "fine w'" "requests w' = (requests w1)(ID req \<mapsto> approved_request (sv_cfg s) req a nt now)"
        "members w' = insert (who (Username req), GroupActive (sv_cfg s)) (members w1)"
      then show ?thesis using a False id
        by (intro exI [of _ nt] exI [of _ req] exI [of _ now]) (simp add: still_def)
    qed (use assms(3) in \<open>auto simp: code_defs\<close>)
  qed
qed

lemma create_answers:
  assumes "fine w" "run E (handleCreate s rq) w = (resp, w')"
  shows "fine w' \<and> members w' = members w \<and>
    (if rs_code resp = StatusCreated
     then \<exists>b i now. read_create (asks rq w) (rq_body rq) = Inr b \<and> sane now \<and> requests w i = None \<and>
        (who (cb_Username b), GroupEligible (sv_cfg s)) \<in> members w \<and>
        requests w' = (requests w)(i \<mapsto> new_request (sv_cfg s) i b now) \<and>
        resp = writeJSON StatusCreated (request_json (new_request (sv_cfg s) i b now))
     else requests w' = requests w \<and> log_events w' = log_events w)"
  using assms
proof (rule handleCreate_cases)
  assume "still w w'" "rs_code resp \<in> {StatusBadRequest, StatusForbidden, StatusBadGateway, StatusInternalServerError}"
  then show ?thesis by (auto simp: still_def code_defs)
next
  fix b i now
  assume "read_create (asks rq w) (rq_body rq) = Inr b" "sane now" "(who (cb_Username b), GroupEligible (sv_cfg s)) \<in> members w"
      "requests w i = None" "fine w'" "members w' = members w"
      "requests w' = (requests w)(i \<mapsto> new_request (sv_cfg s) i b now)"
      "resp = writeJSON StatusCreated (request_json (new_request (sv_cfg s) i b now))"
  then show ?thesis by auto
qed

lemma release_answers:
  assumes "fine w" "run E (handleRelease s rq i) w = (resp, w')"
  shows "still w w' \<and> rs_code resp \<noteq> StatusOK \<or>
    (\<exists>req. requests w i = Some req \<and> Status req = StatusApproved \<and>
       (asks rq w = [] \<or> asks rq w = Username req \<or> (who (asks rq w), GroupPermanent (sv_cfg s)) \<in> members w) \<and>
       (rs_code resp = StatusOK \<longrightarrow>
         (\<exists>now. sane now \<and> requests w' = (requests w)(i \<mapsto> released_request req now) \<and>
           resp = writeJSON StatusOK (request_json (released_request req now))) \<and>
         members w' = members w - {(who (Username req), GroupActive (sv_cfg s))}) \<and>
       (rs_code resp \<noteq> StatusOK \<longrightarrow> requests w' = requests w \<and> log_events w' = log_events w \<and>
         members w' \<in> {members w, members w - {(who (Username req), GroupActive (sv_cfg s))}}))"
  using assms
proof (rule handleRelease_cases)
  assume "still w w'" "rs_code resp \<in> {StatusNotFound, StatusConflict, StatusForbidden, StatusBadGateway}"
  then show ?thesis by (auto simp: code_defs)
next
  fix req x w1
  assume a: "requests w i = Some req" "Status req = StatusApproved"
      "asks rq w = [] \<or> asks rq w = Username req \<or> (who (asks rq w), GroupPermanent (sv_cfg s)) \<in> members w"
      "still w w1" "run E (release s req (asks rq w) ''early_release'') w1 = (x, w')"
      "resp = (case x of Inl e \<Rightarrow> writeErr StatusBadGateway e
               | Inr req' \<Rightarrow> writeJSON StatusOK (request_json req'))"
  have id: "ID req = i" using stored_storable assms(1) a(1) by blast
  have w1: "fine w1" "requests w1 (ID req) = Some req" using a(1,4) id by (simp_all add: still_def)
  from w1 a(5) show ?thesis
  proof (rule release_cases)
    fix e m assume "x = Inl e" "m \<in> {members w1, members w1 - {(who (Username req), GroupActive (sv_cfg s))}}" "moves w1 m w'"
    with a show ?thesis by (auto simp: code_defs still_def moves_def)
  next
    fix now assume "sane now" "x = Inr (released_request req now)" "requests w' = (requests w1)(ID req \<mapsto> released_request req now)"
      "members w' = members w1 - {(who (Username req), GroupActive (sv_cfg s))}"
    with a id show ?thesis by (intro disjI2 exI [of _ req]) (auto simp: still_def)
  qed
qed

text \<open>The sweep, with the deadlines as times instead of texts.\<close>

lemma sweep_effect:
  assumes w: "fine w" and r: "run E (Reconcile s) w = (x, w')"
  shows "fine w'" "members w' \<subseteq> members w"
    "requests w' i = requests w i \<or>
       (\<exists>q. requests w i = Some q \<and> Status q = StatusPending \<and>
          RequestExpiresAt q < fst (e_now E (w_other w)) + Second \<and>
          requests w' i = Some (q\<lparr>Status := StatusExpired\<rparr>)) \<or>
       (\<exists>q t d. requests w i = Some q \<and> Status q = StatusApproved \<and> ActiveExpiresAt q = Some d \<and>
          d < fst (e_now E (w_other w)) + Second \<and> requests w' i = Some (released_request q t) \<and>
          (who (Username q), GroupActive (sv_cfg s)) \<notin> members w')"
    "y \<in> members w - members w' \<Longrightarrow> \<exists>i q d. requests w i = Some q \<and> Status q = StatusApproved \<and>
       ActiveExpiresAt q = Some d \<and> d < fst (e_now E (w_other w)) + Second \<and>
       y = (who (Username q), GroupActive (sv_cfg s))"
proof -
  let ?now = "fst (e_now E (w_other w))"
  have e: "sane ?now" "fine w'" "members w' \<subseteq> members w"
    "\<And>i. requests w' i = requests w i \<or>
       (\<exists>q. requests w i = Some q \<and> pending_overdue ?now q \<and>
            requests w' i = Some (q\<lparr>Status := StatusExpired\<rparr>)) \<or>
       (\<exists>q t. requests w i = Some q \<and> active_overdue ?now q \<and> requests w' i = Some (released_request q t) \<and>
            (who (Username q), GroupActive (sv_cfg s)) \<notin> members w')"
    "\<And>y. y \<in> members w - members w' \<Longrightarrow>
       \<exists>i q. requests w i = Some q \<and> active_overdue ?now q \<and> y = (who (Username q), GroupActive (sv_cfg s))"
    using reconcile_effect [OF w r] by blast+
  have now: "storable ?now" using e(1) by (rule sane_storable)
  have ok: "store_ok (tabs (w_db w))" using w by (simp add: fine_def)
  have p: "Status q = StatusPending \<and> RequestExpiresAt q < ?now + Second"
    if "requests w i = Some q" "pending_overdue ?now q" for i q
    using overdue_soon [OF that(2) now stored_deadlines(3) [OF ok that(1)] refl stored_deadlines(1) [OF ok that(1)]] that(2)
    by (simp add: overdue_def)
  have a: "\<exists>d. Status q = StatusApproved \<and> ActiveExpiresAt q = Some d \<and> d < ?now + Second"
    if q: "requests w i = Some q" "active_overdue ?now q" for i q
  proof -
    obtain d where d: "ActiveExpiresAt q = Some d" using q(2) by (auto simp: overdue_def split: option.splits)
    show ?thesis
      using overdue_soon [OF q(2) now stored_deadlines(3) [OF ok q(1)] d stored_deadlines(2) [OF ok q(1) d]] q(2) d
      by (simp add: overdue_def)
  qed
  show "fine w'" "members w' \<subseteq> members w" by (rule e)+
  from e(4) [of i] show "requests w' i = requests w i \<or>
       (\<exists>q. requests w i = Some q \<and> Status q = StatusPending \<and>
          RequestExpiresAt q < ?now + Second \<and>
          requests w' i = Some (q\<lparr>Status := StatusExpired\<rparr>)) \<or>
       (\<exists>q t d. requests w i = Some q \<and> Status q = StatusApproved \<and> ActiveExpiresAt q = Some d \<and>
          d < ?now + Second \<and> requests w' i = Some (released_request q t) \<and>
          (who (Username q), GroupActive (sv_cfg s)) \<notin> members w')"
    using p a by blast
  show "\<exists>i q d. requests w i = Some q \<and> Status q = StatusApproved \<and>
       ActiveExpiresAt q = Some d \<and> d < ?now + Second \<and> y = (who (Username q), GroupActive (sv_cfg s))"
    if y: "y \<in> members w - members w'"
    using e(5) [OF y] a by blast
qed

text \<open>A membership of the active group that no approved request accounts for stays.\<close>

lemma tick_keeps_orphan:
  assumes w: "fine w" and r: "run E (tick s) w = (u, w')"
    and orphan: "(p, GroupActive (sv_cfg s)) \<in> members w"
      "\<And>i q. requests w i = Some q \<Longrightarrow> who (Username q) = p \<Longrightarrow> Status q \<noteq> StatusApproved"
  shows "fine w' \<and> (p, GroupActive (sv_cfg s)) \<in> members w' \<and>
    (\<forall>i q. requests w' i = Some q \<longrightarrow> who (Username q) = p \<longrightarrow> Status q \<noteq> StatusApproved)"
proof -
  obtain x w1 where rec: "run E (Reconcile s) w = (x, w1)" by (rule prod.exhaust)
  note e = sweep_effect [OF w rec]
  have "run E (case x of Inl e \<Rightarrow> log_line (''reconcile: '' @ error_text e) | Inr _ \<Rightarrow> Ret ()) w1 = (u, w')"
    using r rec by (simp add: tick_def run_simps)
  moreover have "quiet (case x of Inl e \<Rightarrow> log_line (''reconcile: '' @ error_text e) | Inr _ \<Rightarrow> Ret ())"
    by (auto simp: quiet_log split: sum.split)
  ultimately have st: "still w1 w'" using e(1) quietD by metis
  have "(p, GroupActive (sv_cfg s)) \<in> members w1"
  proof (rule ccontr)
    assume "(p, GroupActive (sv_cfg s)) \<notin> members w1"
    with orphan(1) have "(p, GroupActive (sv_cfg s)) \<in> members w - members w1" by simp
    from e(4) [OF this] obtain i q where "requests w i = Some q" "Status q = StatusApproved" "who (Username q) = p"
      by auto
    with orphan(2) show False by blast
  qed
  moreover have "Status q \<noteq> StatusApproved" if q: "requests w1 i = Some q" "who (Username q) = p" for i q
  proof -
    consider "requests w1 i = requests w i" | q0 where "requests w1 i = Some (q0\<lparr>Status := StatusExpired\<rparr>)"
      | q0 t where "requests w1 i = Some (released_request q0 t)" using e(3) [of i] by blast
    then show ?thesis
    proof cases
      case 1
      with q orphan(2) show ?thesis by simp
    next
      case 2
      with q show ?thesis by auto
    next
      case 3
      with q show ?thesis by (auto simp: released_request_def)
    qed
  qed
  ultimately show ?thesis using st by (simp add: still_def)
qed

lemma ticks_keep_orphan:
  assumes "fine w" "run E (Run s (replicate n Tick)) w = (u, w')"
    and "(p, GroupActive (sv_cfg s)) \<in> members w"
      "\<And>i q. requests w i = Some q \<Longrightarrow> who (Username q) = p \<Longrightarrow> Status q \<noteq> StatusApproved"
  shows "(p, GroupActive (sv_cfg s)) \<in> members w'"
  using assms
proof (induction n arbitrary: w)
  case (Suc n)
  obtain v w1 where t: "run E (tick s) w = (v, w1)" by (rule prod.exhaust)
  have k: "fine w1 \<and> (p, GroupActive (sv_cfg s)) \<in> members w1 \<and>
    (\<forall>i q. requests w1 i = Some q \<longrightarrow> who (Username q) = p \<longrightarrow> Status q \<noteq> StatusApproved)"
    by (rule tick_keeps_orphan [OF Suc.prems(1) t Suc.prems(3)]) (rule Suc.prems(4))
  have "run E (Run s (replicate n Tick)) w1 = (u, w')" using Suc.prems(2) t by (simp add: run_simps)
  with Suc.IH [OF _ this] k show ?case by blast
qed simp

lemma unrecorded_orphan:
  assumes w: "fine w" "requests w (ID req) = Some req" "Status req = StatusPending" "sane now"
    and r: "run E (grant s req a nt now) w = (resp, w1)" "rs_code resp = StatusInternalServerError"
    and others: "\<forall>i q. requests w i = Some q \<longrightarrow> who (Username q) = who (Username req) \<longrightarrow> Status q \<noteq> StatusApproved"
    and t: "run E (Run s (replicate n Tick)) w1 = (u, w2)"
  shows "requests w1 = requests w \<and> (who (Username req), GroupActive (sv_cfg s)) \<in> members w2"
  using w(1,2,4) r(1)
proof (rule grant_cases)
  assume mv: "moves w (insert (who (Username req), GroupActive (sv_cfg s)) (members w)) w1"
  then show ?thesis
    using ticks_keep_orphan [OF _ t, of "who (Username req)"] others by (auto simp: moves_def)
qed (use r(2) in \<open>auto simp: code_defs\<close>)

end

lemma read_create_self:
  "read_create a body = Inr b \<Longrightarrow> (a \<noteq> [] \<longrightarrow> cb_Username b = a) \<and> cb_Username b \<noteq> [] \<and> 8 \<le> length (cb_Justification b)"
  by (auto simp: read_create_def Let_def minJustificationLen_def split: sum.splits if_splits)

lemma read_approve_long: "read_approve body = Inr nt \<Longrightarrow> 8 \<le> length nt"
  by (auto simp: read_approve_def Let_def minApprovalNotesLen_def split: sum.splits if_splits)

section \<open>The examples\<close>

text \<open>A deadline no reading of the clock is past, a request over HTTP with an actor in the header,
  and three worlds: a pending request; two approved ones of one user; one that is overdue.\<close>

definition far :: time where "far = 284018400000000000000"

definition header_request :: "string \<Rightarrow> string \<Rightarrow> web_request" where
  "header_request a body =
     \<lparr>rq_method = ''POST'', rq_path = [], rq_query = [], rq_cookies = [],
      rq_header = (if a = [] then [] else [(''X-Actor-Username'', a)]), rq_body = body\<rparr>"

definition notes_body :: string where
  "notes_body = print_json (JObj [(''notes'', JStr ''ticket 4711'')])"

definition demo_members :: "(string \<times> string) list" where
  "demo_members = [(''alice'', ''admin-eligible''), (''bob'', ''admin-permanent'')]"

definition pend_world :: "bool list \<Rightarrow> (engine, directory, outside) world" where
  "pend_world faults = ref_world [ref_request ''r1'' StatusPending far None] faults demo_members [] noon"

definition twice_world :: "(engine, directory, outside) world" where
  "twice_world = ref_world
     [ref_request ''r1'' StatusApproved far (Some far), ref_request ''r2'' StatusApproved far (Some far)] []
     ((''alice'', ''admin-active'') # demo_members) [] noon"

definition over_world :: "(engine, directory, outside) world" where
  "over_world = ref_world
     [ref_request ''r1'' StatusPending (noon - Second) None, ref_request ''r2'' StatusApproved noon (Some (noon - Second))] []
     ((''alice'', ''admin-active'') # demo_members) [] noon"

lemma far_storable: "storable far" "storable (noon - Second)"
  by (simp_all add: far_def noon_def storable_def days_before_year_def Second_def)

lemma far_late: "sane t \<Longrightarrow> \<not> t > far"
  by (simp add: sane_def far_def)

lemma demo_config [simp]:
  "sv_cfg ref_service = ref_config" "GroupPermanent ref_config = ''admin-permanent''"
  "GroupActive ref_config = ''admin-active''" "GroupEligible ref_config = ''admin-eligible''"
  by (simp_all add: ref_service_def NewService_def ref_config_def)

lemma demo_requests:
  "list_all storable_req [ref_request ''r1'' StatusPending far None]"
  "list_all storable_req
     [ref_request ''r1'' StatusApproved far (Some far), ref_request ''r2'' StatusApproved far (Some far)]"
  "list_all storable_req
     [ref_request ''r1'' StatusPending (noon - Second) None, ref_request ''r2'' StatusApproved noon (Some (noon - Second))]"
  by (simp_all add: ref_request_storable far_storable noon_sane)

lemma demo_fine:
  "reference.fine (pend_world faults)" "reference.fine twice_world" "reference.fine over_world"
  unfolding pend_world_def twice_world_def over_world_def
  using demo_requests noon_sane by (auto intro!: ref_world_fine)

lemma demo_fit:
  "reference_service.fit (pend_world [])" "reference_service.fit twice_world" "reference_service.fit over_world"
  using demo_fine
  by (simp_all add: reference_service.fit_def engine_healthy_def pend_world_def twice_world_def over_world_def)

lemma demo_stored:
  "reqs (fst (w_db (pend_world faults))) = [''r1'' \<mapsto> ref_request ''r1'' StatusPending far None]"
  "reqs (fst (w_db twice_world)) =
     [''r2'' \<mapsto> ref_request ''r2'' StatusApproved far (Some far), ''r1'' \<mapsto> ref_request ''r1'' StatusApproved far (Some far)]"
  "reqs (fst (w_db over_world)) =
     [''r2'' \<mapsto> ref_request ''r2'' StatusApproved noon (Some (noon - Second)),
      ''r1'' \<mapsto> ref_request ''r1'' StatusPending (noon - Second) None]"
  using ref_tables_ok(3) [OF demo_requests(1)] ref_tables_ok(3) [OF demo_requests(2)] ref_tables_ok(3) [OF demo_requests(3)]
  by (simp_all add: pend_world_def twice_world_def over_world_def)

lemma demo_server [simp]:
  "d_members (w_kc (pend_world faults)) = demo_members" "d_broken (w_kc (pend_world faults)) = []"
  "d_members (w_kc twice_world) = (''alice'', ''admin-active'') # demo_members" "d_broken (w_kc twice_world) = []"
  "d_members (w_kc over_world) = (''alice'', ''admin-active'') # demo_members" "d_broken (w_kc over_world) = []"
  "fst (e_now ref_env (w_other over_world)) = noon"
  by (simp_all add: pend_world_def twice_world_def over_world_def ref_env_def ref_now_def)

lemma demo_actor:
  "fst (run ref_env (actor ref_service (header_request ''bob'' body)) w) = ''bob''"
  "fst (run ref_env (actor ref_service (header_request ''alice'' body)) w) = ''alice''"
  "fst (run ref_env (actor ref_service (header_request [] body)) w) = []"
proof -
  have "TrimSpace ''bob'' = ''bob''" "TrimSpace ''alice'' = ''alice''" "TrimSpace [] = []" by code_simp+
  then show "fst (run ref_env (actor ref_service (header_request ''bob'' body)) w) = ''bob''"
    "fst (run ref_env (actor ref_service (header_request ''alice'' body)) w) = ''alice''"
    "fst (run ref_env (actor ref_service (header_request [] body)) w) = []"
    by (simp_all add: actor_def Actor_def ref_service_def NewService_def ref_config_def header_request_def lookup_def)
qed

lemma demo_asks [simp]:
  "reference.asks (header_request ''bob'' body) w = ''bob''"
  "reference.asks (header_request ''alice'' body) w = ''alice''"
  "reference.asks (header_request [] body) w = []"
  by (simp_all add: reference.asks_def demo_actor)

lemma demo_notes: "read_approve notes_body = Inr ''ticket 4711''"
proof -
  have "parse_first notes_body = Inr (JObj [(''notes'', JStr ''ticket 4711'')])"
    unfolding notes_body_def by (rule parse_first_print_json) (simp_all add: max_depth_def utf8_ascii)
  moreover have "TrimSpace ''ticket 4711'' = ''ticket 4711''" by code_simp
  ultimately show ?thesis
    by (simp add: read_approve_def decode_body_def approve_fields_def key_matches_def decoded_def Let_def
        minApprovalNotesLen_def)
qed

lemma demo_approve:
  obtains resp w' now where
    "run ref_env (handleApprove ref_service (header_request ''bob'' notes_body) ''r1'') (pend_world []) = (resp, w')"
    "rs_code resp = StatusOK"
    "reqs (fst (w_db w')) = [''r1'' \<mapsto> approved_request ref_config (ref_request ''r1'' StatusPending far None) ''bob'' ''ticket 4711'' now]"
    "set (d_members (w_kc w')) = insert (''alice'', ''admin-active'') (set demo_members)"
proof -
  obtain resp w' where r:
    "run ref_env (handleApprove ref_service (header_request ''bob'' notes_body) ''r1'') (pend_world []) = (resp, w')"
    by (rule prod.exhaust)
  have "rq_body (header_request ''bob'' notes_body) = notes_body" by (simp add: header_request_def)
  with reference_service.handleApprove_up [OF demo_fit(1) r, where nt = "''ticket 4711''" and req = "ref_request ''r1'' StatusPending far None"]
    demo_notes demo_stored(1) [of "[]"] far_late
  show thesis by (auto intro!: that [OF r] simp: demo_members_def)
qed

definition create_body :: string where
  "create_body = print_json (JObj [(''justification'', JStr ''fix the outage'')])"

lemma demo_create_body:
  "read_create ''alice'' create_body = Inr \<lparr>cb_Username = ''alice'', cb_Justification = ''fix the outage''\<rparr>"
proof -
  have "parse_first create_body = Inr (JObj [(''justification'', JStr ''fix the outage'')])"
    unfolding create_body_def by (rule parse_first_print_json) (simp_all add: max_depth_def utf8_ascii)
  moreover have "TrimSpace ''fix the outage'' = ''fix the outage''" "TrimSpace [] = []" by code_simp+
  ultimately show ?thesis
    by (simp add: read_create_def decode_body_def create_fields_def key_matches_def decoded_def Let_def
        minJustificationLen_def)
qed

lemma header_request_body [simp]: "rq_body (header_request a body) = body"
  by (simp add: header_request_def)

lemma demo_newID: "fst (run ref_env newID v) \<noteq> ''r1''"
proof -
  have "length (fst (run ref_env newID v)) = 32"
    by (simp add: newID_def run_simps ref_env_def ref_rand_def EncodeToHex_def length_concat comp_def sum_list_replicate)
  then show ?thesis by auto
qed

lemma demo_create:
  obtains resp w' i now where
    "run ref_env (handleCreate ref_service (header_request ''alice'' create_body)) (pend_world []) = (resp, w')"
    "rs_code resp = StatusCreated" "i \<noteq> ''r1''"
    "reqs (fst (w_db w')) = (reqs (fst (w_db (pend_world []))))(i \<mapsto>
       new_request ref_config i \<lparr>cb_Username = ''alice'', cb_Justification = ''fix the outage''\<rparr> now)"
proof -
  obtain resp w' where r:
    "run ref_env (handleCreate ref_service (header_request ''alice'' create_body)) (pend_world []) = (resp, w')"
    by (rule prod.exhaust)
  let ?b = "\<lparr>cb_Username = ''alice'', cb_Justification = ''fix the outage''\<rparr>"
  have b: "read_create (reference.asks (header_request ''alice'' create_body) (pend_world []))
      (rq_body (header_request ''alice'' create_body)) = Inr ?b"
    by (simp add: demo_create_body)
  have m: "(id (cb_Username ?b), GroupEligible (sv_cfg ref_service)) \<in> set (d_members (w_kc (pend_world [])))"
    "cb_Username ?b \<notin> set (d_broken (w_kc (pend_world [])))" by (simp_all add: demo_members_def)
  from reference_service.handleCreate_up [OF demo_fit(1) r b m] obtain v i now where i: "i = fst (run ref_env newID v)"
    "reqs (fst (w_db (pend_world []))) i = None \<longrightarrow> rs_code resp = StatusCreated \<and> reqs (fst (w_db w')) =
       (reqs (fst (w_db (pend_world []))))(i \<mapsto> new_request (sv_cfg ref_service) i ?b now)"
    by metis
  have "i \<noteq> ''r1''" using i(1) demo_newID by simp
  with i(2) that [OF r, of i now] demo_stored(1) [of "[]"] show thesis by simp
qed

lemma demo_release:
  assumes r: "run ref_env (handleRelease ref_service (header_request ''alice'' []) ''r1'') twice_world = (resp, w')"
  shows "rs_code resp = StatusOK"
proof -
  have q: "reqs (fst (w_db twice_world)) ''r1'' = Some (ref_request ''r1'' StatusApproved far (Some far))"
    by (simp add: demo_stored)
  have a: "reference.asks (header_request ''alice'' []) twice_world = [] \<or>
      reference.asks (header_request ''alice'' []) twice_world = Username (ref_request ''r1'' StatusApproved far (Some far))"
    and reach: "Username (ref_request ''r1'' StatusApproved far (Some far)) \<notin> set (d_broken (w_kc twice_world))"
    and st: "Status (ref_request ''r1'' StatusApproved far (Some far)) = StatusApproved" by simp_all
  show ?thesis
    using reference_service.handleRelease_up [OF demo_fit(2) r q st a reach] by (elim exE conjE) simp
qed

section \<open>Properties\<close>

text \<open>
  C1: an approval that answers 200 was made by an authenticated member of the permanent
  group with notes of at least eight characters, for a request that was pending and not past
  its deadline; after it exactly that request is approved, by that actor, with those notes,
  active for \<open>ActiveTTL\<close> from the moment of the approval, and exactly its user is added to the
  active group.
\<close>

theorem approve_grants:
  assumes "service_world E tabs s who holds ready fair" "service_world.fine tabs ready fair w"
    and "run E (handleApprove s rq i) w = (resp, w')" "rs_code resp = StatusOK"
  shows "\<exists>a nt req now. a = fst (run E (actor s rq) w) \<and> a \<noteq> [] \<and> (who a, GroupPermanent (sv_cfg s)) \<in> holds (w_kc w) \<and>
    read_approve (rq_body rq) = Inr nt \<and> 8 \<le> length nt \<and>
    reqs (tabs (w_db w)) i = Some req \<and> Status req = StatusPending \<and> now \<le> RequestExpiresAt req \<and>
    reqs (tabs (w_db w')) = (reqs (tabs (w_db w)))(i \<mapsto>
      req\<lparr>Status := StatusApproved, ApprovedAt := Some now, ApprovedBy := a, ApprovalNotes := nt,
          ActiveExpiresAt := Some (now + ActiveTTL (sv_cfg s))\<rparr>) \<and>
    holds (w_kc w') = insert (who (Username req), GroupActive (sv_cfg s)) (holds (w_kc w))"
  using service_world.approve_answers_ok [OF assms]
  by (simp add: service_world.asks_def [OF assms(1)] approved_request_def) (metis read_approve_long)

theorem approve_grants_witness:
  "\<exists>resp w'. run ref_env (handleApprove ref_service (header_request ''bob'' notes_body) ''r1'') (pend_world []) = (resp, w') \<and>
     rs_code resp = StatusOK \<and> (''alice'', ''admin-active'') \<in> set (d_members (w_kc w'))"
proof (rule demo_approve)
  fix resp w' now
  assume r: "run ref_env (handleApprove ref_service (header_request ''bob'' notes_body) ''r1'') (pend_world []) = (resp, w')"
    "rs_code resp = StatusOK"
  show ?thesis
    using approve_grants [OF reference.service_world_axioms demo_fine(1) r] r demo_stored(1) [of "[]"]
    by (intro exI [of _ resp] exI [of _ w']) (auto split: if_splits)
qed

text \<open>
  C2: an approval that changes anything at all -- a request, a membership or the log -- was
  asked for by an authenticated member of the permanent group, with notes, for a pending
  request.
\<close>

theorem approve_needs_authority:
  assumes "service_world E tabs s who holds ready fair" "service_world.fine tabs ready fair w"
    and "run E (handleApprove s rq i) w = (resp, w')"
    and "reqs (tabs (w_db w')) \<noteq> reqs (tabs (w_db w)) \<or> holds (w_kc w') \<noteq> holds (w_kc w) \<or>
      events_of (tabs (w_db w')) \<noteq> events_of (tabs (w_db w))"
  shows "fst (run E (actor s rq) w) \<noteq> [] \<and>
    (who (fst (run E (actor s rq) w)), GroupPermanent (sv_cfg s)) \<in> holds (w_kc w) \<and>
    (\<exists>nt. read_approve (rq_body rq) = Inr nt) \<and>
    (\<exists>req. reqs (tabs (w_db w)) i = Some req \<and> Status req = StatusPending)"
  using service_world.approve_changes [OF assms] by (simp add: service_world.asks_def [OF assms(1)])

theorem approve_needs_authority_witness:
  "(''bob'', ''admin-permanent'') \<in> set (d_members (w_kc (pend_world [])))"
proof (rule demo_approve)
  fix resp w' now
  assume r: "run ref_env (handleApprove ref_service (header_request ''bob'' notes_body) ''r1'') (pend_world []) = (resp, w')"
    and q: "reqs (fst (w_db w')) =
      [''r1'' \<mapsto> approved_request ref_config (ref_request ''r1'' StatusPending far None) ''bob'' ''ticket 4711'' now]"
  have "reqs (fst (w_db w')) ''r1'' \<noteq> reqs (fst (w_db (pend_world []))) ''r1''"
    using q demo_stored(1) [of "[]"] by (simp add: approved_request_def ref_request_def)
  then have "reqs (fst (w_db w')) \<noteq> reqs (fst (w_db (pend_world [])))" by metis
  with approve_needs_authority [OF reference.service_world_axioms demo_fine(1) r] show ?thesis
    by (simp add: demo_actor)
qed

text \<open>
  C8: a creation answers 201 exactly when it has added one request under an id no request had:
  its user and its justification, of at least eight characters, are those that were read from
  the body, it is pending, it was created now and its deadline is \<open>RequestTTL\<close> from now, it
  carries no approver, no notes and no times of an approval or a release, and the answer is
  that row.  Its user is a member of the eligible group; an actor that is known asks for itself
  only.  Any other answer leaves the requests and the log as they were, and no answer changes a
  membership.
\<close>

theorem create_adds_one_pending:
  assumes "service_world E tabs s who holds ready fair" "service_world.fine tabs ready fair w"
    and "run E (handleCreate s rq) w = (resp, w')"
  shows "holds (w_kc w') = holds (w_kc w) \<and>
    (if rs_code resp = StatusCreated
     then \<exists>b i now r. r = \<lparr>ID = i, Username = cb_Username b, Justification = cb_Justification b, Status = StatusPending,
          CreatedAt = now, RequestExpiresAt = now + RequestTTL (sv_cfg s), ApprovedAt = None, ApprovedBy = [],
          ApprovalNotes = [], ActiveExpiresAt = None, ReleasedAt = None\<rparr> \<and>
        read_create (fst (run E (actor s rq) w)) (rq_body rq) = Inr b \<and> sane now \<and>
        (fst (run E (actor s rq) w) \<noteq> [] \<longrightarrow> cb_Username b = fst (run E (actor s rq) w)) \<and>
        8 \<le> length (cb_Justification b) \<and>
        (who (cb_Username b), GroupEligible (sv_cfg s)) \<in> holds (w_kc w) \<and>
        reqs (tabs (w_db w)) i = None \<and> reqs (tabs (w_db w')) = (reqs (tabs (w_db w)))(i \<mapsto> r) \<and>
        resp = writeJSON StatusCreated (request_json r)
     else reqs (tabs (w_db w')) = reqs (tabs (w_db w)) \<and> events_of (tabs (w_db w')) = events_of (tabs (w_db w)))"
proof (cases "rs_code resp = StatusCreated")
  case True
  from service_world.create_answers [OF assms] True obtain b i now where
    c: "read_create (fst (run E (actor s rq) w)) (rq_body rq) = Inr b" "sane now" "reqs (tabs (w_db w)) i = None"
      "(who (cb_Username b), GroupEligible (sv_cfg s)) \<in> holds (w_kc w)"
      "reqs (tabs (w_db w')) = (reqs (tabs (w_db w)))(i \<mapsto> new_request (sv_cfg s) i b now)"
      "resp = writeJSON StatusCreated (request_json (new_request (sv_cfg s) i b now))" "holds (w_kc w') = holds (w_kc w)"
    unfolding service_world.asks_def [OF assms(1)] by (simp only: refl if_True) blast
  from c read_create_self [OF c(1)] True show ?thesis unfolding new_request_def by auto
qed (use service_world.create_answers [OF assms] in \<open>simp add: new_request_def\<close>)

theorem create_adds_one_pending_witness:
  "\<exists>resp w'. run ref_env (handleCreate ref_service (header_request ''alice'' create_body)) (pend_world []) = (resp, w') \<and>
     rs_code resp = StatusCreated \<and> d_members (w_kc (pend_world [])) = demo_members \<and>
     set (d_members (w_kc w')) = set demo_members"
proof (rule demo_create)
  fix resp w' i now
  assume r: "run ref_env (handleCreate ref_service (header_request ''alice'' create_body)) (pend_world []) = (resp, w')"
    "rs_code resp = StatusCreated"
  from create_adds_one_pending [OF reference.service_world_axioms demo_fine(1) r(1)] r show ?thesis by auto
qed

text \<open>
  C9: a release that changes anything, or answers 200, is of an approved request and was asked
  for by its user, by a member of the permanent group, or by nobody.  After an answer of 200
  exactly that row is changed -- its status is released and its time of release is set --,
  exactly its user is gone from the active group, and the answer is the new row; after any other
  answer the requests and the log are as they were, and at most that one membership is gone.
\<close>

theorem release_ends_grant:
  assumes "service_world E tabs s who holds ready fair" "service_world.fine tabs ready fair w"
    and "run E (handleRelease s rq i) w = (resp, w')"
    and "reqs (tabs (w_db w')) \<noteq> reqs (tabs (w_db w)) \<or> holds (w_kc w') \<noteq> holds (w_kc w) \<or>
      events_of (tabs (w_db w')) \<noteq> events_of (tabs (w_db w)) \<or> rs_code resp = StatusOK"
  shows "\<exists>req a. reqs (tabs (w_db w)) i = Some req \<and> Status req = StatusApproved \<and> a = fst (run E (actor s rq) w) \<and>
    (a = [] \<or> a = Username req \<or> (who a, GroupPermanent (sv_cfg s)) \<in> holds (w_kc w)) \<and>
    (rs_code resp = StatusOK \<longrightarrow>
      (\<exists>now. sane now \<and> reqs (tabs (w_db w')) =
           (reqs (tabs (w_db w)))(i \<mapsto> req\<lparr>Status := StatusReleased, ReleasedAt := Some now\<rparr>) \<and>
         resp = writeJSON StatusOK (request_json (req\<lparr>Status := StatusReleased, ReleasedAt := Some now\<rparr>))) \<and>
      holds (w_kc w') = holds (w_kc w) - {(who (Username req), GroupActive (sv_cfg s))}) \<and>
    (rs_code resp \<noteq> StatusOK \<longrightarrow>
      reqs (tabs (w_db w')) = reqs (tabs (w_db w)) \<and> events_of (tabs (w_db w')) = events_of (tabs (w_db w)) \<and>
      holds (w_kc w') \<in> {holds (w_kc w), holds (w_kc w) - {(who (Username req), GroupActive (sv_cfg s))}})"
proof -
  note ans = service_world.release_answers [OF assms(1-3), unfolded released_request_def service_world.asks_def [OF assms(1)]]
  have "\<not> (service_world.still tabs holds ready fair w w' \<and> rs_code resp \<noteq> StatusOK)"
    using assms(4) by (auto simp: service_world.still_def [OF assms(1)])
  with ans show ?thesis by (elim disjE) (blast, elim exE conjE, blast)
qed

theorem release_ends_grant_witness:
  "\<exists>resp w'. run ref_env (handleRelease ref_service (header_request ''alice'' []) ''r1'') twice_world = (resp, w') \<and>
     rs_code resp = StatusOK \<and> (''alice'', ''admin-active'') \<notin> set (d_members (w_kc w'))"
proof -
  obtain resp w' where r: "run ref_env (handleRelease ref_service (header_request ''alice'' []) ''r1'') twice_world = (resp, w')"
    by (rule prod.exhaust)
  have q: "reqs (fst (w_db twice_world)) ''r1'' = Some (ref_request ''r1'' StatusApproved far (Some far))"
    by (simp add: demo_stored)
  have ok: "rs_code resp = StatusOK" by (rule demo_release [OF r])
  have "reqs (fst (w_db w')) \<noteq> reqs (fst (w_db twice_world)) \<or>
      set (d_members (w_kc w')) \<noteq> set (d_members (w_kc twice_world)) \<or>
      events_of (fst (w_db w')) \<noteq> events_of (fst (w_db twice_world)) \<or> rs_code resp = StatusOK"
    using ok by blast
  from release_ends_grant [OF reference.service_world_axioms demo_fine(2) r this] ok obtain req where
    req: "reqs (fst (w_db twice_world)) ''r1'' = Some req"
      "set (d_members (w_kc w')) = set (d_members (w_kc twice_world)) - {(id (Username req), GroupActive (sv_cfg ref_service))}"
    by blast
  have "Username req = ''alice''" using req(1) q by auto
  then have "(''alice'', ''admin-active'') \<notin> set (d_members (w_kc w'))" using req(2) by simp
  with r ok show ?thesis by blast
qed

text \<open>
  C10: on a database and a membership server that are up, an approval by a member of the
  permanent group, with notes, of a pending request does what it is for: before the deadline it
  answers 200, the request is approved, its user is in the active group, and the log has grown
  by exactly the two events of the approval and of the grant, with the actor, the user, the
  request and the justification; after the deadline it answers 409 and the request is expired.
\<close>

theorem approve_outcome:
  assumes "service_up E tabs s who holds ready fair healthy reach" "service_up.fit tabs ready fair healthy w"
    and "run E (handleApprove s rq i) w = (resp, w')"
    and "a = fst (run E (actor s rq) w)" "a \<noteq> []" "(who a, GroupPermanent (sv_cfg s)) \<in> holds (w_kc w)"
    and "reach (w_kc w) a (GroupPermanent (sv_cfg s))" "reach (w_kc w) (Username req) (GroupActive (sv_cfg s))"
    and "read_approve (rq_body rq) = Inr nt" "reqs (tabs (w_db w)) i = Some req" "Status req = StatusPending"
  shows "\<exists>now. sane now \<and> (if now > RequestExpiresAt req
     then rs_code resp = StatusConflict \<and>
       reqs (tabs (w_db w')) = (reqs (tabs (w_db w)))(i \<mapsto> req\<lparr>Status := StatusExpired\<rparr>) \<and>
       holds (w_kc w') = holds (w_kc w)
     else rs_code resp = StatusOK \<and>
       reqs (tabs (w_db w')) = (reqs (tabs (w_db w)))(i \<mapsto>
         req\<lparr>Status := StatusApproved, ApprovedAt := Some now, ApprovedBy := a, ApprovalNotes := nt,
             ActiveExpiresAt := Some (now + ActiveTTL (sv_cfg s))\<rparr>) \<and>
       holds (w_kc w') = insert (who (Username req), GroupActive (sv_cfg s)) (holds (w_kc w)) \<and>
       (\<exists>e1 e2. events_of (tabs (w_db w')) = events_of (tabs (w_db w)) @ [e1, e2] \<and>
         EvAction e1 = ''request_approved'' \<and> EvDetail e1 = ''notes: '' @ nt \<and> EvAction e2 = ''grant_active'' \<and>
         (\<forall>e \<in> {e1, e2}. EvActor e = a \<and> EvSubject e = Username req \<and> EvRequestID e = i \<and>
            EvJustification e = Justification req)))"
proof -
  have sw: "service_world E tabs s who holds ready fair" using assms(1) by (simp add: service_up_def)
  note asks = service_world.asks_def [OF sw]
  from service_up.handleApprove_up [OF assms(1-3), unfolded asks, folded assms(4), OF assms(5-11)]
  obtain now where s: "sane now" and n: "if now > RequestExpiresAt req
     then rs_code resp = StatusConflict \<and>
       reqs (tabs (w_db w')) = (reqs (tabs (w_db w)))(i \<mapsto> req\<lparr>Status := StatusExpired\<rparr>) \<and>
       holds (w_kc w') = holds (w_kc w)
     else resp = writeJSON StatusOK (request_json (approved_request (sv_cfg s) req a nt now)) \<and>
       reqs (tabs (w_db w')) = (reqs (tabs (w_db w)))(i \<mapsto> approved_request (sv_cfg s) req a nt now) \<and>
       holds (w_kc w') = insert (who (Username req), GroupActive (sv_cfg s)) (holds (w_kc w)) \<and>
       (\<exists>e1 e2 bg. events_of (tabs (w_db w')) = events_of (tabs (w_db w)) @ [e1, e2] \<and>
         service_up.event_is e1 ''request_approved'' a (Username req) i (Justification req) (''notes: '' @ nt) bg \<and>
         service_up.event_is e2 ''grant_active'' a (Username req) i (Justification req)
           (''user added to '' @ GroupActive (sv_cfg s)) bg)"
    by blast
  note n = n [unfolded approved_request_def]
  show ?thesis
  proof (cases "now > RequestExpiresAt req")
    case True
    with s n show ?thesis by (intro exI [of _ now]) simp
  next
    case False
    with n obtain e1 e2 bg where e: "events_of (tabs (w_db w')) = events_of (tabs (w_db w)) @ [e1, e2]"
      "service_up.event_is e1 ''request_approved'' a (Username req) i (Justification req) (''notes: '' @ nt) bg"
      "service_up.event_is e2 ''grant_active'' a (Username req) i (Justification req)
           (''user added to '' @ GroupActive (sv_cfg s)) bg" by (simp only: if_False) blast
    note e23 = e(2,3) [unfolded service_up.event_is_def [OF assms(1)]]
    show ?thesis
      using s n False e(1) e23 by (intro exI [of _ now]) (simp only: if_False writeJSON_code insert_iff, blast)
  qed
qed

theorem approve_outcome_witness:
  "\<exists>e1 e2. events_of (fst (w_db (snd (run ref_env (handleApprove ref_service (header_request ''bob'' notes_body) ''r1'')
       (pend_world []))))) = [e1, e2] \<and> EvAction e1 = ''request_approved'' \<and> EvAction e2 = ''grant_active'' \<and> EvActor e2 = ''bob''"
proof -
  let ?rq = "header_request ''bob'' notes_body" and ?req = "ref_request ''r1'' StatusPending far None"
  obtain resp w' where r: "run ref_env (handleApprove ref_service ?rq ''r1'') (pend_world []) = (resp, w')"
    by (rule prod.exhaust)
  have req: "reqs (fst (w_db (pend_world []))) ''r1'' = Some ?req" by (simp add: demo_stored)
  have a: "''bob'' = fst (run ref_env (actor ref_service ?rq) (pend_world []))" by (simp add: demo_actor)
  have m: "(id ''bob'', GroupPermanent (sv_cfg ref_service)) \<in> set (d_members (w_kc (pend_world [])))"
    "''bob'' \<notin> set (d_broken (w_kc (pend_world [])))" "Username ?req \<notin> set (d_broken (w_kc (pend_world [])))"
    "Status ?req = StatusPending" "''bob'' \<noteq> []" by (simp_all add: demo_members_def)
  have nt: "read_approve (rq_body ?rq) = Inr ''ticket 4711''" by (simp add: demo_notes)
  obtain now where n: "sane now" "if now > RequestExpiresAt ?req then True else
      (\<exists>e1 e2. events_of (fst (w_db w')) = events_of (fst (w_db (pend_world []))) @ [e1, e2] \<and>
         EvAction e1 = ''request_approved'' \<and> EvAction e2 = ''grant_active'' \<and> EvActor e2 = ''bob'')"
    using approve_outcome [OF reference_service.service_up_axioms demo_fit(1) r a m(5) m(1-3) nt req m(4)]
    by (elim exE conjE) (metis insertCI)
  have "events_of (fst (w_db (pend_world []))) = []"
    using ref_tables_ok(5) [OF demo_requests(1)] by (simp add: pend_world_def)
  with n far_late [OF n(1)] r show ?thesis by simp
qed

text \<open>
  C12: on a database and a membership server that are up, anyone can end a grant: a release of
  an approved request that comes from nobody, without a session and without the header, is
  carried out like one that comes from its user.  It answers 200, the membership is gone, and
  the log, grown by exactly one event, names \<open>system\<close> as the actor.
\<close>

theorem release_outcome:
  assumes "service_up E tabs s who holds ready fair healthy reach" "service_up.fit tabs ready fair healthy w"
    and "run E (handleRelease s rq i) w = (resp, w')"
    and "reqs (tabs (w_db w)) i = Some req" "Status req = StatusApproved"
    and "a = fst (run E (actor s rq) w)" "a = [] \<or> a = Username req"
    and "reach (w_kc w) (Username req) (GroupActive (sv_cfg s))"
  shows "rs_code resp = StatusOK \<and>
    (\<exists>now. reqs (tabs (w_db w')) = (reqs (tabs (w_db w)))(i \<mapsto>
       req\<lparr>Status := StatusReleased, ReleasedAt := Some now\<rparr>)) \<and>
    holds (w_kc w') = holds (w_kc w) - {(who (Username req), GroupActive (sv_cfg s))} \<and>
    (\<exists>e. events_of (tabs (w_db w')) = events_of (tabs (w_db w)) @ [e] \<and> EvAction e = ''early_release'' \<and>
       EvActor e = (if a = [] then ''system'' else a) \<and> EvSubject e = Username req \<and> EvRequestID e = i)"
proof -
  have sw: "service_world E tabs s who holds ready fair" using assms(1) by (simp add: service_up_def)
  note asks = service_world.asks_def [OF sw]
  from service_up.handleRelease_up [OF assms(1-5), unfolded asks, folded assms(6), OF assms(7,8)]
  show ?thesis unfolding released_request_def [symmetric] service_up.event_is_def [OF assms(1)] by (elim exE conjE) (simp, blast)
qed

theorem release_outcome_witness:
  "\<exists>e. events_of (fst (w_db (snd (run ref_env (handleRelease ref_service (header_request [] []) ''r1'') twice_world)))) = [e] \<and>
     EvActor e = ''system''"
proof -
  let ?req = "ref_request ''r1'' StatusApproved far (Some far)"
  obtain resp w' where r: "run ref_env (handleRelease ref_service (header_request [] []) ''r1'') twice_world = (resp, w')"
    by (rule prod.exhaust)
  have q: "reqs (fst (w_db twice_world)) ''r1'' = Some ?req" by (simp add: demo_stored)
  have a: "[] = fst (run ref_env (actor ref_service (header_request [] [])) twice_world)" by (simp add: demo_actor)
  have "Status ?req = StatusApproved" "[] = [] \<or> [] = Username ?req" "Username ?req \<notin> set (d_broken (w_kc twice_world))"
    by simp_all
  from release_outcome [OF reference_service.service_up_axioms demo_fit(2) r q this(1) a this(2,3)]
  have "\<exists>e. events_of (fst (w_db w')) = events_of (fst (w_db twice_world)) @ [e] \<and> EvActor e = ''system''" by auto
  moreover have "events_of (fst (w_db twice_world)) = []"
    using ref_tables_ok(5) [OF demo_requests(2)] by (simp add: twice_world_def)
  ultimately show ?thesis using r by simp
qed

text \<open>
  C11: on a database and a membership server that are up, a creation with a body that is read
  and a user of the eligible group answers 201, adds the pending request under the id that was
  drawn, and the log grows by exactly its event; only when that id is taken it answers 500 and
  changes nothing.  The actor may be nobody: then the user is the one the body names.
\<close>

theorem create_outcome:
  assumes "service_up E tabs s who holds ready fair healthy reach" "service_up.fit tabs ready fair healthy w"
    and "run E (handleCreate s rq) w = (resp, w')"
    and "a = fst (run E (actor s rq) w)" "read_create a (rq_body rq) = Inr b"
    and "(who (cb_Username b), GroupEligible (sv_cfg s)) \<in> holds (w_kc w)"
    and "reach (w_kc w) (cb_Username b) (GroupEligible (sv_cfg s))"
  shows "\<exists>v i now. i = fst (run E newID v) \<and> holds (w_kc w') = holds (w_kc w) \<and>
    (if reqs (tabs (w_db w)) i = None
     then rs_code resp = StatusCreated \<and>
       reqs (tabs (w_db w')) = (reqs (tabs (w_db w)))(i \<mapsto>
         \<lparr>ID = i, Username = cb_Username b, Justification = cb_Justification b, Status = StatusPending,
          CreatedAt = now, RequestExpiresAt = now + RequestTTL (sv_cfg s), ApprovedAt = None, ApprovedBy = [],
          ApprovalNotes = [], ActiveExpiresAt = None, ReleasedAt = None\<rparr>) \<and>
       (\<exists>e. events_of (tabs (w_db w')) = events_of (tabs (w_db w)) @ [e] \<and> EvAction e = ''request_created'' \<and>
          EvActor e = a \<and> EvSubject e = cb_Username b \<and> EvRequestID e = i)
     else rs_code resp = StatusInternalServerError \<and> reqs (tabs (w_db w')) = reqs (tabs (w_db w)) \<and>
       events_of (tabs (w_db w')) = events_of (tabs (w_db w)))"
proof -
  have sw: "service_world E tabs s who holds ready fair" using assms(1) by (simp add: service_up_def)
  note asks = service_world.asks_def [OF sw]
  from service_up.handleCreate_up [OF assms(1-3), unfolded asks, folded assms(4), OF assms(5-7)]
  obtain v i now where n: "i = fst (run E newID v)" "holds (w_kc w') = holds (w_kc w)" "if reqs (tabs (w_db w)) i = None
     then rs_code resp = StatusCreated \<and>
       reqs (tabs (w_db w')) = (reqs (tabs (w_db w)))(i \<mapsto> new_request (sv_cfg s) i b now) \<and>
       (\<exists>e bg. events_of (tabs (w_db w')) = events_of (tabs (w_db w)) @ [e] \<and>
          service_up.event_is e ''request_created'' a (cb_Username b) i (cb_Justification b) ''pending elevation request'' bg)
     else rs_code resp = StatusInternalServerError \<and> reqs (tabs (w_db w')) = reqs (tabs (w_db w)) \<and>
       events_of (tabs (w_db w')) = events_of (tabs (w_db w))"
    by blast
  note n = n [unfolded new_request_def]
  show ?thesis
  proof (cases "reqs (tabs (w_db w)) i = None")
    case True
    with n(3) obtain e bg where e: "events_of (tabs (w_db w')) = events_of (tabs (w_db w)) @ [e]"
      "service_up.event_is e ''request_created'' a (cb_Username b) i (cb_Justification b) ''pending elevation request'' bg"
      by (simp only: refl if_True) blast
    note e2 = e(2) [unfolded service_up.event_is_def [OF assms(1)]]
    show ?thesis using n True e(1) e2
      by (intro exI [of _ v] exI [of _ i] exI [of _ now]) (simp only: refl if_True, blast)
  next
    case False
    show ?thesis using n(1,2) n(3) [unfolded if_not_P [OF False]] False
      by (intro exI [of _ v] exI [of _ i] exI [of _ now]) simp
  qed
qed

theorem create_outcome_witness:
  "\<exists>e. events_of (fst (w_db (snd (run ref_env (handleCreate ref_service (header_request ''alice'' create_body))
       (pend_world []))))) = [e] \<and> EvActor e = ''alice''"
proof -
  let ?rq = "header_request ''alice'' create_body" and ?b = "\<lparr>cb_Username = ''alice'', cb_Justification = ''fix the outage''\<rparr>"
  obtain resp w' where r: "run ref_env (handleCreate ref_service ?rq) (pend_world []) = (resp, w')"
    by (rule prod.exhaust)
  have a: "''alice'' = fst (run ref_env (actor ref_service ?rq) (pend_world []))" by (simp add: demo_actor)
  have b: "read_create ''alice'' (rq_body ?rq) = Inr ?b" by (simp add: demo_create_body)
  have m: "(id (cb_Username ?b), GroupEligible (sv_cfg ref_service)) \<in> set (d_members (w_kc (pend_world [])))"
    "cb_Username ?b \<notin> set (d_broken (w_kc (pend_world [])))" by (simp_all add: demo_members_def)
  from create_outcome [OF reference_service.service_up_axioms demo_fit(1) r a b m] obtain v where
    "if reqs (fst (w_db (pend_world []))) (fst (run ref_env newID v)) = None
     then \<exists>e. events_of (fst (w_db w')) = events_of (fst (w_db (pend_world []))) @ [e] \<and> EvActor e = ''alice''
     else True" by metis
  moreover have "reqs (fst (w_db (pend_world []))) (fst (run ref_env newID v)) = None"
    using demo_newID by (simp add: demo_stored)
  moreover have "events_of (fst (w_db (pend_world []))) = []"
    using ref_tables_ok(5) [OF demo_requests(1)] by (simp add: pend_world_def)
  ultimately show ?thesis using r by simp
qed

end
