(* ===== verification/SweepSpec.thy ===== *)
theory SweepSpec
  imports ServiceSpec
begin

text \<open>
  The properties of the worker and of sequences of operations: what the sweep may do and what
  it achieves, and what survives any number of operations.
\<close>

section \<open>The sweep\<close>

context service_up
begin

lemma sweep_due:
  assumes w: "fit w" and r: "run E (Reconcile s) w = (x, w')"
  shows "x = Inr ()"
    "requests w i = Some q \<Longrightarrow> Status q = StatusPending \<Longrightarrow> RequestExpiresAt q + Second \<le> fst (e_now E (w_other w)) \<Longrightarrow>
       requests w' i = Some (q\<lparr>Status := StatusExpired\<rparr>)"
    "requests w i = Some q \<Longrightarrow> Status q = StatusApproved \<Longrightarrow> ActiveExpiresAt q = Some d \<Longrightarrow>
       d + Second \<le> fst (e_now E (w_other w)) \<Longrightarrow> reach (w_kc w) (Username q) active \<Longrightarrow>
       (\<exists>t. requests w' i = Some (released_request q t)) \<and> slot q \<notin> members w'"
proof -
  let ?now = "fst (e_now E (w_other w))"
  note up = reconcile_up [OF w r]
  have now: "storable ?now" using reconcile_effect [OF fitD(1) [OF w] r] sane_storable by blast
  have ok: "store_ok (tabs (w_db w))" using w by (simp add: fit_def fine_def)
  show "x = Inr ()" using up by blast
  show "requests w' i = Some (q\<lparr>Status := StatusExpired\<rparr>)"
    if q: "requests w i = Some q" "Status q = StatusPending" "RequestExpiresAt q + Second \<le> ?now"
    using up q(1) long_overdue [where due = "\<lambda>r. Some (RequestExpiresAt r)",
        OF q(2) refl q(3) stored_deadlines(1) [OF ok q(1)] now]
    by blast
  show "(\<exists>t. requests w' i = Some (released_request q t)) \<and> slot q \<notin> members w'"
    if q: "requests w i = Some q" "Status q = StatusApproved" "ActiveExpiresAt q = Some d" "d + Second \<le> ?now"
      "reach (w_kc w) (Username q) active"
    using up q(1,5) long_overdue [where due = ActiveExpiresAt, OF q(2,3,4) stored_deadlines(2) [OF ok q(1,3)] now] by blast
qed

end

text \<open>
  C6: the sweep is safe: it expires only what was pending with a deadline before the next
  second, it releases only what was approved with an end before the next second, and no
  membership goes but that of such a grant; a request it has released has lost its membership.
\<close>

theorem sweep_safe:
  assumes "service_world E tabs s who holds ready fair" "service_world.fine tabs ready fair w"
    and "run E (Reconcile s) w = (x, w')" "now = fst (e_now E (w_other w))"
  shows "holds (w_kc w') \<subseteq> holds (w_kc w) \<and>
    (\<forall>y \<in> holds (w_kc w) - holds (w_kc w'). \<exists>i q d. reqs (tabs (w_db w)) i = Some q \<and> Status q = StatusApproved \<and>
       ActiveExpiresAt q = Some d \<and> d < now + Second \<and> y = (who (Username q), GroupActive (sv_cfg s))) \<and>
    (\<forall>i. reqs (tabs (w_db w')) i = reqs (tabs (w_db w)) i \<or>
       (\<exists>q. reqs (tabs (w_db w)) i = Some q \<and> Status q = StatusPending \<and> RequestExpiresAt q < now + Second \<and>
          reqs (tabs (w_db w')) i = Some (q\<lparr>Status := StatusExpired\<rparr>)) \<or>
       (\<exists>q t d. reqs (tabs (w_db w)) i = Some q \<and> Status q = StatusApproved \<and> ActiveExpiresAt q = Some d \<and>
          d < now + Second \<and> reqs (tabs (w_db w')) i = Some (q\<lparr>Status := StatusReleased, ReleasedAt := Some t\<rparr>) \<and>
          (who (Username q), GroupActive (sv_cfg s)) \<notin> holds (w_kc w')))"
  using service_world.sweep_effect [OF assms(1-3)] unfolding assms(4) released_request_def by blast

theorem sweep_safe_witness:
  "(''bob'', ''admin-permanent'') \<in> set (d_members (w_kc (snd (run ref_env (Reconcile ref_service) over_world))))"
proof -
  obtain x w' where r: "run ref_env (Reconcile ref_service) over_world = (x, w')" by (rule prod.exhaust)
  have "(''bob'', ''admin-permanent'') \<in> set (d_members (w_kc over_world))" by (simp add: demo_members_def)
  moreover have "(''bob'', ''admin-permanent'') \<notin> set (d_members (w_kc over_world)) - set (d_members (w_kc w'))"
  proof
    assume "(''bob'', ''admin-permanent'') \<in> set (d_members (w_kc over_world)) - set (d_members (w_kc w'))"
    with sweep_safe [OF reference.service_world_axioms demo_fine(3) r refl]
    obtain q where "(''bob'', ''admin-permanent'') = (id (Username (q :: request)), GroupActive (sv_cfg ref_service))" by blast
    then show False by simp
  qed
  ultimately show ?thesis using r by simp
qed

text \<open>
  C7: the sweep is complete: on a database and a membership server that are up, a pending
  request whose deadline is a second past is expired, and an approved one whose end is a second
  past is released and its user has left the active group -- whatever goes wrong for others.
\<close>

theorem sweep_complete:
  assumes "service_up E tabs s who holds ready fair healthy reach" "service_up.fit tabs ready fair healthy w"
    and "run E (Reconcile s) w = (x, w')" "now = fst (e_now E (w_other w))"
  shows "x = Inr () \<and>
    (\<forall>i q. reqs (tabs (w_db w)) i = Some q \<longrightarrow> Status q = StatusPending \<longrightarrow> RequestExpiresAt q + Second \<le> now \<longrightarrow>
       reqs (tabs (w_db w')) i = Some (q\<lparr>Status := StatusExpired\<rparr>)) \<and>
    (\<forall>i q d. reqs (tabs (w_db w)) i = Some q \<longrightarrow> Status q = StatusApproved \<longrightarrow> ActiveExpiresAt q = Some d \<longrightarrow>
       d + Second \<le> now \<longrightarrow> reach (w_kc w) (Username q) (GroupActive (sv_cfg s)) \<longrightarrow>
       (\<exists>t. reqs (tabs (w_db w')) i = Some (q\<lparr>Status := StatusReleased, ReleasedAt := Some t\<rparr>)) \<and>
       (who (Username q), GroupActive (sv_cfg s)) \<notin> holds (w_kc w'))"
  using service_up.sweep_due [OF assms(1-3)] unfolding assms(4) released_request_def by blast

theorem sweep_complete_witness:
  "\<exists>w'. w' = snd (run ref_env (Reconcile ref_service) over_world) \<and>
     reqs (fst (w_db w')) ''r1'' = Some ((ref_request ''r1'' StatusPending (noon - Second) None)\<lparr>Status := StatusExpired\<rparr>) \<and>
     (''alice'', ''admin-active'') \<notin> set (d_members (w_kc w'))"
proof -
  obtain x w' where r: "run ref_env (Reconcile ref_service) over_world = (x, w')" by (rule prod.exhaust)
  let ?p = "ref_request ''r1'' StatusPending (noon - Second) None"
    and ?q = "ref_request ''r2'' StatusApproved noon (Some (noon - Second))"
  note c = sweep_complete [OF reference_service.service_up_axioms demo_fit(3) r refl]
  have p: "reqs (fst (w_db over_world)) ''r1'' = Some ?p" "Status ?p = StatusPending" "RequestExpiresAt ?p + Second \<le> noon"
    and q: "reqs (fst (w_db over_world)) ''r2'' = Some ?q" "Status ?q = StatusApproved"
      "ActiveExpiresAt ?q = Some (noon - Second)" "noon - Second + Second \<le> noon"
      "Username ?q \<notin> set []"
    by (simp_all add: demo_stored)
  have "reqs (fst (w_db w')) ''r1'' = Some (?p\<lparr>Status := StatusExpired\<rparr>)"
    using c p unfolding demo_server(6,7) by blast
  moreover have "(id (Username ?q), GroupActive (sv_cfg ref_service)) \<notin> set (d_members (w_kc w'))"
    using c q unfolding demo_server(6,7) by blast
  ultimately show ?thesis using r by (intro exI [of _ w']) simp
qed

section \<open>Any number of operations\<close>

text \<open>
  C3: whatever requests over HTTP and ticks of the worker follow each other, the tables stay
  well formed, no request disappears or changes its id, user, justification, creation time or
  deadline, its status only moves forward -- pending to approved or expired, approved to
  released --, and the memberships of every group but the active one are as they were.
\<close>

theorem served_forever:
  assumes "service_world E tabs s who holds ready fair" "service_world.fine tabs ready fair w"
    and "(serves E s)\<^sup>*\<^sup>* w w'"
  shows "store_ok (tabs (w_db w')) \<and> audit_ok (tabs (w_db w')) \<and> notif_ok (tabs (w_db w')) \<and>
    (\<forall>i q. reqs (tabs (w_db w)) i = Some q \<longrightarrow>
       (\<exists>r. reqs (tabs (w_db w')) i = Some r \<and> same_subject q r \<and> later_status (Status q) (Status r))) \<and>
    (\<forall>u g. g \<noteq> GroupActive (sv_cfg s) \<longrightarrow> ((u, g) \<in> holds (w_kc w') \<longleftrightarrow> (u, g) \<in> holds (w_kc w)))"
  using service_world.served_proper [OF assms(1,3,2)] service_world.fine_def [OF assms(1)] by blast

theorem served_forever_witness:
  "\<exists>w'. (serves ref_env ref_service)\<^sup>*\<^sup>* over_world w' \<and> store_ok (fst (w_db w')) \<and>
     (\<exists>r. reqs (fst (w_db w')) ''r2'' = Some r \<and> Status r \<in> {StatusApproved, StatusReleased})"
proof -
  obtain u w1 where 1: "run ref_env (tick ref_service) over_world = (u, w1)" by (rule prod.exhaust)
  obtain resp w2 where 2: "run ref_env (NewRouter [] (\<lambda>_. healthz) ref_service (header_request ''alice'' [])) w1 = (resp, w2)"
    by (rule prod.exhaust)
  have "(serves ref_env ref_service)\<^sup>*\<^sup>* over_world w2"
    using serve_tick [OF 1] serve_http [OF 2] by (rule converse_rtranclp_into_rtranclp [OF _ r_into_rtranclp])
  moreover from served_forever [OF reference.service_world_axioms demo_fine(3) this]
  obtain r where "store_ok (fst (w_db w2))" "reqs (fst (w_db w2)) ''r2'' = Some r" "later_status StatusApproved (Status r)"
    by (force simp: demo_stored)
  ultimately show ?thesis by (intro exI [of _ w2]) (auto simp: later_status_def)
qed

text \<open>
  C24: a request over HTTP with any method but \<open>POST\<close> changes no access request and no
  membership, and nothing that was logged is lost.
\<close>

theorem reads_change_nothing:
  assumes "service_world E tabs s who holds ready fair" "service_world.fine tabs ready fair w"
    and "rq_method rq \<noteq> ''POST''" "run E (NewRouter index files s rq) w = (resp, w')"
  shows "reqs (tabs (w_db w')) = reqs (tabs (w_db w)) \<and> holds (w_kc w') = holds (w_kc w) \<and>
    (\<exists>new. events_of (tabs (w_db w')) = events_of (tabs (w_db w)) @ new)"
  using service_world.keeps_booksD [OF assms(1) service_world.keeps_get [OF assms(1,3)] assms(2,4)]
  by (simp add: service_world.book_def [OF assms(1)])

theorem reads_change_nothing_witness:
  "reqs (fst (w_db (snd (run ref_env (NewRouter [] (\<lambda>_. healthz) ref_service
     ((header_request ''alice'' [])\<lparr>rq_method := ''GET'', rq_path := [''api'', ''v1'', ''me'']\<rparr>)) (pend_world []))))) =
   [''r1'' \<mapsto> ref_request ''r1'' StatusPending far None]"
proof -
  let ?rq = "(header_request ''alice'' [])\<lparr>rq_method := ''GET'', rq_path := [''api'', ''v1'', ''me'']\<rparr>"
  obtain resp w' where r: "run ref_env (NewRouter [] (\<lambda>_. healthz) ref_service ?rq) (pend_world []) = (resp, w')"
    by (rule prod.exhaust)
  have "rq_method ?rq \<noteq> ''POST''" by simp
  from reads_change_nothing [OF reference.service_world_axioms demo_fine(1) this r] r demo_stored(1) [of "[]"]
  show ?thesis by simp
qed

end
