(* ===== verification/GapSpec.thy ===== *)
theory GapSpec
  imports ServiceSpec
begin

text \<open>
  Where the requests, the memberships and the log get out of step with each other: a grant that
  is not recorded, two grants of one user, a grant that is not logged.  The gap that only
  interleaving opens is in \<open>PoolSpec\<close>.
\<close>

text \<open>
  C14: when the row of an approval cannot be written the membership is not taken back: the
  answer is 500, the request stays pending, its user is in the active group, and no number of
  ticks of the worker takes the user out again, unless another approved request of the same
  user exists.
\<close>

theorem unrecorded_grant_stays:
  assumes "service_world E tabs s who holds ready fair" "service_world.fine tabs ready fair w"
    and "reqs (tabs (w_db w)) (ID req) = Some req" "Status req = StatusPending" "sane now"
    and "run E (grant s req a nt now) w = (resp, w1)" "rs_code resp = StatusInternalServerError"
    and "\<forall>i q. reqs (tabs (w_db w)) i = Some q \<longrightarrow> who (Username q) = who (Username req) \<longrightarrow> Status q \<noteq> StatusApproved"
    and "run E (Run s (replicate n Tick)) w1 = (u, w2)"
  shows "reqs (tabs (w_db w1)) = reqs (tabs (w_db w)) \<and> (who (Username req), GroupActive (sv_cfg s)) \<in> holds (w_kc w2)"
  by (rule service_world.unrecorded_orphan [OF assms])

lemma demo_unrecorded:
  "rs_code (fst (run ref_env (grant ref_service (ref_request ''r1'' StatusPending far None) ''bob'' ''ticket 4711'' noon)
     (pend_world [True]))) = StatusInternalServerError"
  by (simp add: grant_def run_simps Update_def pend_world_def ref_world_def ref_env_def engine_exec_def ref_keycloak_def
      ref_call_def ref_groups_def ref_service_def NewService_def Let_def)

theorem unrecorded_grant_stays_witness:
  "(''alice'', ''admin-active'') \<in> set (d_members (w_kc (snd (run ref_env (Run ref_service (replicate 1000 Tick))
     (snd (run ref_env (grant ref_service (ref_request ''r1'' StatusPending far None) ''bob'' ''ticket 4711'' noon)
        (pend_world [True])))))))"
proof -
  let ?req = "ref_request ''r1'' StatusPending far None"
  obtain resp w1 where r: "run ref_env (grant ref_service ?req ''bob'' ''ticket 4711'' noon) (pend_world [True]) = (resp, w1)"
    by (rule prod.exhaust)
  obtain u w2 where t: "run ref_env (Run ref_service (replicate 1000 Tick)) w1 = (u, w2)" by (rule prod.exhaust)
  have q: "reqs (fst (w_db (pend_world [True]))) (ID ?req) = Some ?req" "Status ?req = StatusPending" by (simp_all add: demo_stored)
  have "rs_code resp = StatusInternalServerError" using demo_unrecorded r by simp
  moreover have "\<forall>i q. reqs (fst (w_db (pend_world [True]))) i = Some q \<longrightarrow> id (Username q) = id (Username ?req) \<longrightarrow>
      Status q \<noteq> StatusApproved"
    by (auto simp: demo_stored split: if_splits)
  ultimately have "(id (Username ?req), GroupActive (sv_cfg ref_service)) \<in> set (d_members (w_kc w2))"
    using unrecorded_grant_stays [OF reference.service_world_axioms demo_fine(1) q noon_sane(1) r _ _ t] by blast
  then show ?thesis using r t by simp
qed

text \<open>
  C15: two grants of one user share one membership: when one of them is released, the user is
  out of the active group, while the other request is still approved with the same end.
\<close>

theorem overlapping_grants:
  assumes "service_world E tabs s who holds ready fair" "service_world.fine tabs ready fair w"
    and "run E (handleRelease s rq i) w = (resp, w')" "rs_code resp = StatusOK"
    and "reqs (tabs (w_db w)) i = Some q" "reqs (tabs (w_db w)) j = Some q'" "i \<noteq> j"
    and "Status q' = StatusApproved" "Username q' = Username q"
  shows "reqs (tabs (w_db w')) j = Some q' \<and> (who (Username q'), GroupActive (sv_cfg s)) \<notin> holds (w_kc w')"
proof -
  obtain req now where r: "reqs (tabs (w_db w)) i = Some req"
    "reqs (tabs (w_db w')) = (reqs (tabs (w_db w)))(i \<mapsto> released_request req now)"
    "holds (w_kc w') = holds (w_kc w) - {(who (Username req), GroupActive (sv_cfg s))}"
    using service_world.release_answers [OF assms(1-3)] assms(4) by blast
  with assms(5-7,9) show ?thesis by simp
qed

theorem overlapping_grants_witness:
  "\<exists>w'. w' = snd (run ref_env (handleRelease ref_service (header_request ''alice'' []) ''r1'') twice_world) \<and>
     reqs (fst (w_db w')) ''r2'' = Some (ref_request ''r2'' StatusApproved far (Some far)) \<and>
     (''alice'', ''admin-active'') \<notin> set (d_members (w_kc w'))"
proof -
  obtain resp w' where r: "run ref_env (handleRelease ref_service (header_request ''alice'' []) ''r1'') twice_world = (resp, w')"
    by (rule prod.exhaust)
  have q: "reqs (fst (w_db twice_world)) ''r1'' = Some (ref_request ''r1'' StatusApproved far (Some far))"
    "reqs (fst (w_db twice_world)) ''r2'' = Some (ref_request ''r2'' StatusApproved far (Some far))"
    by (simp_all add: demo_stored)
  have ok: "rs_code resp = StatusOK" by (rule demo_release [OF r])
  from overlapping_grants [OF reference.service_world_axioms demo_fine(2) r ok q] r
  show ?thesis by (intro exI [of _ w']) simp
qed

section \<open>A grant that is not logged\<close>

text \<open>
  A database that refuses every event -- its disk is full, or the table of the log is locked --
  and carries out every other statement its tables allow.
\<close>

locale unlogged =
  service_world E tabs s who holds ready fair + groups_up E "sv_kc s" who holds ready fair reach
  for E :: "('d, 'k, 'o) env" and tabs :: "'d \<Rightarrow> tables" and s :: service
    and who :: "string \<Rightarrow> string" and holds :: "'k \<Rightarrow> (string \<times> string) set"
    and ready :: "client_mem \<Rightarrow> bool" and fair :: "'o \<Rightarrow> bool"
    and reach :: "'k \<Rightarrow> string \<Rightarrow> string \<Rightarrow> bool" +
  assumes events_refused: "\<not> ok (fst (e_exec E (InsertAudit r) d))"
    and others_done: "\<forall>r. st \<noteq> InsertAudit r \<Longrightarrow> exec_sem st (tabs d) n t \<Longrightarrow> ok (fst (e_exec E st d))"
    and queries_done: "query_sem q (tabs d) rows \<Longrightarrow> ok (fst (e_query E q d))"
begin

text \<open>Nothing the program does adds an event.\<close>

lemma exec_log:
  assumes "e_exec E st d = (x, d')" "has_audit (tabs d)"
  shows "audit_part (tabs d') = audit_part (tabs d)"
proof (cases "\<exists>r. st = InsertAudit r")
  case True
  then obtain r where "st = InsertAudit r" by blast
  with assms(1) events_refused [of r d] obtain e where "x = Inl e" by (cases x) auto
  with assms(1) exec_err show ?thesis by simp
next
  case False
  from exec_cases [OF assms(1)] show ?thesis
  proof (elim disjE exE conjE)
    fix n i assume "exec_sem st (tabs d) (n, i) (tabs d')"
    with False assms(2) show ?thesis by (cases st) (auto simp: audit_part_def split: if_splits)
  qed simp
qed

lemma run_log: "run E p w = (a, w') \<Longrightarrow> has_audit (tabs (w_db w)) \<Longrightarrow> audit_part (tabs (w_db w')) = audit_part (tabs (w_db w))"
proof (induction p arbitrary: w)
  case (Exec st k)
  then obtain r d where e: "e_exec E st (w_db w) = (r, d)" "run E (k r) (w\<lparr>w_db := d\<rparr>) = (a, w')"
    by (auto split: prod.splits)
  from exec_log [OF e(1) Exec.prems(2)] have "audit_part (tabs d) = audit_part (tabs (w_db w))" .
  with Exec.IH [OF _ e(2)] Exec.prems(2) show ?case by (simp add: audit_part_def)
next
  case (Query q k)
  then show ?case using query_frame by (fastforce split: prod.splits)
next
  case (QueryAudit q k)
  then show ?case using audit_frame by (fastforce split: prod.splits)
qed (fastforce split: prod.splits)+

text \<open>The rest of an approval is carried out.\<close>

lemma Get_done:
  assumes "fine w" "requests w i = Some r" "run E (Get i) w = (x, w')"
  shows "x = Inr r"
proof -
  from assms(3) obtain d z where g: "e_query E (SelectRequest i) (w_db w) = (z, d)"
    "x = (case z of Inl e \<Rightarrow> Inl e | Inr [] \<Rightarrow> Inl Sql_NoRows | Inr (row # _) \<Rightarrow> scanRequest row)"
    by (rule run_Get)
  have ok: "store_ok (tabs (w_db w))" using assms(1) by (simp add: fine_def)
  then have "query_sem (SelectRequest i) (tabs (w_db w)) (filter (\<lambda>r. c_id r = i) (t_requests (tabs (w_db w))))"
    by (simp add: store_ok_def)
  from queries_done [OF this] g(1) obtain rows where z: "z = Inr rows" by (cases z) auto
  with query_ok [of "SelectRequest i" "w_db w" rows d] g get_correct [OF ok] assms(2) show ?thesis by auto
qed

lemma Update_done:
  assumes "fine w" "requests w (ID r) = Some q" "storable_req r" "run E (Update r) w = (x, w')"
  shows "x = Inr ()"
proof -
  from assms(4) obtain d y where u: "e_exec E (update_stmt r) (w_db w) = (y, d)"
    "x = (case y of Inl e \<Rightarrow> Inl e
          | Inr (n, _) \<Rightarrow> if n = 0 then Inl (Msg (''request '' @ ID r @ '' not found'')) else Inr ())"
    by (rule run_Update)
  have ok: "store_ok (tabs (w_db w))" using assms(1) by (simp add: fine_def)
  then have "\<exists>n t'. exec_sem (update_stmt r) (tabs (w_db w)) (n, 0) t'" by (simp add: update_stmt_def store_ok_def)
  moreover have "\<forall>e. update_stmt r \<noteq> InsertAudit e" by (simp add: update_stmt_def)
  ultimately obtain n i where y: "y = Inr (n, i)"
    using others_done [of "update_stmt r" "w_db w"] u(1) by (cases y) force+
  with exec_ok u(1) have "exec_sem (update_stmt r) (tabs (w_db w)) (n, i) (tabs d)" by simp
  from update_store_ok(3) [OF ok assms(3) this] u(2) y assms(2) show ?thesis by auto
qed

lemma grant_done:
  assumes w: "fine w" "requests w (ID req) = Some req" "sane now" and reach: "reach (w_kc w) (Username req) (GroupActive (sv_cfg s))"
    and r: "run E (grant s req a nt now) w = (resp, w')"
  shows "resp = writeJSON StatusOK (request_json (approved_request (sv_cfg s) req a nt now)) \<and>
    requests w' = (requests w)(ID req \<mapsto> approved_request (sv_cfg s) req a nt now) \<and>
    members w' = insert (who (Username req), GroupActive (sv_cfg s)) (members w)"
proof -
  let ?q = "approved_request (sv_cfg s) req a nt now"
  obtain x w1 where 1: "run E (kc_AddToGroup (sv_kc s) (Username req) (GroupActive (sv_cfg s))) w = (x, w1)" by (rule prod.exhaust)
  have "ready (w_client w)" using w(1) by (simp add: fine_def)
  from add_up [OF this 1] reach have x: "x = Inr ()" by (cases x) auto
  with AddToGroup_rule [OF w(1) 1] w(2) have w1: "fine w1" "requests w1 (ID ?q) = Some req" by (simp_all add: moves_def)
  obtain y w2 where 2: "run E (Update ?q) w1 = (y, w2)" by (rule prod.exhaust)
  have "storable_req ?q" using approved_storable stored_storable [OF w(1,2)] w(3) by blast
  from Update_done [OF w1 this 2] have y: "y = Inr ()" .
  have "rs_code resp = StatusOK"
    using r 1 2 x y unfolding grant_def Let_def by (auto simp: run_simps split: prod.splits)
  with w r show ?thesis by (rule_tac grant_cases [OF w r]) (auto simp: code_defs)
qed

lemma expire_late_done:
  assumes w: "fine w" "requests w (ID req) = Some req" and r: "run E (expire_late s req) w = (resp, w')"
  shows "rs_code resp = StatusConflict \<and> members w' = members w \<and>
    requests w' = (requests w)(ID req \<mapsto> req\<lparr>Status := StatusExpired\<rparr>)"
proof -
  let ?q = "req\<lparr>Status := StatusExpired\<rparr>"
  obtain y w1 where 1: "run E (Update ?q) w = (y, w1)" by (rule prod.exhaust)
  have q: "storable_req ?q" "requests w (ID ?q) = Some req" using stored_storable [OF w] w(2) by (simp_all add: storable_req_def)
  have y: "y = Inr ()" by (rule Update_done [OF w(1) q(2,1) 1])
  with Update_read [OF w(1) q(2) _ q(1) 1] have st: "stores w ((requests w)(ID req \<mapsto> ?q)) w1" by simp
  let ?rest = "bnd (audit s ''request_expired'' ''system'' (Username ?q) (ID ?q) (Justification ?q)
             ''expired before approve'' False) (\<lambda>_.
      bnd (notifying s (\<lambda>n. RequestExpired n ?q)) (\<lambda>_.
      Ret (writeErr StatusConflict (Msg ''request expired''))))"
  have rest: "run E ?rest w1 = (resp, w')" using 1 r by (simp add: expire_late_def Let_def run_simps)
  have "keeps_books ?rest" by (intro keeps_intros keeps_Ret)
  moreover have "fine w1" using st by (simp add: stores_def)
  ultimately have "book w1 w'" using rest by (rule keeps_booksD)
  with expire_late_cases(2,3) [OF w r] stores_book [OF st] show ?thesis by blast
qed

lemma handleApprove_done:
  assumes w: "fine w" and r: "run E (handleApprove s rq i) w = (resp, w')"
    and a: "asks rq w \<noteq> []" "(who (asks rq w), GroupPermanent (sv_cfg s)) \<in> members w"
    and reach: "reach (w_kc w) (asks rq w) (GroupPermanent (sv_cfg s))" "reach (w_kc w) (Username req) (GroupActive (sv_cfg s))"
    and nt: "read_approve (rq_body rq) = Inr nt" and req: "requests w i = Some req" "Status req = StatusPending"
  shows "log_events w' = log_events w \<and> (\<exists>now. sane now \<and>
    (if now > RequestExpiresAt req
     then rs_code resp = StatusConflict \<and> members w' = members w \<and>
       requests w' = (requests w)(i \<mapsto> req\<lparr>Status := StatusExpired\<rparr>)
     else resp = writeJSON StatusOK (request_json (approved_request (sv_cfg s) req (asks rq w) nt now)) \<and>
       requests w' = (requests w)(i \<mapsto> approved_request (sv_cfg s) req (asks rq w) nt now) \<and>
       members w' = insert (who (Username req), GroupActive (sv_cfg s)) (members w)))"
proof
  have "has_audit (tabs (w_db w))" using w by (simp add: fine_def audit_ok_def)
  from audit_part_cong [OF run_log [OF r this]] show "log_events w' = log_events w" by simp
  obtain b w1 where 1: "run E (actor s rq) w = (b, w1)" by (rule prod.exhaust)
  note a1 = actor_rule [OF w 1]
  have kc1: "w_kc w1 = w_kc w"
    using 1 by (auto simp: actor_def Actor_def Let_def run_simps run_FromRequest split: option.splits if_splits sum.splits prod.splits)
  have w1: "fine w1" "ready (w_client w1)" using a1(2) by (simp_all add: still_def fine_def)
  obtain x w2 where 2: "run E (kc_InGroup (sv_kc s) (asks rq w) (GroupPermanent (sv_cfg s))) w1 = (x, w2)" by (rule prod.exhaust)
  from in_up [OF w1(2) 2] reach(1) kc1 obtain m where m: "x = Inr m" "reach (w_kc w2) = reach (w_kc w)" by (cases x) auto
  note a2 = InGroup_rule [OF w1(1) 2]
  have member: "x = Inr True" using in_ok [OF w1(2), of "asks rq w" _ m w2] 2 m(1) a(2) a1(2) by (simp add: still_def)
  have st2: "still w w2" using a1(2) a2(1) by (rule still_trans)
  then have w2: "fine w2" "requests w2 i = Some req" using req(1) by (simp_all add: still_def)
  obtain y w3 where 3: "run E (Get i) w2 = (y, w3)" by (rule prod.exhaust)
  have y: "y = Inr req" by (rule Get_done [OF w2 3])
  have kc3: "w_kc w3 = w_kc w2" using 3 by (rule run_Get) simp
  have st3: "still w w3" using st2 Get_rule(1) [OF w2(1) 3] by (rule still_trans)
  obtain now o1 where now: "e_now E (w_other w3) = (now, o1)" by (rule prod.exhaust)
  let ?w4 = "w3\<lparr>w_other := o1\<rparr>"
  have "fine w3" using st3 by (simp add: still_def)
  note n = now_still [OF this now]
  have st4: "still w ?w4" using st3 n(2) by (rule still_trans)
  have id: "ID req = i" using stored_storable [OF w req(1)] by blast
  have w4: "fine ?w4" "requests ?w4 (ID req) = Some req" "sane now" "reach (w_kc ?w4) (Username req) (GroupActive (sv_cfg s))"
    "requests ?w4 = requests w" "members ?w4 = members w"
    using st4 req(1) id n(1) reach(2) m(2) kc3 by (simp_all add: still_def)
  have run: "run E (if now > RequestExpiresAt req then expire_late s req else grant s req (asks rq w) nt now) ?w4 = (resp, w')"
    using r 1 2 3 a1(1) member y a(1) nt req(2) now by (simp add: handleApprove_def run_simps)
  show "\<exists>now. sane now \<and>
    (if now > RequestExpiresAt req
     then rs_code resp = StatusConflict \<and> members w' = members w \<and>
       requests w' = (requests w)(i \<mapsto> req\<lparr>Status := StatusExpired\<rparr>)
     else resp = writeJSON StatusOK (request_json (approved_request (sv_cfg s) req (asks rq w) nt now)) \<and>
       requests w' = (requests w)(i \<mapsto> approved_request (sv_cfg s) req (asks rq w) nt now) \<and>
       members w' = insert (who (Username req), GroupActive (sv_cfg s)) (members w))"
  proof (cases "now > RequestExpiresAt req")
    case True
    with run have "run E (expire_late s req) ?w4 = (resp, w')" by simp
    from expire_late_done [OF w4(1,2) this] True w4(3,5,6) id show ?thesis by (intro exI [of _ now]) simp
  next
    case False
    with run have "run E (grant s req (asks rq w) nt now) ?w4 = (resp, w')" by simp
    from grant_done [OF w4(1-4) this] False w4(3,5,6) id show ?thesis by (intro exI [of _ now]) simp
  qed
qed

end

text \<open>The example: the reference engine with a disk that has no room for another event.\<close>

definition full_exec :: "exec_stmt \<Rightarrow> engine \<Rightarrow> (error + nat \<times> int) \<times> engine" where
  "full_exec st d =
     (case st of InsertAudit e \<Rightarrow> (Inl (Ext ''disk I/O error''), d) | _ \<Rightarrow> engine_exec st (fst d, []))"

definition full_env :: "(engine, directory, outside) env" where
  "full_env = ref_env\<lparr>e_exec := full_exec\<rparr>"

lemma full_exec_other: "\<forall>e. st \<noteq> InsertAudit e \<Longrightarrow> full_exec st d = engine_exec st (fst d, [])"
  by (cases st) (simp_all add: full_exec_def)

lemma full_groups:
  "run full_env (kc_InGroup ref_groups u g) w = run ref_env (kc_InGroup ref_groups u g) w"
  "run full_env (kc_AddToGroup ref_groups u g) w = run ref_env (kc_AddToGroup ref_groups u g) w"
  "run full_env (kc_RemoveFromGroup ref_groups u g) w = run ref_env (kc_RemoveFromGroup ref_groups u g) w"
  by (simp_all add: ref_groups_def ref_call_def full_env_def run_simps split: prod.split)

lemma full_service: "sv_kc ref_service = ref_groups"
  by (simp add: ref_service_def NewService_def)

interpretation full_engine: sqlite full_exec engine_query engine_audit fst
proof
  fix st d r d' assume x: "full_exec st d = (Inr r, d')"
  then have "\<forall>e. st \<noteq> InsertAudit e" by (auto simp: full_exec_def)
  with x reference_engine.exec_ok [of st "(fst d, [])"] show "exec_sem st (fst d) r (fst d')" by (simp add: full_exec_other)
next
  fix st d e d' assume x: "full_exec st d = (Inl e, d')"
  show "fst d' = fst d"
  proof (cases "\<exists>r. st = InsertAudit r")
    case True
    with x show ?thesis by (auto simp: full_exec_def)
  next
    case False
    with x reference_engine.exec_err [of st "(fst d, [])"] show ?thesis by (simp add: full_exec_other)
  qed
next
  fix d e d' assume "full_exec AddColumnApprovalNotes d = (Inl e, d')" "Contains (ToLower (error_text e)) ''duplicate''"
  with reference_engine.duplicate [of "(fst d, [])"] show "has_requests (fst d) \<and> has_notes (fst d)"
    by (simp add: full_exec_other)
qed (fact reference_engine.query_ok reference_engine.query_frame reference_engine.audit_ok reference_engine.audit_frame)+

interpretation full_disk: unlogged full_env fst ref_service id "\<lambda>k. set (d_members k)" "\<lambda>_. True" ref_fair
  "\<lambda>k u g. u \<notin> set (d_broken k)"
proof (intro unlogged.intro unlogged_axioms.intro service_world.intro service_world_axioms.intro)
  show "service_db full_env fst"
    using full_engine.sqlite_axioms by (simp add: service_db_def full_env_def ref_env_def)
  show "groups_iface full_env (sv_kc ref_service) id (\<lambda>k. set (d_members k)) (\<lambda>_. True) ref_fair"
    using reference_groups.groups_iface_axioms unfolding groups_iface_def full_service full_groups .
  show "groups_up full_env (sv_kc ref_service) id (\<lambda>k. set (d_members k)) (\<lambda>_. True) ref_fair
      (\<lambda>k u g. u \<notin> set (d_broken k))"
    using reference_up.groups_up_axioms
    unfolding groups_up_def groups_up_axioms_def groups_iface_def full_service full_groups .
  have "clock full_env ref_fair \<longleftrightarrow> clock ref_env ref_fair" by (simp add: clock_def full_env_def)
  with reference_clock.clock_axioms show "clock full_env ref_fair" by blast
  show "ttl_ok (sv_cfg ref_service)" by (rule reference.ttl)
  show "\<not> ok (fst (e_exec full_env (InsertAudit r) d))" for r d by (simp add: full_env_def full_exec_def)
  show "ok (fst (e_exec full_env st d))" if "\<forall>r. st \<noteq> InsertAudit r" "exec_sem st (fst d) n t" for st d n t
    using reference_engine.exec_up [of "(fst d, [])" st n t] that
    by (simp add: full_env_def full_exec_other engine_healthy_def)
  show "ok (fst (e_query full_env q d))" if "query_sem q (fst d) rows" for q d rows
    using that by (cases q) (auto simp: full_env_def ref_env_def engine_query_def)
qed (auto simp: full_env_def ref_env_def ref_keycloak_def form_request_def bearer_request_def Let_def split: if_splits)

text \<open>
  C16: not every grant is in the log.  With any database that refuses the events and carries out
  everything else, an approval by a member of the permanent group, with notes, of a pending request
  is carried out and answered like one that is logged -- before the deadline with 200, the row
  approved and its user in the active group, after it with 409 and the row expired --, and the log
  is what it was: neither the approval nor the grant nor the expiry leaves a trace.
\<close>

theorem unlogged_grant:
  assumes "unlogged E tabs s who holds ready fair reach" "service_world.fine tabs ready fair w"
    and "run E (handleApprove s rq i) w = (resp, w')"
    and "a = fst (run E (actor s rq) w)" "a \<noteq> []" "(who a, GroupPermanent (sv_cfg s)) \<in> holds (w_kc w)"
    and "reach (w_kc w) a (GroupPermanent (sv_cfg s))" "reach (w_kc w) (Username req) (GroupActive (sv_cfg s))"
    and "read_approve (rq_body rq) = Inr nt" "reqs (tabs (w_db w)) i = Some req" "Status req = StatusPending"
  shows "events_of (tabs (w_db w')) = events_of (tabs (w_db w)) \<and>
    (\<exists>now. sane now \<and> (if now > RequestExpiresAt req
     then rs_code resp = StatusConflict \<and>
       reqs (tabs (w_db w')) = (reqs (tabs (w_db w)))(i \<mapsto> req\<lparr>Status := StatusExpired\<rparr>) \<and>
       holds (w_kc w') = holds (w_kc w)
     else rs_code resp = StatusOK \<and>
       reqs (tabs (w_db w')) = (reqs (tabs (w_db w)))(i \<mapsto>
         req\<lparr>Status := StatusApproved, ApprovedAt := Some now, ApprovedBy := a, ApprovalNotes := nt,
             ActiveExpiresAt := Some (now + ActiveTTL (sv_cfg s))\<rparr>) \<and>
       holds (w_kc w') = insert (who (Username req), GroupActive (sv_cfg s)) (holds (w_kc w))))"
proof -
  have sw: "service_world E tabs s who holds ready fair" using assms(1) by (simp add: unlogged_def)
  note asks = service_world.asks_def [OF sw]
  note carried = unlogged.handleApprove_done [OF assms(1-3), unfolded asks, folded assms(4), OF assms(5-11)]
  then obtain now where n: "sane now" "if now > RequestExpiresAt req
     then rs_code resp = StatusConflict \<and> holds (w_kc w') = holds (w_kc w) \<and>
       reqs (tabs (w_db w')) = (reqs (tabs (w_db w)))(i \<mapsto> req\<lparr>Status := StatusExpired\<rparr>)
     else resp = writeJSON StatusOK (request_json (approved_request (sv_cfg s) req a nt now)) \<and>
       reqs (tabs (w_db w')) = (reqs (tabs (w_db w)))(i \<mapsto> approved_request (sv_cfg s) req a nt now) \<and>
       holds (w_kc w') = insert (who (Username req), GroupActive (sv_cfg s)) (holds (w_kc w))" by blast
  with carried show ?thesis
    by (intro conjI exI [of _ now]) (auto simp: approved_request_def split: if_splits)
qed

theorem unlogged_grant_witness:
  "\<exists>resp w'. run full_env (handleApprove ref_service (header_request ''bob'' notes_body) ''r1'') (pend_world []) = (resp, w') \<and>
     rs_code resp = StatusOK \<and> (''alice'', ''admin-active'') \<in> set (d_members (w_kc w')) \<and> events_of (fst (w_db w')) = []"
proof -
  let ?rq = "header_request ''bob'' notes_body" and ?req = "ref_request ''r1'' StatusPending far None"
  obtain resp w' where r: "run full_env (handleApprove ref_service ?rq ''r1'') (pend_world []) = (resp, w')"
    by (rule prod.exhaust)
  have req: "reqs (fst (w_db (pend_world []))) ''r1'' = Some ?req" by (simp add: demo_stored)
  have "run full_env (actor ref_service ?rq) w = run ref_env (actor ref_service ?rq) w" for w
    by (simp add: actor_def Actor_def ref_service_def NewService_def ref_config_def)
  then have a: "''bob'' = fst (run full_env (actor ref_service ?rq) (pend_world []))" by (simp add: demo_actor)
  have m: "(id ''bob'', GroupPermanent (sv_cfg ref_service)) \<in> set (d_members (w_kc (pend_world [])))"
    "''bob'' \<notin> set (d_broken (w_kc (pend_world [])))" "Username ?req \<notin> set (d_broken (w_kc (pend_world [])))"
    "Status ?req = StatusPending" "''bob'' \<noteq> []" by (simp_all add: demo_members_def)
  have nt: "read_approve (rq_body ?rq) = Inr ''ticket 4711''" by (simp add: demo_notes)
  note u = unlogged_grant [OF full_disk.unlogged_axioms demo_fine(1) r a m(5) m(1-3) nt req m(4)]
  then obtain now where n: "sane now" "if now > RequestExpiresAt ?req then True
     else rs_code resp = StatusOK \<and>
       set (d_members (w_kc w')) = insert (id (Username ?req), GroupActive (sv_cfg ref_service)) (set (d_members (w_kc (pend_world []))))"
    by (elim conjE exE) (metis (full_types))
  have "events_of (fst (w_db (pend_world []))) = []"
    using ref_tables_ok(5) [OF demo_requests(1)] by (simp add: pend_world_def)
  with n far_late [OF n(1)] u r show ?thesis by (intro exI [of _ resp] exI [of _ w']) auto
qed

end
