(* ===== verification/Interleaving.thy ===== *)
theory Interleaving
  imports Worker
begin

text \<open>
  The service with its requests interleaved: the threads are the requests over HTTP that the
  router handles and the ticks of the worker.  All of them keep the two disciplines of
  \<open>Discipline\<close>, so every configuration of the pool satisfies what follows from them; and no
  statement of any thread takes anything out of the tables.
\<close>

section \<open>The threads\<close>

text \<open>A request that a connection handles: what it leaves is the response, which no other thread
  reads.\<close>

definition http_thread :: "string \<Rightarrow> (web_request \<Rightarrow> web_response) \<Rightarrow> service \<Rightarrow> web_request \<Rightarrow> unit prog" where
  "http_thread index files s rq = bnd (NewRouter index files s rq) (\<lambda>_. Ret ())"

definition threads :: "string \<Rightarrow> (web_request \<Rightarrow> web_response) \<Rightarrow> service \<Rightarrow> unit prog set" where
  "threads index files s = insert (tick s) (range (http_thread index files s))"

section \<open>Mutexes\<close>

lemma locked_store [locked_intros]:
  "locked None (Create r)" "locked None (Get i)" "locked None List_requests" "locked None (Update r)"
  "locked None (PendingExpired t)" "locked None (ActiveExpired t)"
  "locked None (AppendAudit e)" "locked None (ListAudit f)" "locked None (TryMarkNotified i k)"
  by (auto simp: Create_def Get_def List_requests_def scan_rows_def Update_def PendingExpired_def ActiveExpired_def
      byStatusBefore_def AppendAudit_def ListAudit_def TryMarkNotified_def intro!: locked_bnd)

lemma locked_notify [locked_intros]: "locked None (NotifyOnce n i k t)"
proof -
  have "locked None (post n t)" by (simp add: post_def)
  then show ?thesis by (auto simp: NotifyOnce_def intro!: locked_bnd locked_intros split: sum.split)
qed

lemma locked_helpers [locked_intros]:
  "locked None (audit s ac a su i ju de bg)" "locked None (actor s rq)" "locked None newID"
  "(\<And>n. locked None (f n)) \<Longrightarrow> locked None (notifying s f)"
  by (auto simp: audit_def actor_def newID_def notifying_def intro!: locked_bnd locked_intros locked_Auth
      split: sum.split option.split)

locale disciplined_service =
  fixes s :: service
  assumes groups_disciplined: "disciplined (sv_kc s)"
begin

lemma locked_kc [locked_intros]:
  "locked None (kc_InGroup (sv_kc s) u g)" "locked None (kc_AddToGroup (sv_kc s) u g)"
  "locked None (kc_RemoveFromGroup (sv_kc s) u g)" "locked None (in_group_or_not s u g)"
  using groups_disciplined by (auto simp: disciplined_def in_group_or_not_def intro!: locked_bnd)

lemma locked_signing [locked_intros]:
  "locked None (handleLogin s rq)" "locked None (handleCallback s rq)" "locked None (handleLogout s rq)"
  "locked None (handleMe s rq)"
  by (auto simp: handleLogin_def handleCallback_def handleLogout_def handleMe_def Let_def
      intro!: locked_bnd locked_intros locked_Auth split: option.split)

lemma locked_reading [locked_intros]:
  "locked None (handleAudit s rq)" "locked None (handleList s rq)" "locked None (handleGet s rq i)"
  by (auto simp: handleAudit_def handleList_def handleGet_def intro!: locked_bnd locked_intros)

lemma locked_messages [locked_intros]:
  "locked None (notifying s (\<lambda>n. PendingApprovers n r))" "locked None (notifying s (\<lambda>n. Approved n r))"
  "locked None (notifying s (\<lambda>n. RequestExpired n r))" "locked None (notifying s (\<lambda>n. Released n r x))"
  by (rule locked_helpers(4), simp add: message_defs locked_notify)+

lemma locked_create [locked_intros]: "locked None (handleCreate s rq)"
  by (auto simp: handleCreate_def Let_def intro!: locked_bnd locked_intros split: sum.split)

lemma locked_grant [locked_intros]:
  "locked None (expire_late s r)" "locked None (grant s r a nt t)" "locked None (release s r a act)"
  "locked None (may_release s a r)"
  by (auto simp: expire_late_def grant_def release_def may_release_def Let_def
      intro!: locked_bnd locked_intros split: sum.split)

lemma locked_decide [locked_intros]: "locked None (handleApprove s rq i)" "locked None (handleRelease s rq i)"
  by (auto simp: handleApprove_def handleRelease_def intro!: locked_bnd locked_intros split: sum.split option.split)

lemma locked_sweep [locked_intros]: "locked None (expire_one s r)" "locked None (revoke_one s r)"
  by (auto simp: expire_one_def revoke_one_def Let_def intro!: locked_bnd locked_intros split: sum.split)

lemma locked_tick [locked_intros]: "locked None (Reconcile s)" "locked None (tick s)"
  by (auto simp: Reconcile_def tick_def intro!: locked_bnd locked_for_each locked_intros split: sum.split)

lemma locked_router [locked_intros]: "locked None (NewRouter index files s rq)"
  by (auto simp: NewRouter_def Let_def intro!: locked_intros)

lemma locked_threads: "p \<in> threads index files s \<Longrightarrow> locked None p"
  by (auto simp: threads_def http_thread_def intro!: locked_bnd locked_intros)

end

section \<open>Posts\<close>

named_theorems permits_intros \<open>programs that post only what they have marked\<close>

lemma permits_store [permits_intros]:
  "permits 0 (Create r)" "permits 0 (Get i)" "permits 0 List_requests" "permits 0 (Update r)"
  "permits 0 (PendingExpired t)" "permits 0 (ActiveExpired t)"
  "permits 0 (AppendAudit e)" "permits 0 (ListAudit f)"
  by (auto simp: Create_def Get_def List_requests_def scan_rows_def Update_def PendingExpired_def ActiveExpired_def
      byStatusBefore_def AppendAudit_def ListAudit_def intro!: permits_bnd)

lemma permits_notify [permits_intros]: "permits 0 (NotifyOnce n i k t)"
  by (auto simp: NotifyOnce_def TryMarkNotified_def post_def call_defs is_mark_def split: sum.split)

lemma permits_helpers [permits_intros]:
  "permits 0 (audit s ac a su i ju de bg)" "permits 0 (actor s rq)" "permits 0 newID"
  "(\<And>n. permits 0 (f n)) \<Longrightarrow> permits 0 (notifying s f)"
  by (auto simp: audit_def actor_def newID_def notifying_def intro!: permits_bnd permits_intros permits_Auth
      split: sum.split option.split)

context disciplined_service
begin

lemma permits_kc [permits_intros]:
  "permits 0 (kc_InGroup (sv_kc s) u g)" "permits 0 (kc_AddToGroup (sv_kc s) u g)"
  "permits 0 (kc_RemoveFromGroup (sv_kc s) u g)" "permits 0 (in_group_or_not s u g)"
  using groups_disciplined by (auto simp: disciplined_def in_group_or_not_def intro!: permits_bnd)

lemma permits_signing [permits_intros]:
  "permits 0 (handleLogin s rq)" "permits 0 (handleCallback s rq)" "permits 0 (handleLogout s rq)"
  "permits 0 (handleMe s rq)"
  by (auto simp: handleLogin_def handleCallback_def handleLogout_def handleMe_def Let_def
      intro!: permits_bnd permits_intros permits_Auth split: option.split)

lemma permits_reading [permits_intros]:
  "permits 0 (handleAudit s rq)" "permits 0 (handleList s rq)" "permits 0 (handleGet s rq i)"
  by (auto simp: handleAudit_def handleList_def handleGet_def intro!: permits_bnd permits_intros)

lemma permits_messages [permits_intros]:
  "permits 0 (notifying s (\<lambda>n. PendingApprovers n r))" "permits 0 (notifying s (\<lambda>n. Approved n r))"
  "permits 0 (notifying s (\<lambda>n. RequestExpired n r))" "permits 0 (notifying s (\<lambda>n. Released n r x))"
  by (rule permits_helpers(4), simp add: message_defs permits_notify)+

lemma permits_create [permits_intros]: "permits 0 (handleCreate s rq)"
  by (auto simp: handleCreate_def Let_def intro!: permits_bnd permits_intros split: sum.split)

lemma permits_grant [permits_intros]:
  "permits 0 (expire_late s r)" "permits 0 (grant s r a nt t)" "permits 0 (release s r a act)"
  "permits 0 (may_release s a r)"
  by (auto simp: expire_late_def grant_def release_def may_release_def Let_def
      intro!: permits_bnd permits_intros split: sum.split)

lemma permits_decide [permits_intros]: "permits 0 (handleApprove s rq i)" "permits 0 (handleRelease s rq i)"
  by (auto simp: handleApprove_def handleRelease_def intro!: permits_bnd permits_intros split: sum.split option.split)

lemma permits_sweep [permits_intros]: "permits 0 (expire_one s r)" "permits 0 (revoke_one s r)"
  by (auto simp: expire_one_def revoke_one_def Let_def intro!: permits_bnd permits_intros split: sum.split)

lemma permits_tick [permits_intros]: "permits 0 (Reconcile s)" "permits 0 (tick s)"
  by (auto simp: Reconcile_def tick_def intro!: permits_bnd permits_for_each permits_intros split: sum.split)

lemma permits_router [permits_intros]: "permits 0 (NewRouter index files s rq)"
  by (auto simp: NewRouter_def Let_def intro!: permits_intros)

lemma permits_threads: "p \<in> threads index files s \<Longrightarrow> permits 0 p"
  by (auto simp: threads_def http_thread_def intro!: permits_bnd permits_intros)

end

text \<open>The service that \<open>main\<close> builds.\<close>

interpretation built: disciplined_service "make_service cfg" for cfg
  by unfold_locales (simp add: make_service_def NewService_def disciplined_Client)

section \<open>Schedules\<close>

text \<open>Some schedule leads from one configuration to the other.\<close>

definition reaches ::
  "('d, 'k, 'o) env \<Rightarrow> 'a prog list \<times> ('d, 'k, 'o) world \<Rightarrow> 'a prog list \<times> ('d, 'k, 'o) world \<Rightarrow> bool"
where
  "reaches E c c' \<longleftrightarrow> (\<exists>is. schedule E is c = Some c')"

lemma schedule_append:
  "schedule E (is @ js) c = (case schedule E is c of None \<Rightarrow> None | Some c' \<Rightarrow> schedule E js c')"
  by (induction "is" arbitrary: c) (auto split: option.splits)

lemma reaches_trans: "reaches E c d \<Longrightarrow> reaches E d e \<Longrightarrow> reaches E c e"
  unfolding reaches_def by (metis schedule_append option.case(2))

lemma reaches_pool: "reaches E c c' \<Longrightarrow> pool E new w0 c \<Longrightarrow> pool E new w0 c'"
  by (auto simp: reaches_def intro: pool_schedule)

lemma step_bnd: "step E p w = Some (p', w') \<Longrightarrow> step E (bnd p f) w = Some (bnd p' f, w')"
  by (cases p) (auto split: prod.splits if_splits)

lemma schedule_lift:
  "schedule E (replicate n 0) ([p], w) = Some ([q], w') \<Longrightarrow> i < length ps \<Longrightarrow> ps ! i = bnd p f \<Longrightarrow>
   schedule E (replicate n i) (ps, w) = Some (ps[i := bnd q f], w')"
proof (induction n arbitrary: p w ps)
  case 0
  then show ?case by (simp add: list_update_same_conv [symmetric])
next
  case (Suc n)
  then obtain p1 w1 where s: "step E p w = Some (p1, w1)"
    "schedule E (replicate n 0) ([p1], w1) = Some ([q], w')"
    by (auto simp: pool_step_def split: option.splits)
  have "pool_step E i (ps, w) = Some (ps[i := bnd p1 f], w1)"
    using Suc.prems(2,3) step_bnd [OF s(1), of f] by (simp add: pool_step_def)
  with Suc.IH [OF s(2), of "ps[i := bnd p1 f]"] Suc.prems(2) show ?case by simp
qed

text \<open>A thread may run on to the end of its next part while the others wait.\<close>

lemma reaches_part:
  assumes "locked None p" "w_held w = {}" "i < length ps" "ps ! i = bnd p f" "run E p w = (a, w')"
  shows "reaches E (ps, w) (ps[i := f a], w') \<and> w_held w' = {}"
proof -
  obtain n where "schedule E (replicate n 0) ([p], w) = Some ([Ret a], w')"
    using steps_complete [OF assms(1,2), of E] assms(5) by auto
  from schedule_lift [OF this assms(3,4)] have "reaches E (ps, w) (ps[i := f a], w')"
    unfolding reaches_def by auto
  with run_held [OF assms(1,5)] assms(2) show ?thesis by simp
qed

section \<open>The tables only grow\<close>

text \<open>What no statement changes of a row of \<open>requests\<close>, and what no statement takes away.\<close>

definition same_columns :: "req_row \<Rightarrow> req_row \<Rightarrow> bool" where
  "same_columns r r' \<longleftrightarrow>
     c_id r' = c_id r \<and> c_username r' = c_username r \<and> c_justification r' = c_justification r \<and>
     c_created_at r' = c_created_at r \<and> c_request_expires_at r' = c_request_expires_at r"

definition all_tables :: "tables \<Rightarrow> bool" where
  "all_tables t \<longleftrightarrow> has_requests t \<and> has_notes t \<and> has_audit t \<and> has_notifs t \<and>
     distinct (map c_id (t_requests t)) \<and> distinct (map notif_key (t_notifs t))"

definition grown :: "tables \<Rightarrow> tables \<Rightarrow> bool" where
  "grown t t' \<longleftrightarrow> all_tables t' \<and>
     (\<exists>rs new. t_requests t' = rs @ new \<and> list_all2 same_columns (t_requests t) rs) \<and>
     (\<exists>new. t_audit t' = t_audit t @ new) \<and> (\<exists>new. t_notifs t' = t_notifs t @ new)"

lemma same_columns_refl [simp]: "same_columns r r"
  by (simp add: same_columns_def)

lemma same_columns_update [simp]: "same_columns r (update_row st aat aby aexp rel nt r)"
  by (simp add: same_columns_def update_row_def)

lemma grownI:
  assumes "all_tables t'" "list_all2 same_columns (t_requests t) rs" "t_requests t' = rs @ new"
    "t_audit t' = t_audit t @ as" "t_notifs t' = t_notifs t @ ns"
  shows "grown t t'"
  using assms unfolding grown_def by blast

lemma grown_refl: "all_tables t \<Longrightarrow> grown t t"
  by (rule grownI [where rs = "t_requests t" and new = "[]" and as = "[]" and ns = "[]"]) (simp_all add: list_all2_refl)

lemma grown_trans:
  assumes "grown a b" "grown b c"
  shows "grown a c"
proof -
  obtain rs new where r: "t_requests b = rs @ new" "list_all2 same_columns (t_requests a) rs"
    using assms(1) by (auto simp: grown_def)
  obtain rs' new' where r': "t_requests c = rs' @ new'" "list_all2 same_columns (t_requests b) rs'"
    using assms(2) by (auto simp: grown_def)
  from r'(2) r(1) obtain xs ys where x: "rs' = xs @ ys" "list_all2 same_columns rs xs"
    by (auto simp: list_all2_append1)
  have "list_all2 same_columns (t_requests a) xs"
    by (rule list_all2_trans [OF _ r(2) x(2)]) (simp add: same_columns_def)
  moreover have "t_requests c = xs @ ys @ new'" using r'(1) x(1) by simp
  ultimately show ?thesis using assms by (auto simp: grown_def)
qed

lemma exec_grown:
  assumes "exec_sem st t (n, i) t'" "all_tables t"
  shows "grown t t'"
proof (cases st)
  case (UpdateRequest st' aat aby aexp rel nt rid)
  let ?f = "\<lambda>r. if c_id r = rid then update_row st' aat aby aexp rel nt r else r"
  have t': "t' = t\<lparr>t_requests := map ?f (t_requests t)\<rparr>" using assms(1) UpdateRequest by simp
  have "map c_id (t_requests t') = map c_id (t_requests t)"
    "has_requests t' = has_requests t" "has_notes t' = has_notes t" "has_audit t' = has_audit t"
    "has_notifs t' = has_notifs t" "t_notifs t' = t_notifs t"
    unfolding t' by (simp_all add: update_row_def)
  then have "all_tables t'" using assms(2) by (simp only: all_tables_def)
  moreover have "list_all2 same_columns rs (map ?f rs)" for rs by (simp add: list_all2_map2 list_all2_refl)
  ultimately show ?thesis
    using t' by (intro grownI [where rs = "map ?f (t_requests t)" and new = "[]" and as = "[]" and ns = "[]"]) simp_all
next
  case (InsertRequest r)
  with assms show ?thesis
    by (intro grownI [where rs = "t_requests t" and new = "[r]" and as = "[]" and ns = "[]"])
      (simp_all add: all_tables_def list_all2_refl)
next
  case (InsertAudit e)
  with assms show ?thesis
    by (intro grownI [where rs = "t_requests t" and new = "[]" and as = "[e\<lparr>a_id := i\<rparr>]" and ns = "[]"])
      (simp_all add: all_tables_def list_all2_refl)
next
  case (InsertNotification e)
  show ?thesis
  proof (cases "notif_key e \<in> notif_key ` set (t_notifs t)")
    case True
    with assms InsertNotification grown_refl show ?thesis by simp
  next
    case False
    with assms InsertNotification show ?thesis
      by (intro grownI [where rs = "t_requests t" and new = "[]" and as = "[]" and ns = "[e]"])
        (simp_all add: all_tables_def list_all2_refl)
  qed
qed (use assms grown_refl [OF assms(2)] in \<open>simp_all add: all_tables_def\<close>)

context service_db
begin

lemma step_grown:
  assumes "step E p w = Some (p', w')" "all_tables (tabs (w_db w))"
  shows "grown (tabs (w_db w)) (tabs (w_db w'))"
proof (cases p)
  case (Exec st k)
  with assms(1) obtain r d where e: "e_exec E st (w_db w) = (r, d)" "w' = w\<lparr>w_db := d\<rparr>" by (auto split: prod.splits)
  show ?thesis
  proof (cases r)
    case (Inl x)
    with exec_err e grown_refl [OF assms(2)] show ?thesis by simp
  next
    case (Inr m)
    obtain n i where "m = (n, i)" by (cases m)
    with exec_ok e Inr have "exec_sem st (tabs (w_db w)) (n, i) (tabs d)" by blast
    from exec_grown [OF this assms(2)] e(2) show ?thesis by simp
  qed
next
  case (Query q k)
  with assms query_frame show ?thesis by (auto intro: grown_refl split: prod.splits)
next
  case (QueryAudit q k)
  with assms audit_frame show ?thesis by (auto intro: grown_refl split: prod.splits)
qed (use assms in \<open>auto intro: grown_refl split: prod.splits if_splits\<close>)

lemma pool_grown:
  assumes "pool E new w0 c" "all_tables (tabs (w_db w0))"
  shows "grown (tabs (w_db w0)) (tabs (w_db (snd c)))"
proof -
  have "grown (tabs (w_db w0)) (tabs (w_db (snd c))) \<and> (\<forall>p \<in> set (fst c). True)"
    using assms(1)
  proof (rule pool_invariant [where J = "\<lambda>_. True"])
    fix p :: "'x prog" and w p' w'
    assume g: "grown (tabs (w_db w0)) (tabs (w_db w))" and s: "step E p w = Some (p', w')"
    then have "all_tables (tabs (w_db w))" by (simp add: grown_def)
    with step_grown [OF s] g show "True \<and> grown (tabs (w_db w0)) (tabs (w_db w'))" by (blast intro: grown_trans)
  qed (use assms(2) grown_refl in auto)
  then show ?thesis ..
qed

end

end
