(* ===== verification/PoolSpec.thy ===== *)
theory PoolSpec
  imports ServiceSpec Interleaving
begin

text \<open>
  The properties of the service with its requests and the worker interleaved call by call: the
  mutexes do their work, every operation ends, the tables only grow, a notification is posted
  at most once -- and the sweep may overwrite an approval that was made while it ran.
\<close>

section \<open>What interleaving cannot break\<close>

text \<open>
  However the requests and ticks of the service that \<open>main\<close> builds interleave, two threads
  are never about to touch the fields of the same mutex at the same time, and as long as a
  thread has not ended some thread can make its next call: no data race and no deadlock.
\<close>

lemma no_race_no_deadlock:
  assumes "pool E (threads index files (make_service cfg)) w0 (ps, w)" "w_held w0 = {}"
    and "i < length ps"
  shows "(\<forall>j < length ps. \<forall>m. touches (ps ! i) = Some m \<longrightarrow> touches (ps ! j) = Some m \<longrightarrow> i = j) \<and>
    (ps ! i \<noteq> Ret () \<longrightarrow> (\<exists>j. pool_step E j (ps, w) \<noteq> None))"
proof -
  obtain hs where inv: "lock_inv hs ps w"
    using pool_locks [OF assms(1,2) built.locked_threads [of _ index files cfg]] by auto
  show ?thesis
    using no_race [OF inv assms(3)] no_deadlock [OF inv assms(3)] by auto
qed

lemma no_race_no_deadlock_witness:
  "\<exists>j. pool_step ref_env j ([tick (make_service ref_config)], pend_world []) \<noteq> None"
proof -
  have t: "tick (make_service ref_config) \<in> threads [] (\<lambda>_. healthz) (make_service ref_config)" by (simp add: threads_def)
  have p: "pool ref_env (threads [] (\<lambda>_. healthz) (make_service ref_config)) (pend_world [])
      ([tick (make_service ref_config)], pend_world [])"
    using pool_spawn [OF pool_init t] by simp
  have "[tick (make_service ref_config)] ! 0 \<noteq> Ret ()"
    by (simp add: tick_def Reconcile_def time_now_def)
  moreover have "w_held (pend_world []) = {}" by (simp add: pend_world_def)
  ultimately show ?thesis using no_race_no_deadlock [OF p, of 0] by simp
qed

text \<open>
  Every request and every tick ends: with no other thread in its way, finitely many calls
  bring it to its answer, and the answer and the world are those of running it at once.
\<close>

lemma every_operation_ends:
  assumes "w_held w = {}"
  shows "(\<exists>n. schedule E (replicate n 0) ([NewRouter index files (make_service cfg) rq], w) =
      Some ([Ret (fst (run E (NewRouter index files (make_service cfg) rq) w))],
        snd (run E (NewRouter index files (make_service cfg) rq) w))) \<and>
    (\<exists>n. schedule E (replicate n 0) ([tick (make_service cfg)], w) =
      Some ([Ret ()], snd (run E (tick (make_service cfg)) w)))"
  using steps_complete [OF built.locked_router assms] steps_complete [OF built.locked_tick(2) assms] by simp

lemma every_operation_ends_witness:
  "\<exists>n. schedule ref_env (replicate n 0) ([tick (make_service ref_config)], over_world) =
     Some ([Ret ()], snd (run ref_env (tick (make_service ref_config)) over_world))"
proof -
  have "w_held over_world = {}" by (simp add: over_world_def)
  from every_operation_ends [OF this] show ?thesis by blast
qed

text \<open>
  Whatever the threads of the service do in whatever order, nothing is taken out of the
  tables: an audit row stays as it was written, a mark stays, and a request keeps its id, its
  user, its justification, its creation time and its deadline; ids and marks stay unique.
\<close>

lemma interleaved_tables_grow:
  assumes "service_db E tabs" "all_tables (tabs (w_db w0))" "pool E (threads index files s) w0 (ps, w)"
  shows "(\<exists>new. t_audit (tabs (w_db w)) = t_audit (tabs (w_db w0)) @ new) \<and>
    (\<exists>new. t_notifs (tabs (w_db w)) = t_notifs (tabs (w_db w0)) @ new) \<and>
    (\<exists>rs new. t_requests (tabs (w_db w)) = rs @ new \<and> list_all2 same_columns (t_requests (tabs (w_db w0))) rs) \<and>
    distinct (map c_id (t_requests (tabs (w_db w)))) \<and> distinct (map notif_key (t_notifs (tabs (w_db w))))"
  using service_db.pool_grown [OF assms(1,3,2)] by (simp add: grown_def all_tables_def)

lemma demo_all_tables:
  "all_tables (fst (w_db over_world))" "all_tables (fst (w_db (pend_world faults)))"
  by (simp_all add: all_tables_def over_world_def pend_world_def ref_tables_def)

text \<open>The example: one tick that has run to its end.\<close>

lemma demo_pool:
  obtains w' where "pool ref_env (threads [] (\<lambda>_. healthz) (make_service ref_config)) over_world ([Ret ()], w')"
proof -
  let ?t = "tick (make_service ref_config)"
  have "pool ref_env (threads [] (\<lambda>_. healthz) (make_service ref_config)) over_world ([?t], over_world)"
    using pool_spawn [OF pool_init, of ?t "threads [] (\<lambda>_. healthz) (make_service ref_config)" ref_env over_world]
    by (simp add: threads_def)
  moreover have "w_held over_world = {}" by (simp add: over_world_def)
  from steps_complete [OF built.locked_tick(2) this]
  obtain n where "schedule ref_env (replicate n 0) ([?t], over_world) =
      Some ([Ret (fst (run ref_env ?t over_world))], snd (run ref_env ?t over_world))" by blast
  ultimately show thesis using that by (auto dest: pool_schedule)
qed

lemma interleaved_tables_grow_witness:
  "\<exists>w'. pool ref_env (threads [] (\<lambda>_. healthz) (make_service ref_config)) over_world ([Ret ()], w') \<and>
     2 \<le> length (t_requests (fst (w_db w')))"
proof (rule demo_pool)
  fix w' assume p: "pool ref_env (threads [] (\<lambda>_. healthz) (make_service ref_config)) over_world ([Ret ()], w')"
  from interleaved_tables_grow [OF reference_db.service_db_axioms demo_all_tables(1) p] obtain rs new where
    "t_requests (fst (w_db w')) = rs @ new" "list_all2 same_columns (t_requests (fst (w_db over_world))) rs"
    by blast
  then have "2 \<le> length (t_requests (fst (w_db w')))"
    by (auto simp: over_world_def ref_tables_def dest!: list_all2_lengthD)
  with p show ?thesis by blast
qed

text \<open>
  In every interleaving the service posts no more messages than it has set marks, and no
  two marks are of the same kind for the same request: each notification goes out at most once,
  also when two requests or a tick handle the same access request at the same time.
\<close>

lemma interleaved_posts_once:
  assumes "posting E tabs posts" "all_tables (tabs (w_db w0))"
    and "pool E (threads index files (make_service cfg)) w0 (ps, w)"
  shows "posts (w_other w) + length (t_notifs (tabs (w_db w0))) \<le> posts (w_other w0) + length (t_notifs (tabs (w_db w))) \<and>
    distinct (map notif_key (t_notifs (tabs (w_db w))))"
proof -
  have n: "has_notifs (tabs (w_db w0))" using assms(2) by (simp add: all_tables_def)
  have "service_db E tabs" using assms(1) by (simp add: posting_def service_db_def)
  from service_db.pool_grown [OF this assms(3,2)]
  have "distinct (map notif_key (t_notifs (tabs (w_db w))))" by (simp add: grown_def all_tables_def)
  moreover have "has_notifs (tabs (w_db w))"
    using service_db.pool_grown [OF \<open>service_db E tabs\<close> assms(3,2)] by (simp add: grown_def all_tables_def)
  ultimately show ?thesis
    using posting.pool_posts [OF assms(1,3) built.permits_threads [of _ index files cfg]] n
    by (auto simp: posting.mark_count_def [OF assms(1)] mark_len_def)
qed

lemma interleaved_posts_once_witness:
  "\<exists>w'. pool ref_env (threads [] (\<lambda>_. healthz) (make_service ref_config)) over_world ([Ret ()], w') \<and>
     o_posts (w_other w') \<le> length (t_notifs (fst (w_db w')))"
proof (rule demo_pool)
  fix w' assume p: "pool ref_env (threads [] (\<lambda>_. healthz) (make_service ref_config)) over_world ([Ret ()], w')"
  have "o_posts (w_other over_world) = 0" "t_notifs (fst (w_db over_world)) = []"
    by (simp_all add: over_world_def ref_tables_def)
  then have "o_posts (w_other w') \<le> length (t_notifs (fst (w_db w')))"
    using interleaved_posts_once [OF reference_posts.posting_axioms demo_all_tables(1) p] by simp
  with p show ?thesis by blast
qed

section \<open>What interleaving breaks\<close>

text \<open>
  The sweep works on the rows it has listed.  An approval that is granted between the listing
  and the write of the sweep is overwritten: the row says \<open>expired\<close>, with the columns of the
  approval empty again, and the membership stays.
\<close>

context service_up
begin

lemma expire_stale:
  assumes "fit w" "requests w (ID req) = Some q" "same_subject q req" "storable_req req"
    and r: "run E (expire_one s req) w = (u, w')"
  shows "fit w' \<and> requests w' = (requests w)(ID req \<mapsto> req\<lparr>Status := StatusExpired\<rparr>) \<and> members w' = members w"
proof -
  let ?q = "req\<lparr>Status := StatusExpired\<rparr>"
  obtain y w2 where 2: "run E (Update ?q) w = (y, w2)" by (rule prod.exhaust)
  have st: "same_subject q ?q" "storable_req ?q" using assms(3,4) by (simp_all add: same_subject_def storable_req_def)
  have q: "requests w (ID ?q) = Some q" using assms(2) by simp
  note a2 = Update_up [OF assms(1) q st 2]
  obtain l w3 where 3: "run E (log_line (''expired pending request '' @ ID ?q @ '' user='' @ Username ?q)) w2 = (l, w3)"
    by (rule prod.exhaust)
  have "fit w2" using a2 by blast
  note a3 = mute_fit [OF mute_log this 3]
  obtain z w4 where 4: "run E (audit s ''request_expired'' ''system'' (Username ?q) (ID ?q) (Justification ?q) ''request TTL elapsed'' False) w3 = (z, w4)"
    by (rule prod.exhaust)
  have "fit w3" using a3 by blast
  note a4 = audit_up_rule [OF this 4]
  obtain v w5 where 5: "run E (notifying s (\<lambda>n. RequestExpired n ?q)) w4 = (v, w5)" by (rule prod.exhaust)
  have "fit w4" using a4 by blast
  note a5 = mute_fit [OF mute_notifying [OF mute_messages(3)] this 5]
  have "w' = w5" using r 2 3 4 5 a2 unfolding expire_one_def Let_def by (simp add: run_bnd)
  then show ?thesis using a2 a3 a4 a5 by (simp add: stores_def)
qed

text \<open>The rest of a sweep that has listed one request, when no request is approved.\<close>

lemma stale_sweep:
  assumes "fit w" "requests w (ID req) = Some q" "same_subject q req" "storable_req req"
    and others: "\<And>i r. i \<noteq> ID req \<Longrightarrow> requests w i = Some r \<Longrightarrow> Status r \<noteq> StatusApproved"
    and r: "run E (bnd (for_each (expire_one s) [req]) (\<lambda>_. bnd (ActiveExpired now) (\<lambda>res. case res of
         Inl e \<Rightarrow> Ret (Inl e) | Inr rs \<Rightarrow> bnd (for_each (revoke_one s) rs) (\<lambda>_. Ret (Inr ()))))) w =
       (x :: error + unit, w')"
  shows "fit w' \<and> requests w' = (requests w)(ID req \<mapsto> req\<lparr>Status := StatusExpired\<rparr>) \<and> members w' = members w"
proof -
  obtain u w1 where 1: "run E (expire_one s req) w = (u, w1)" by (rule prod.exhaust)
  note e = expire_stale [OF assms(1-4) 1]
  obtain z w2 where 2: "run E (ActiveExpired now) w1 = (z, w2)" by (rule prod.exhaust)
  have fit1: "fit w1" using e by blast
  have "quiet (ActiveExpired now)" by (simp add: ActiveExpired_def byStatusBefore_def quiet_scan_rows)
  note st = quietD [OF this fitD(1) [OF fit1] 2]
  have so: "store_ok (tabs (w_db w1))" using fit1 by (simp add: fit_def fine_def)
  have "w' = w2"
  proof (cases z)
    case (Inl err)
    with r 1 2 show ?thesis by (simp add: run_bnd)
  next
    case (Inr rs)
    from active_ok [OF so 2 [unfolded Inr]]
    have set: "\<And>r. r \<in> set rs \<Longrightarrow> r \<in> ran (requests w1) \<and> active_overdue now r" by simp
    have "rs = []"
    proof (rule ccontr)
      assume "rs \<noteq> []"
      then have "hd rs \<in> ran (requests w1) \<and> Status (hd rs) = StatusApproved" using set [of "hd rs"] by (simp add: overdue_def)
      then obtain i where i: "requests w1 i = Some (hd rs)" "Status (hd rs) = StatusApproved" by (auto simp: ran_def)
      show False
      proof (cases "i = ID req")
        case True
        with i e have "hd rs = req\<lparr>Status := StatusExpired\<rparr>" by simp
        with i(2) show False by simp
      next
        case False
        with i e others [of i "hd rs"] show False by simp
      qed
    qed
    with r 1 2 Inr show ?thesis by (simp add: run_bnd)
  qed
  moreover have "fit w2" using st run_healthy [OF 2 fitD(2) [OF fit1]] by (simp add: fit_def still_def)
  ultimately show ?thesis using e st by (simp add: still_def)
qed

end

interpretation ref_disciplined: disciplined_service ref_service
  by unfold_locales
    (auto simp: disciplined_def ref_service_def NewService_def ref_groups_def ref_call_def intro!: locked_bnd permits_bnd)

text \<open>The example: the deadline of the request is the moment the approval reads; the sweep reads
  the clock a millisecond later.\<close>

definition race_request :: request where
  "race_request = ref_request ''r1'' StatusPending (noon - 1) None"

definition race_world :: "(engine, directory, outside) world" where
  "race_world = ref_world [race_request] [] demo_members [] (noon - 1)"

definition approve_call :: web_request where
  "approve_call = (header_request ''bob'' notes_body)\<lparr>rq_path := [''api'', ''v1'', ''requests'', ''r1'', ''approve'']\<rparr>"

lemma race_request_simps [simp]:
  "Status race_request = StatusPending" "RequestExpiresAt race_request = noon - 1" "ID race_request = ''r1''"
  "Username race_request = ''alice''"
  by (simp_all add: race_request_def)

lemma race_request_ok: "list_all storable_req [race_request]" "sane (noon - 1)"
proof -
  have "storable (noon - 1)" by (simp add: noon_def storable_def days_before_year_def Second_def)
  then show "list_all storable_req [race_request]" by (simp add: race_request_def ref_request_storable)
qed (simp add: noon_def sane_def)

lemma race_fit: "reference_service.fit race_world"
  using ref_world_fine [OF race_request_ok(1) _ race_request_ok(2), of "[]" demo_members "[]"]
  by (simp add: reference_service.fit_def engine_healthy_def race_world_def)

lemma race_stored: "reqs (fst (w_db race_world)) = [''r1'' \<mapsto> race_request]"
  using ref_tables_ok(3) [OF race_request_ok(1)] by (simp add: race_world_def race_request_def)

lemma approve_call_thread:
  "http_thread [] (\<lambda>_. healthz) ref_service approve_call = bnd (handleApprove ref_service approve_call ''r1'') (\<lambda>_. Ret ())"
  by (simp add: http_thread_def NewRouter_def approve_call_def header_request_def is_get_def is_post_def Let_def)

lemma approve_call_actor: "run ref_env (actor ref_service approve_call) w = (''bob'', w)"
proof -
  have "TrimSpace ''bob'' = ''bob''" by code_simp
  then show ?thesis
    by (simp add: actor_def Actor_def ref_service_def NewService_def ref_config_def approve_call_def header_request_def
        lookup_def)
qed

lemma race_in_group:
  "run ref_env (kc_InGroup (sv_kc ref_service) ''bob'' ''admin-permanent'') race_world = (Inr True, race_world)"
  by (simp add: ref_service_def NewService_def ref_groups_def ref_call_def ref_env_def ref_keycloak_def yes_no_def
      run_simps race_world_def demo_members_def)

lemma race_get: "run ref_env (Get ''r1'') race_world = (Inr race_request, race_world)"
proof -
  obtain x w' where r: "run ref_env (Get ''r1'') race_world = (x, w')" by (rule prod.exhaust)
  have "reqs (fst (w_db race_world)) ''r1'' = Some race_request" by (simp add: race_stored)
  from reference_service.Get_up [OF race_fit this r] have "x = Inr race_request" by blast
  moreover have "w' = race_world"
    using r by (simp add: Get_def run_simps ref_env_def engine_query_def split: if_splits)
  ultimately show ?thesis using r by simp
qed

text \<open>The world after the approval has read the clock, and after the sweep has.\<close>

definition race_later :: "nat \<Rightarrow> (engine, directory, outside) world" where
  "race_later k = race_world\<lparr>w_other := \<lparr>o_time = noon - 1 + 1000000 * int k, o_count = 0, o_posts = 0\<rparr>\<rparr>"

lemma race_clock:
  "run ref_env time_now race_world = (noon - 1, race_later 1)"
  "run ref_env time_now (race_later 1) = (noon + 999999, race_later 2)"
  by (simp_all add: run_simps race_later_def race_world_def ref_env_def ref_now_def noon_def)

lemma race_overdue: "pending_overdue (noon + 999999) race_request"
proof -
  have "storable (noon - 1)" "storable (noon + 999999)"
    by (simp_all add: noon_def storable_def days_before_year_def Second_def)
  moreover have "(noon - 1) div Second < (noon + 999999) div Second" by (simp add: noon_def Second_def)
  ultimately have "text_le (FormatRFC3339Nano (noon - 1)) (FormatRFC3339Nano (noon + 999999))"
    using Format_less by (simp add: text_le_iff)
  then show ?thesis by (simp add: overdue_def race_request_def)
qed

lemma race_held: "w_held race_world = {}" "w_held (race_later k) = {}"
  by (simp_all add: race_later_def race_world_def)

text \<open>One part of a thread, with what it leaves.\<close>

lemma race_part:
  assumes "reaches E c ([x, y], w)" "w_held w = {}" "run E p w = (a, w')"
  shows "x = bnd p f \<Longrightarrow> locked None p \<Longrightarrow> reaches E c ([f a, y], w')"
    and "y = bnd p f \<Longrightarrow> locked None p \<Longrightarrow> reaches E c ([x, f a], w')"
  using reaches_part [of p w 0 "[x, y]" f E a w'] reaches_part [of p w 1 "[x, y]" f E a w'] assms
  by (auto intro: reaches_trans)

lemma race_approve:
  "reaches ref_env ([http_thread [] (\<lambda>_. healthz) ref_service approve_call, t], race_world)
     ([bnd (grant ref_service race_request ''bob'' ''ticket 4711'' (noon - 1)) (\<lambda>_. Ret ()), t], race_later 1)"
proof -
  let ?done = "\<lambda>_ :: web_response. Ret () :: unit prog"
  let ?c = "([http_thread [] (\<lambda>_. healthz) ref_service approve_call, t], race_world)"
  let ?decide = "\<lambda>who notes req now. if now > RequestExpiresAt req then expire_late ref_service req
      else grant ref_service req who notes now"
  let ?found = "\<lambda>who notes res. case res of Inl e \<Rightarrow> Ret (writeErr StatusNotFound e) | Inr req \<Rightarrow>
      (if Status req \<noteq> StatusPending then Ret (writeErr StatusConflict (Msg (''request status is '' @ Status req)))
       else bnd time_now (?decide who notes req))"
  let ?entitled = "\<lambda>who res. case res of Inl e \<Rightarrow> Ret (writeErr StatusBadGateway e) | Inr member \<Rightarrow>
      (if \<not> member then Ret (writeErr StatusForbidden
          (Msg (''actor '' @ who @ '' is not in '' @ GroupPermanent (sv_cfg ref_service))))
       else (case read_approve (rq_body approve_call) of
           Inl (code, e) \<Rightarrow> Ret (writeErr code e)
         | Inr notes \<Rightarrow> bnd (Get ''r1'') (?found who notes)))"
  have start: "http_thread [] (\<lambda>_. healthz) ref_service approve_call =
      bnd (actor ref_service approve_call) (\<lambda>who. bnd
        (if who = [] then Ret (writeErr StatusUnauthorized (Msg ''authentication required''))
         else bnd (kc_InGroup (sv_kc ref_service) who (GroupPermanent (sv_cfg ref_service))) (?entitled who))
        ?done)"
    unfolding approve_call_thread handleApprove_def bnd_assoc by (rule refl)
  have nt: "read_approve (rq_body approve_call) = Inr ''ticket 4711''"
    using demo_notes by (simp add: approve_call_def)
  have 0: "reaches ref_env ?c ?c" unfolding reaches_def by (rule exI [of _ "[]"]) simp
  from race_part(1) [OF 0 race_held(1) approve_call_actor start locked_helpers(2)]
  have "reaches ref_env ?c ([bnd (bnd (kc_InGroup (sv_kc ref_service) ''bob'' ''admin-permanent'') (?entitled ''bob'')) ?done, t],
      race_world)" by simp
  from race_part(1) [OF this race_held(1) race_in_group bnd_assoc ref_disciplined.locked_kc(1)]
  have "reaches ref_env ?c ([bnd (bnd (Get ''r1'') (?found ''bob'' ''ticket 4711'')) ?done, t], race_world)"
    by (simp add: nt)
  from race_part(1) [OF this race_held(1) race_get bnd_assoc locked_store(2)]
  have "reaches ref_env ?c ([bnd (bnd time_now (?decide ''bob'' ''ticket 4711'' race_request)) ?done, t], race_world)" by simp
  from race_part(1) [OF this race_held(1) race_clock(1) bnd_assoc] show ?thesis by simp
qed

text \<open>What is left of the sweep when it has listed the request.\<close>

definition race_rest :: "unit prog" where
  "race_rest =
     bnd (bnd (for_each (expire_one ref_service) [race_request]) (\<lambda>_.
          bnd (ActiveExpired (noon + 999999)) (\<lambda>res. case res of
            Inl e \<Rightarrow> Ret (Inl e)
          | Inr rs \<Rightarrow> bnd (for_each (revoke_one ref_service) rs) (\<lambda>_. Ret (Inr ())))))
       (\<lambda>res. case res of Inl e \<Rightarrow> log_line (''reconcile: '' @ error_text e) | Inr _ \<Rightarrow> Ret ())"

lemma race_later_world: "race_later k = ref_world [race_request] [] demo_members [] (noon - 1 + 1000000 * int k)"
  by (simp add: race_later_def race_world_def ref_world_def)

lemma race_later_ok:
  assumes "k \<le> 2"
  shows "reference_service.fit (race_later k)" "reqs (fst (w_db (race_later k))) = [''r1'' \<mapsto> race_request]"
proof -
  have "sane (noon - 1 + 1000000 * int k)" using assms by (simp add: noon_def sane_def)
  then show "reference_service.fit (race_later k)"
    using ref_world_fine [OF race_request_ok(1), of "noon - 1 + 1000000 * int k" "[]" demo_members "[]"]
    by (simp add: reference_service.fit_def engine_healthy_def race_later_world)
  show "reqs (fst (w_db (race_later k))) = [''r1'' \<mapsto> race_request]"
    using race_stored by (simp add: race_later_def)
qed

lemma race_lists: "run ref_env (PendingExpired (noon + 999999)) (race_later 2) = (Inr [race_request], race_later 2)"
proof -
  obtain x w' where r: "run ref_env (PendingExpired (noon + 999999)) (race_later 2) = (x, w')" by (rule prod.exhaust)
  note ok = race_later_ok [of 2]
  have so: "store_ok (fst (w_db (race_later 2)))" and h: "engine_healthy (w_db (race_later 2))"
    using ok(1) by (simp_all add: reference_service.fit_def reference.fine_def)
  from reference_db.pending_up [OF h so r] obtain rs where x: "x = Inr rs" by (cases x) auto
  from reference_db.pending_ok [OF so r [unfolded x]]
  have "distinct (map ID rs)" "set rs = {r \<in> ran [''r1'' \<mapsto> race_request]. pending_overdue (noon + 999999) r}"
    by (simp_all add: ok(2))
  then have rs: "distinct rs" "set rs = {race_request}" using race_overdue by (auto simp: distinct_map)
  then have "rs = [race_request]" by (cases rs) (auto simp: insert_eq_iff subset_singleton_iff)
  moreover have "w' = race_later 2"
    using r by (simp add: PendingExpired_def byStatusBefore_def scan_rows_def run_simps ref_env_def engine_query_def
        split: if_splits)
  ultimately show ?thesis using r x by simp
qed

lemma race_sweep:
  assumes "reaches ref_env c ([q, tick ref_service], race_later 1)"
  shows "reaches ref_env c ([q, race_rest], race_later 2)"
proof -
  let ?report = "\<lambda>res. case res of Inl e \<Rightarrow> log_line (''reconcile: '' @ error_text e) | Inr _ \<Rightarrow> Ret ()"
  let ?listed = "\<lambda>now res. case res of Inl e \<Rightarrow> Ret (Inl e) | Inr pending \<Rightarrow>
      bnd (for_each (expire_one ref_service) pending) (\<lambda>_. bnd (ActiveExpired now) (\<lambda>res. case res of
         Inl e \<Rightarrow> Ret (Inl e) | Inr rs \<Rightarrow> bnd (for_each (revoke_one ref_service) rs) (\<lambda>_. Ret (Inr ()))))"
  have "tick ref_service = bnd time_now (\<lambda>now. bnd (bnd (PendingExpired now) (?listed now)) ?report)"
    unfolding tick_def Reconcile_def bnd_assoc by (rule refl)
  moreover have "locked None time_now" by simp
  ultimately have "reaches ref_env c ([q, (\<lambda>now. bnd (bnd (PendingExpired now) (?listed now)) ?report) (noon + 999999)], race_later 2)"
    by (rule race_part(2) [OF assms race_held(2) race_clock(2)])
  then
  have "reaches ref_env c ([q, bnd (bnd (PendingExpired (noon + 999999)) (?listed (noon + 999999))) ?report], race_later 2)" .
  from race_part(2) [OF this race_held(2) race_lists bnd_assoc locked_store(5)] show ?thesis
    unfolding race_rest_def by (simp only: sum.case)
qed

lemma race_ends:
  assumes "reaches ref_env c
      ([bnd (grant ref_service race_request ''bob'' ''ticket 4711'' (noon - 1)) (\<lambda>_. Ret ()), race_rest], race_later 2)"
  obtains w' where "reaches ref_env c ([Ret (), Ret ()], w')" "reference_service.fit w'"
    "reqs (fst (w_db w')) = [''r1'' \<mapsto> race_request\<lparr>Status := StatusExpired\<rparr>]"
    "(''alice'', ''admin-active'') \<in> set (d_members (w_kc w'))"
proof -
  let ?q = "approved_request ref_config race_request ''bob'' ''ticket 4711'' (noon - 1)"
  obtain resp w1 where g: "run ref_env (grant ref_service race_request ''bob'' ''ticket 4711'' (noon - 1)) (race_later 2) = (resp, w1)"
    by (rule prod.exhaust)
  have l: "locked None (grant ref_service race_request ''bob'' ''ticket 4711'' (noon - 1))"
    by (rule ref_disciplined.locked_grant)
  from race_part(1) [OF assms race_held(2) g refl l] have r1: "reaches ref_env c ([Ret (), race_rest], w1)" .
  have h1: "w_held w1 = {}" using run_held [OF l g] race_held(2) by simp
  note ok = race_later_ok [of 2]
  have "reqs (fst (w_db (race_later 2))) (ID race_request) = Some race_request"
    "Username race_request \<notin> set (d_broken (w_kc (race_later 2)))"
    by (simp_all add: ok(2)) (simp add: race_later_world)
  from reference_service.grant_up [OF ok(1) this(1) race_request_ok(2) this(2) g]
  have g1: "reference_service.fit w1" "reqs (fst (w_db w1)) = [''r1'' \<mapsto> ?q]" 
    "(''alice'', ''admin-active'') \<in> set (d_members (w_kc w1))" by (simp_all add: ok(2))
  let ?p = "bnd (for_each (expire_one ref_service) [race_request]) (\<lambda>_.
      bnd (ActiveExpired (noon + 999999)) (\<lambda>res. case res of
         Inl e \<Rightarrow> Ret (Inl e) | Inr rs \<Rightarrow> bnd (for_each (revoke_one ref_service) rs) (\<lambda>_. Ret (Inr ()))))"
  let ?report = "\<lambda>res. case res of Inl e \<Rightarrow> log_line (''reconcile: '' @ error_text e) | Inr _ \<Rightarrow> Ret ()"
  obtain x w2 where sw: "run ref_env ?p w1 = (x, w2)" by (rule prod.exhaust)
  have lp: "locked None ?p"
    by (intro locked_bnd locked_for_each ref_disciplined.locked_sweep locked_store)
      (auto split: sum.split intro!: locked_bnd locked_for_each ref_disciplined.locked_sweep)
  from race_part(2) [OF r1 h1 sw race_rest_def lp] have r2: "reaches ref_env c ([Ret (), ?report x], w2)" .
  have h2: "w_held w2 = {}" using run_held [OF lp sw] h1 by simp
  obtain u w3 where rep: "run ref_env (?report x) w2 = (u, w3)" by (rule prod.exhaust)
  have lr: "locked None (?report x)" by (simp split: sum.split)
  from race_part(2) [OF r2 h2 rep bnd_Ret [symmetric] lr] have r3: "reaches ref_env c ([Ret (), Ret ()], w3)" by simp
  have stored: "reqs (fst (w_db w1)) (ID race_request) = Some ?q" "same_subject ?q race_request" "storable_req race_request"
    using g1(2) race_request_ok(1) by (simp_all add: approved_request_def same_subject_def)
  have others: "Status r \<noteq> StatusApproved" if "i \<noteq> ID race_request" "reqs (fst (w_db w1)) i = Some r" for i r
    using that g1(2) by simp
  note st = reference_service.stale_sweep [OF g1(1) stored others sw]
  have w3: "w_db w3 = w_db w2" "w_kc w3 = w_kc w2" "reference_service.fit w3"
    using rep st by (auto simp: run_simps reference_service.fit_def reference.fine_def split: sum.splits)
  show thesis
  proof (rule that [OF r3 w3(3)])
    show "reqs (fst (w_db w3)) = [''r1'' \<mapsto> race_request\<lparr>Status := StatusExpired\<rparr>]"
      using st g1(2) w3(1) by simp
    show "(''alice'', ''admin-active'') \<in> set (d_members (w_kc w3))" using st g1(3) w3(2) by simp
  qed
qed

text \<open>
  C13: the sweep overwrites an approval that is granted while it runs.  There is a schedule of
  one approval over HTTP, sent before the deadline, and one tick of the worker after which both
  have ended, the approval was granted, the row of the request says \<open>expired\<close> and nothing of
  the approval -- no approver, no end --, and its user is in the active group, where no number
  of further ticks takes the user out.
\<close>

theorem sweep_overwrites_approval:
  "\<exists>w'. reaches ref_env ([http_thread [] (\<lambda>_. healthz) ref_service approve_call, tick ref_service], race_world)
       ([Ret (), Ret ()], w') \<and>
     reqs (fst (w_db w')) = [''r1'' \<mapsto> race_request\<lparr>Status := StatusExpired\<rparr>] \<and>
     (\<forall>n. (''alice'', ''admin-active'') \<in> set (d_members (w_kc (snd (run ref_env (Run ref_service (replicate n Tick)) w')))))"
proof -
  obtain w' where w': "reaches ref_env ([http_thread [] (\<lambda>_. healthz) ref_service approve_call, tick ref_service], race_world)
      ([Ret (), Ret ()], w')" "reference_service.fit w'"
    "reqs (fst (w_db w')) = [''r1'' \<mapsto> race_request\<lparr>Status := StatusExpired\<rparr>]"
    "(''alice'', ''admin-active'') \<in> set (d_members (w_kc w'))"
    by (rule race_ends [OF race_sweep [OF race_approve]])
  have "(''alice'', ''admin-active'') \<in> set (d_members (w_kc (snd (run ref_env (Run ref_service (replicate n Tick)) w'))))" for n
  proof -
    obtain u v where t: "run ref_env (Run ref_service (replicate n Tick)) w' = (u, v)" by (rule prod.exhaust)
    have "Status q \<noteq> StatusApproved" if "reqs (fst (w_db w')) i = Some q" for i q
      using that w'(3) by (auto split: if_splits)
    with reference.ticks_keep_orphan [OF _ t, of "''alice''"] w'(2,4) t show ?thesis
      by (simp add: reference_service.fit_def)
  qed
  with w'(1,3) show ?thesis by blast
qed

end
