(* ===== verification/StartSpec.thy ===== *)
theory StartSpec
  imports StoreSpec RestReference
begin

text \<open>
  The start of the program: the configuration that comes out of any environment, the database
  that is opened, and the service that then runs on it, with the real client of Keycloak.
\<close>

section \<open>The configuration\<close>

text \<open>
  C40: what a configuration can be, whatever the environment holds.  The addresses the service
  puts paths behind -- its own, the one of Keycloak for the client, and the one for the browser --
  end in no slash, because the last two are trimmed where they are used; every setting with a
  default, the issuer and the address logins return to are never empty; the three durations are the
  parsed text, or the default for one that does not parse, and fit 64 bits.  But the address of
  Keycloak and the configured return address are stored as they are, with a slash at the end if
  they have one, the own address may be empty, and nothing asks that a duration be positive, so the
  period of the worker's ticker may be zero.
\<close>

theorem config_values:
  "(\<forall>p. p @ ''/'' \<notin> {PublicURL (FromEnv os), PublicBaseURL (FromEnv os), slashless (FromEnv os),
     TrimRightSlash (BrowserIssuer (FromEnv os))}) \<and>
   [] \<notin> {ListenAddr (FromEnv os), DBPath (FromEnv os), BaseURL (FromEnv os), Realm (FromEnv os), ClientID (FromEnv os),
     OIDCClientID (FromEnv os), SessionSecret (FromEnv os), GroupEligible (FromEnv os), GroupActive (FromEnv os),
     GroupPermanent (FromEnv os), GroupBreakGlass (FromEnv os), BrowserIssuer (FromEnv os), RedirectURL (FromEnv os)} \<and>
   RequestTTL (FromEnv os) = (case ParseDuration (os ''REQUEST_TTL'') of Inl e \<Rightarrow> Hour | Inr d \<Rightarrow> d) \<and>
   ActiveTTL (FromEnv os) = (case ParseDuration (os ''ACTIVE_TTL'') of Inl e \<Rightarrow> 9 * Hour | Inr d \<Rightarrow> d) \<and>
   PollInterval (FromEnv os) = (case ParseDuration (os ''POLL_INTERVAL'') of Inl e \<Rightarrow> 30 * Second | Inr d \<Rightarrow> d) \<and>
   {RequestTTL (FromEnv os), ActiveTTL (FromEnv os), PollInterval (FromEnv os)} \<subseteq> {- (2 ^ 63) ..< 2 ^ 63} \<and>
   (\<exists>os'. BaseURL (FromEnv os') = ''/'' \<and> RedirectURL (FromEnv os') = ''/'' \<and> PublicURL (FromEnv os') = []) \<and>
   (\<exists>os'. PollInterval (FromEnv os') = 0)"
proof (intro conjI)
  have slash: "p @ ''/'' \<noteq> TrimRightSlash s" for s p
    using TrimRightSlash_no_slash [of s] by (metis append_is_Nil_conv last_snoc list.distinct(1))
  show "\<forall>p. p @ ''/'' \<notin> {PublicURL (FromEnv os), PublicBaseURL (FromEnv os), slashless (FromEnv os),
     TrimRightSlash (BrowserIssuer (FromEnv os))}"
    using slash by (simp add: FromEnv_def slashless_def)
  show "[] \<notin> {ListenAddr (FromEnv os), DBPath (FromEnv os), BaseURL (FromEnv os), Realm (FromEnv os), ClientID (FromEnv os),
     OIDCClientID (FromEnv os), SessionSecret (FromEnv os), GroupEligible (FromEnv os), GroupActive (FromEnv os),
     GroupPermanent (FromEnv os), GroupBreakGlass (FromEnv os), BrowserIssuer (FromEnv os), RedirectURL (FromEnv os)}"
  proof -
    have g: "d \<noteq> [] \<Longrightarrow> getenv os k d \<noteq> []" for k d by (simp add: getenv_def)
    have "[] \<noteq> BrowserIssuer (FromEnv os)" "[] \<noteq> RedirectURL (FromEnv os)"
      using g [of "''http://keycloak.keycloak.svc.cluster.local:8080''" "''KC_BASE_URL''"]
      by (auto simp: BrowserIssuer_def RedirectURL_def FromEnv_def)
    then show ?thesis unfolding insert_iff empty_iff de_Morgan_disj by (simp add: FromEnv_def g [symmetric])
  qed
  have empty: "\<exists>e. ParseDuration [] = Inl e" by (simp add: ParseDuration_def)
  show "RequestTTL (FromEnv os) = (case ParseDuration (os ''REQUEST_TTL'') of Inl e \<Rightarrow> Hour | Inr d \<Rightarrow> d)"
    "ActiveTTL (FromEnv os) = (case ParseDuration (os ''ACTIVE_TTL'') of Inl e \<Rightarrow> 9 * Hour | Inr d \<Rightarrow> d)"
    "PollInterval (FromEnv os) = (case ParseDuration (os ''POLL_INTERVAL'') of Inl e \<Rightarrow> 30 * Second | Inr d \<Rightarrow> d)"
    using empty by (auto simp: FromEnv_def durationEnv_def)
  show "{RequestTTL (FromEnv os), ActiveTTL (FromEnv os), PollInterval (FromEnv os)} \<subseteq> {- (2 ^ 63) ..< 2 ^ 63}"
    using durationEnv_range [of Hour os "''REQUEST_TTL''"] durationEnv_range [of "9 * Hour" os "''ACTIVE_TTL''"]
      durationEnv_range [of "30 * Second" os "''POLL_INTERVAL''"]
    by (simp add: FromEnv_def duration_defs)
  show "\<exists>os'. BaseURL (FromEnv os') = ''/'' \<and> RedirectURL (FromEnv os') = ''/'' \<and> PublicURL (FromEnv os') = []"
    by (rule exI [of _ "\<lambda>_. ''/''"]) (simp add: FromEnv_def getenv_def RedirectURL_def TrimRightSlash_def)
  have zero: "ParseDuration ''0'' = Inr 0" by (simp add: ParseDuration_def)
  show "\<exists>os'. PollInterval (FromEnv os') = 0"
    by (rule exI [of _ "\<lambda>_. ''0''"]) (simp add: FromEnv_def durationEnv_def zero)
qed

section \<open>The start\<close>

text \<open>A database the program may be started on: a new file, or one it has left.\<close>

definition startable :: "tables \<Rightarrow> bool" where
  "startable t \<longleftrightarrow> t = empty_tables \<or> (store_ok t \<and> audit_ok t \<and> notif_ok t)"

lemma opened_good:
  assumes "opened t t'" "startable t"
  shows "store_ok t' \<and> audit_ok t' \<and> notif_ok t' \<and> (t = empty_tables \<longrightarrow> reqs t' = Map.empty)"
  using assms(2) unfolding startable_def
proof
  assume t: "t = empty_tables"
  with assms(1) have "t_requests t' = []" "t_audit t' = []" "t_notifs t' = []"
    "has_requests t'" "has_notes t'" "has_audit t'" "has_notifs t'"
    by (simp_all add: opened_def empty_tables_def)
  then show ?thesis
    by (simp add: store_ok_def audit_ok_def notif_ok_def reqs_def requests_of_def)
next
  assume t: "store_ok t \<and> audit_ok t \<and> notif_ok t"
  then have has: "has_requests t" "has_notes t" "has_audit t" "has_notifs t"
    by (simp_all add: store_ok_def audit_ok_def notif_ok_def)
  with assms(1) have "t' = t" by (simp add: opened_def)
  moreover have "t \<noteq> empty_tables" using has by (auto simp: empty_tables_def)
  ultimately show ?thesis using t by simp
qed

context service_db
begin

lemma migrate_frame:
  assumes "run E migrate w = (Inr u, w')"
  shows "w_kc w' = w_kc w \<and> w_other w' = w_other w \<and> w_client w' = w_client w \<and> w_held w' = w_held w"
proof -
  have one: "w_kc w' = w_kc w \<and> w_other w' = w_other w \<and> w_client w' = w_client w \<and> w_held w' = w_held w"
    if "run E (exec_only st) w = (x, w')" for st and w w' :: "('d, 'k, 'o) world" and x
    using that by (auto simp: exec_only_def run_simps split: prod.splits)
  have last: "w_kc w' = w_kc w \<and> w_other w' = w_other w \<and> w_client w' = w_client w \<and> w_held w' = w_held w"
    if "run E migrateApprovalNotes w = (x, w')" for w w' :: "('d, 'k, 'o) world" and x
    using that by (auto simp: migrateApprovalNotes_def run_simps split: prod.splits)
  from assms obtain w1 w2 w3 where "run E (exec_only CreateTableRequests) w = (Inr (), w1)"
    "run E (exec_only CreateTableAudit) w1 = (Inr (), w2)"
    "run E (exec_only CreateTableNotifications) w2 = (Inr (), w3)" "run E migrateApprovalNotes w3 = (Inr (), w')"
    by (rule migrate_steps)
  with one last show ?thesis by metis
qed

text \<open>What a start that succeeds has done: the database opened, the memories set up, one sweep.\<close>

lemma main_start_runs:
  assumes r: "run E (main_start sql_Open os) w = (Some s, w1)"
  obtains wc y wd where "s = make_service (FromEnv os)"
    "opened (tabs (w_db w)) (tabs (w_db wc))" "w_kc wc = w_kc w" "w_other wc = w_other w" "w_client wc = new_client_mem"
    "w_held wc = w_held w" "run E (Reconcile s) wc = (y, wd)"
    "w_db w1 = w_db wd" "w_kc w1 = w_kc wd" "w_other w1 = w_other wd" "w_client w1 = w_client wd" "w_held w1 = w_held wd"
proof -
  let ?s = "make_service (FromEnv os)"
  obtain u wa where a: "run E (log_line (starting_line (FromEnv os))) w = (u, wa)" by (rule prod.exhaust)
  obtain x wb where b: "run E migrate wa = (x, wb)" by (rule prod.exhaust)
  have none: "sql_Open (DBPath (FromEnv os)) = None"
    using r a by (cases "sql_Open (DBPath (FromEnv os))") (auto simp: main_start_def Open_def run_simps Let_def)
  have x: "x = Inr ()" using r a b none by (cases x) (auto simp: main_start_def Open_def run_simps Let_def)
  let ?wb = "wb\<lparr>w_client := new_client_mem, w_manager := new_manager_mem\<rparr>"
  obtain v wc where c: "run E (log_line (''notify webhook enabled='' @ print_bool (Enabled (sv_notify ?s)))) ?wb = (v, wc)"
    by (rule prod.exhaust)
  obtain y wd where d: "run E (Reconcile ?s) wc = (y, wd)" by (rule prod.exhaust)
  have fin: "s = ?s" "w1 = (case y of Inl e \<Rightarrow> wd\<lparr>w_log := w_log wd @ [''startup reconcile warning: '' @ error_text e]\<rparr> | Inr _ \<Rightarrow> wd)"
    using r a b c d x none by (auto simp: main_start_def Open_def run_simps Let_def split: sum.splits)
  have wa: "wa = w\<lparr>w_log := w_log w @ [starting_line (FromEnv os)]\<rparr>" using a by (simp add: run_simps)
  have wb: "w_kc wb = w_kc w" "w_other wb = w_other w" "w_held wb = w_held w" "opened (tabs (w_db w)) (tabs (w_db wb))"
    using migrate_frame [OF b [unfolded x]] migrate_opens [OF b [unfolded x]] wa by simp_all
  have wc: "w_db wc = w_db wb" "w_kc wc = w_kc wb" "w_other wc = w_other wb" "w_client wc = new_client_mem"
    "w_held wc = w_held wb"
    using c by (auto simp: run_simps)
  have w1: "w_db w1 = w_db wd" "w_kc w1 = w_kc wd" "w_other w1 = w_other wd" "w_client w1 = w_client wd"
    "w_held w1 = w_held wd"
    using fin(2) by (auto split: sum.splits)
  show thesis by (rule that [OF fin(1)]) (use wb wc w1 d fin(1) in simp_all)
qed

end

context pim
begin

lemma main_start_fine:
  assumes os: "cfg = FromEnv os" and w: "startable (tabs (w_db w))" "fair (w_other w)"
    and r: "run E (main_start sql_Open os) w = (Some s, w1)"
  shows "s = make_service cfg \<and> fine w1 \<and> (tabs (w_db w) = empty_tables \<longrightarrow> requests w1 = Map.empty) \<and>
    (\<forall>u g. g \<noteq> GroupActive cfg \<longrightarrow> ((u, g) \<in> members w1 \<longleftrightarrow> (u, g) \<in> members w)) \<and> members w1 \<subseteq> members w"
proof -
  obtain wc y wd where st: "s = make_service (FromEnv os)"
    "opened (tabs (w_db w)) (tabs (w_db wc))" "w_kc wc = w_kc w" "w_other wc = w_other w" "w_client wc = new_client_mem"
    "w_held wc = w_held w" and d: "run E (Reconcile s) wc = (y, wd)"
    and w1: "w_db w1 = w_db wd" "w_kc w1 = w_kc wd" "w_other w1 = w_other wd" "w_client w1 = w_client wd"
    "w_held w1 = w_held wd" by (rule main_start_runs [OF r])
  note good = opened_good [OF st(2) w(1)]
  have fine: "fine wc" using good w(2) st by (simp add: fine_def ids_ok_def new_client_mem_def)
  note d' = d [unfolded st(1), folded os]
  note p = properD [OF reconcile_proper [OF fine d']]
  have "requests w1 = Map.empty" if "tabs (w_db w) = empty_tables"
  proof
    fix i
    have "requests wc = Map.empty" using good that by simp
    with reconcile_effect [OF fine d'] w1(1) show "requests w1 i = None" by auto
  qed
  moreover have "fine w1" using p(1) w1 by (simp add: fine_def)
  moreover have "members w1 \<subseteq> members w" using reconcile_effect [OF fine d'] w1(2) st(3) by auto
  moreover have "sv_cfg (make_service cfg) = cfg" by (simp add: make_service_def NewService_def)
  ultimately show ?thesis using p(3) w1(2) st(3) st(1) os by simp
qed

lemma started_served:
  assumes "(serves E (make_service cfg))\<^sup>*\<^sup>* w1 w2" "fine w1"
  shows "store_ok (tabs (w_db w2)) \<and> audit_ok (tabs (w_db w2)) \<and> notif_ok (tabs (w_db w2)) \<and>
    (\<forall>u g. g \<noteq> GroupActive cfg \<longrightarrow> ((u, g) \<in> members w2 \<longleftrightarrow> (u, g) \<in> members w1))"
proof -
  have "sv_cfg (make_service cfg) = cfg" by (simp add: make_service_def NewService_def)
  with served_proper [OF assms] show ?thesis by (simp add: fine_def)
qed

end

text \<open>
  The program that starts on a new or a well-formed database, with a Keycloak server that
  keeps its contract, runs the service of its configuration on well-formed tables, and so do
  any requests and ticks that follow: a new database starts with no request, and from the start
  on no membership but those of the active group has changed.
\<close>

lemma started_service_is_sound:
  assumes "pim E tabs fair (FromEnv os) user_id group_id in_grp"
    and "startable (tabs (w_db w))" "fair (w_other w)"
    and "run E (main_start sql_Open os) w = (Some s, w1)" "(serves E s)\<^sup>*\<^sup>* w1 w2"
  shows "s = make_service (FromEnv os) \<and>
    store_ok (tabs (w_db w2)) \<and> audit_ok (tabs (w_db w2)) \<and> notif_ok (tabs (w_db w2)) \<and>
    (tabs (w_db w) = empty_tables \<longrightarrow> reqs (tabs (w_db w1)) = Map.empty) \<and>
    (\<forall>u g. g \<noteq> GroupActive (FromEnv os) \<longrightarrow> ((u, g) \<in> in_grp (w_kc w2) \<longleftrightarrow> (u, g) \<in> in_grp (w_kc w)))"
proof -
  note m = pim.main_start_fine [OF assms(1) refl assms(2-4)]
  then have s: "s = make_service (FromEnv os)" by blast
  show ?thesis
    using m pim.started_served [OF assms(1) assms(5) [unfolded s]] s by blast
qed

definition demo_os :: environment where
  "demo_os k =
     (if k = ''PUBLIC_URL'' then ''http://pim'' else if k = ''KC_BASE_URL'' then ''http://kc''
      else if k = ''OIDC_ENABLED'' then ''no'' else if k = ''SESSION_SECRET'' then ''secret''
      else if k = ''NOTIFY_WEBHOOK_URL'' then ''http://hook'' else [])"

lemma demo_os: "FromEnv demo_os = ref_config"
proof -
  have "TrimRightSlash ''http://pim'' = ''http://pim''" "TrimRightSlash [] = []" "TrimSpace ''http://hook'' = ''http://hook''"
    "ToLower (TrimSpace ''no'') = ''no''" "ToLower (TrimSpace []) = []"
    by code_simp+
  then show ?thesis
    by (simp add: FromEnv_def demo_os_def ref_config_def getenv_def durationEnv_def boolEnv_def duration_defs)
qed

text \<open>A new database and a server where bob is a member of the permanent group.\<close>

definition new_world :: "(engine, rest_state, outside) world" where
  "new_world = (rest_world [] [(''u2'', ''admin-permanent'')] noon)\<lparr>w_db := (empty_tables, [])\<rparr>"

lemma rest_start:
  assumes "engine_healthy (w_db w)"
  shows "\<exists>s w1. run rest_env (main_start (\<lambda>_. None) os) w = (Some s, w1)"
proof -
  obtain u wa where a: "run rest_env (log_line (starting_line (FromEnv os))) w = (u, wa)" by (rule prod.exhaust)
  obtain x wb where b: "run rest_env migrate wa = (x, wb)" by (rule prod.exhaust)
  have "engine_healthy (w_db wa)" using a assms by (auto simp: run_simps)
  from service_db_up.migrate_up [OF rest_db.service_db_up_axioms this b] have "x = Inr ()" by blast
  with a b show ?thesis by (simp add: main_start_def Open_def run_simps Let_def split: prod.split sum.split)
qed

lemma started_service_is_sound_witness:
  "\<exists>s w1 w2. run rest_env (main_start (\<lambda>_. None) demo_os) new_world = (Some s, w1) \<and> serves rest_env s w1 w2 \<and>
     store_ok (fst (w_db w2)) \<and> (''u2'', ''admin-permanent'') \<in> rest_in_grp (w_kc w2)"
proof -
  obtain s w1 where r: "run rest_env (main_start (\<lambda>_. None) demo_os) new_world = (Some s, w1)"
    using rest_start [of new_world demo_os] by (auto simp: new_world_def engine_healthy_def)
  obtain u w2 where t: "run rest_env (tick s) w1 = (u, w2)" by (rule prod.exhaust)
  have sv: "serves rest_env s w1 w2" using t by (rule serve_tick)
  have w: "startable (fst (w_db new_world))" "ref_fair (w_other new_world)"
    using noon_sane by (simp_all add: new_world_def rest_world_def startable_def ref_fair_def)
  have "pim rest_env fst ref_fair (FromEnv demo_os) rest_user_id (map_of rest_groups) rest_in_grp"
    unfolding demo_os by (rule rest_pim.pim_axioms)
  note g = started_service_is_sound [OF this w r r_into_rtranclp [of "serves rest_env s", OF sv]]
  have "GroupActive (FromEnv demo_os) = ''admin-active''" unfolding demo_os by (simp add: ref_config_def)
  then have "''admin-permanent'' \<noteq> GroupActive (FromEnv demo_os)" by simp
  moreover have "(''u2'', ''admin-permanent'') \<in> rest_in_grp (w_kc new_world)"
    by (simp add: new_world_def rest_world_def rest_in_grp_def rest_groups_def)
  ultimately have "(''u2'', ''admin-permanent'') \<in> rest_in_grp (w_kc w2)" using g by blast
  with r sv g show ?thesis by blast
qed

end
