(* ===== verification/Process.thy ===== *)
theory Process
  imports Interleaving "HOL-Library.Multiset"
begin

text \<open>
  The whole of \<open>cmd/pim/main.go\<close> as a process with its goroutines: \<open>main\<close> itself, the worker of
  \<open>internal/worker/worker.go\<close>, the goroutine of the HTTP server and one for each request that is
  handled.  The state is a record, what can happen next is an event, and \<open>process_step\<close> says
  what it does.  What the Go runtime and \<open>net/http\<close> do is taken from their documentation: a
  ticker drops ticks nobody has taken and does not exist for a period that is not positive,
  \<open>select\<close> takes any branch that is ready, \<open>ListenAndServe\<close> gives up after \<open>Shutdown\<close>, unless
  binding the address fails first, which ends the process at any time; \<open>Shutdown\<close> closes the listener, waits for the requests that are being handled and is cut by its
  context; when \<open>main\<close> returns or one goroutine panics, the process ends and all the others
  with it.
\<close>

section \<open>The state\<close>

text \<open>Where \<open>main\<close> is: in its first part, at \<open><-stop\<close>, before \<open>cancel()\<close>, before
  \<open>srv.Shutdown\<close>, inside it, or gone with an exit code.\<close>

datatype phase =
    Starting "service option prog"
  | Waiting
  | Cancelling
  | Closing
  | Draining
  | Exited nat

datatype server = Announcing | Binding | Listening | Closed

text \<open>The worker: not yet running, at its \<open>select\<close>, inside a sweep, or returned.\<close>

datatype worker =
    Created
  | Selecting
  | Sweeping "unit prog"
  | Returned

record ('d, 'k, 'o) process =
  pr_main :: phase
  pr_service :: "service option"
  pr_server :: server
  pr_worker :: worker
  pr_fired :: bool          \<comment> \<open>a tick waits in the channel of the ticker\<close>
  pr_cancelled :: bool      \<comment> \<open>the context of the worker\<close>
  pr_threads :: "unit prog list"
  pr_world :: "('d, 'k, 'o) world"

datatype process_event =
    Boot                    \<comment> \<open>one call of the first part of \<open>main\<close>\<close>
  | Announce
  | Bind "error option"     \<comment> \<open>what binding the address answers\<close>
  | Fail error            \<comment> \<open>the listener breaks\<close>
  | Accept web_request
  | Serve nat               \<comment> \<open>one call of a request that is handled\<close>
  | Start_worker
  | Fire
  | Choose worker_event
  | Sweep                   \<comment> \<open>one call of the sweep\<close>
  | Signal                  \<comment> \<open>\<open>SIGINT\<close> or \<open>SIGTERM\<close>\<close>
  | Cancel
  | Shut                    \<comment> \<open>\<open>Shutdown\<close> closes the listener\<close>
  | Drained
  | Timeout                 \<comment> \<open>the ten seconds are over\<close>

definition booting :: "(string \<Rightarrow> error option) \<Rightarrow> environment \<Rightarrow> ('d, 'k, 'o) world \<Rightarrow> ('d, 'k, 'o) process" where
  "booting sql_Open os w =
     \<lparr>pr_main = Starting (main_start sql_Open os), pr_service = None, pr_server = Announcing,
      pr_worker = Created, pr_fired = False, pr_cancelled = False, pr_threads = [], pr_world = w\<rparr>"

definition say :: "string \<Rightarrow> ('d, 'k, 'o) process \<Rightarrow> ('d, 'k, 'o) process" where
  "say l p = p\<lparr>pr_world := (pr_world p)\<lparr>w_log := w_log (pr_world p) @ [l]\<rparr>\<rparr>"

primrec finished :: "'a prog \<Rightarrow> bool" where
  "finished (Ret a) = True"
| "finished (Exec s k) = False"
| "finished (Query q k) = False"
| "finished (QueryAudit q k) = False"
| "finished (Now k) = False"
| "finished (Rand n k) = False"
| "finished (Keycloak q k) = False"
| "finished (Webhook q k) = False"
| "finished (Log s p) = False"
| "finished (Lock m p) = False"
| "finished (Unlock m p) = False"
| "finished (GetClient k) = False"
| "finished (PutClient c p) = False"
| "finished (GetManager k) = False"
| "finished (PutManager c p) = False"

lemma finished_iff: "finished p \<longleftrightarrow> (\<exists>a. p = Ret a)"
  by (cases p) simp_all

section \<open>The goroutines\<close>

text \<open>The first part of \<open>main\<close> is \<open>main_start\<close>; \<open>log.Fatalf\<close> ends the process with code 1.\<close>

definition boot_step :: "('d, 'k, 'o) env \<Rightarrow> service option prog \<Rightarrow> ('d, 'k, 'o) process \<Rightarrow> ('d, 'k, 'o) process option" where
  "boot_step E q p =
     (case step E q (pr_world p) of
        Some (q', w) \<Rightarrow> Some (p\<lparr>pr_main := Starting q', pr_world := w\<rparr>)
      | None \<Rightarrow>
          (case q of
             Ret None \<Rightarrow> Some (p\<lparr>pr_main := Exited 1\<rparr>)
           | Ret (Some s) \<Rightarrow> Some (p\<lparr>pr_main := Waiting, pr_service := Some s\<rparr>)
           | _ \<Rightarrow> None))"

definition listening_line :: "config \<Rightarrow> string" where
  "listening_line cfg = ''listening on '' @ ListenAddr cfg @ '' publicURL='' @ PublicURL cfg"

text \<open>The goroutine of the server, and the requests it hands to goroutines of their own.\<close>

fun server_step ::
  "('d, 'k, 'o) env \<Rightarrow> string \<Rightarrow> (web_request \<Rightarrow> web_response) \<Rightarrow> service \<Rightarrow> process_event \<Rightarrow>
   ('d, 'k, 'o) process \<Rightarrow> ('d, 'k, 'o) process option"
where
  "server_step E index files s Announce p =
     (if pr_server p = Announcing then Some ((say (listening_line (sv_cfg s)) p)\<lparr>pr_server := Binding\<rparr>) else None)"
| "server_step E index files s (Bind r) p =
     (if pr_server p \<noteq> Binding then None
      else (case r of
          None \<Rightarrow> Some (p\<lparr>pr_server := (if pr_main p = Draining then Closed else Listening)\<rparr>)
        | Some e \<Rightarrow> Some ((say (''http: '' @ error_text e) p)\<lparr>pr_main := Exited 1\<rparr>)))"
| "server_step E index files s (Fail e) p =
     (if pr_server p = Listening then Some ((say (''http: '' @ error_text e) p)\<lparr>pr_main := Exited 1\<rparr>) else None)"
| "server_step E index files s (Accept rq) p =
     (if pr_server p = Listening then Some (p\<lparr>pr_threads := pr_threads p @ [http_thread index files s rq]\<rparr>) else None)"
| "server_step E index files s (Serve i) p =
     (case pool_step E i (pr_threads p, pr_world p) of
        None \<Rightarrow> None
      | Some (ps, w) \<Rightarrow> Some (p\<lparr>pr_threads := ps, pr_world := w\<rparr>))"
| "server_step E index files s _ p = None"

text \<open>\<open>worker.Run\<close>: the ticker of a period that is not positive is a panic.\<close>

fun worker_step ::
  "('d, 'k, 'o) env \<Rightarrow> service \<Rightarrow> process_event \<Rightarrow> ('d, 'k, 'o) process \<Rightarrow> ('d, 'k, 'o) process option"
where
  "worker_step E s Start_worker p =
     (if pr_worker p \<noteq> Created then None
      else if PollInterval (sv_cfg s) \<le> 0 then Some (p\<lparr>pr_main := Exited 2\<rparr>)
      else Some (p\<lparr>pr_worker := Selecting\<rparr>))"
| "worker_step E s Fire p =
     (if pr_worker p \<in> {Created, Returned} then None else Some (p\<lparr>pr_fired := True\<rparr>))"
| "worker_step E s (Choose Tick) p =
     (if pr_worker p = Selecting \<and> pr_fired p
      then Some (p\<lparr>pr_worker := Sweeping (tick s), pr_fired := False\<rparr>) else None)"
| "worker_step E s (Choose Done) p =
     (if pr_worker p = Selecting \<and> pr_cancelled p then Some (p\<lparr>pr_worker := Returned\<rparr>) else None)"
| "worker_step E s Sweep p =
     (case pr_worker p of
        Sweeping q \<Rightarrow>
          (if finished q then Some (p\<lparr>pr_worker := Selecting\<rparr>)
           else (case step E q (pr_world p) of
               None \<Rightarrow> None
             | Some (q', w) \<Rightarrow> Some (p\<lparr>pr_worker := Sweeping q', pr_world := w\<rparr>)))
      | _ \<Rightarrow> None)"
| "worker_step E s _ p = None"

text \<open>The second part of \<open>main\<close>.  \<open>Shutdown\<close> waits for the requests only; its error is dropped.\<close>

definition stopped :: "('d, 'k, 'o) process \<Rightarrow> ('d, 'k, 'o) process" where
  "stopped p = (say ''pim stopped'' p)\<lparr>pr_main := Exited 0\<rparr>"

fun main_step :: "process_event \<Rightarrow> ('d, 'k, 'o) process \<Rightarrow> ('d, 'k, 'o) process option" where
  "main_step Signal p = (if pr_main p = Waiting then Some (p\<lparr>pr_main := Cancelling\<rparr>) else None)"
| "main_step Cancel p =
     (if pr_main p = Cancelling then Some (p\<lparr>pr_main := Closing, pr_cancelled := True\<rparr>) else None)"
| "main_step Shut p =
     (if pr_main p = Closing
      then Some (p\<lparr>pr_main := Draining, pr_server := (if pr_server p = Listening then Closed else pr_server p)\<rparr>)
      else None)"
| "main_step Drained p =
     (if pr_main p = Draining \<and> list_all finished (pr_threads p) then Some (stopped p) else None)"
| "main_step Timeout p = (if pr_main p = Draining then Some (stopped p) else None)"
| "main_step _ p = None"

definition process_step ::
  "('d, 'k, 'o) env \<Rightarrow> string \<Rightarrow> (web_request \<Rightarrow> web_response) \<Rightarrow> process_event \<Rightarrow>
   ('d, 'k, 'o) process \<Rightarrow> ('d, 'k, 'o) process option"
where
  "process_step E index files ev p =
     (case pr_main p of
        Exited c \<Rightarrow> None
      | Starting q \<Rightarrow> if ev = Boot then boot_step E q p else None
      | _ \<Rightarrow>
          (case pr_service p of
             None \<Rightarrow> None
           | Some s \<Rightarrow>
               (case main_step ev p of
                  Some p' \<Rightarrow> Some p'
                | None \<Rightarrow>
                    (case worker_step E s ev p of
                       Some p' \<Rightarrow> Some p'
                     | None \<Rightarrow> server_step E index files s ev p))))"

fun process_run ::
  "('d, 'k, 'o) env \<Rightarrow> string \<Rightarrow> (web_request \<Rightarrow> web_response) \<Rightarrow> process_event list \<Rightarrow>
   ('d, 'k, 'o) process \<Rightarrow> ('d, 'k, 'o) process option"
where
  "process_run E index files [] p = Some p"
| "process_run E index files (ev # evs) p =
     (case process_step E index files ev p of None \<Rightarrow> None | Some p' \<Rightarrow> process_run E index files evs p')"

text \<open>The goroutines that are handling a request or sweeping.\<close>

definition live :: "('d, 'k, 'o) process \<Rightarrow> unit prog list" where
  "live p = pr_threads p @ (case pr_worker p of Sweeping q \<Rightarrow> [q] | _ \<Rightarrow> [])"

section \<open>What a step is\<close>

lemma process_invariant:
  assumes "process_run E index files evs p = Some p'" "I p"
    and "\<And>ev p p'. I p \<Longrightarrow> process_step E index files ev p = Some p' \<Longrightarrow> I p'"
  shows "I p'"
  using assms(1,2) by (induction evs arbitrary: p) (auto split: option.splits intro: assms(3))

lemma process_run_append:
  "process_run E index files (as @ bs) p =
     (case process_run E index files as p of None \<Rightarrow> None | Some p' \<Rightarrow> process_run E index files bs p')"
  by (induction as arbitrary: p) (auto split: option.split)

text \<open>A step of the first part, or one of the running service.\<close>

lemma process_step_cases:
  assumes "process_step E index files ev p = Some p'"
  obtains q where "pr_main p = Starting q" "boot_step E q p = Some p'"
  | s where "pr_service p = Some s" "pr_main p \<in> {Waiting, Cancelling, Closing, Draining}"
      "main_step ev p = Some p' \<or> worker_step E s ev p = Some p' \<or> server_step E index files s ev p = Some p'"
  using assms by (auto simp: process_step_def split: phase.splits option.splits if_splits)

text \<open>
  Seen from the threads a step of the running service drops or starts a thread, writes a line of
  the log, or makes one call of one thread.
\<close>

lemma running_step:
  assumes "main_step ev p = Some p' \<or> worker_step E s ev p = Some p' \<or> server_step E index files s ev p = Some p'"
  obtains D where "pr_world p' = pr_world p" "mset (live p) = mset (live p') + D" "\<forall>q \<in># D. finished q"
  | q where "q \<in> threads index files s" "pr_world p' = pr_world p" "mset (live p') = add_mset q (mset (live p))"
  | l where "pr_world p' = pr_world (say l p)" "mset (live p') = mset (live p)"
  | q q' A where "step E q (pr_world p) = Some (q', pr_world p')" "mset (live p) = add_mset q A"
      "mset (live p') = add_mset q' A"
proof -
  show thesis
    using assms
  proof (elim disjE)
    assume "main_step ev p = Some p'"
    then show thesis
      by (cases ev) (auto simp: live_def stopped_def say_def split: if_splits intro: that(1) [of "{#}"] that(3))
  next
    assume w: "worker_step E s ev p = Some p'"
    show thesis
    proof (cases "ev = Sweep")
      case True
      with w obtain q where q: "pr_worker p = Sweeping q" by (auto split: worker.splits)
      show thesis
      proof (cases "finished q")
        case True
        with w q \<open>ev = Sweep\<close> show thesis by (intro that(1) [of "{#q#}"]) (auto simp: live_def)
      next
        case False
        with w q \<open>ev = Sweep\<close> obtain q' v where "step E q (pr_world p) = Some (q', v)"
          "p' = p\<lparr>pr_worker := Sweeping q', pr_world := v\<rparr>" by (auto split: option.splits)
        with q show thesis by (intro that(4) [of q q' "mset (pr_threads p)"]) (simp_all add: live_def)
      qed
    next
      case False
      have "tick s \<in> threads index files s" by (simp add: threads_def)
      with False w show thesis
        by (cases "(E, s, ev, p)" rule: worker_step.cases) (auto simp: live_def split: if_splits intro: that(1) [of "{#}"] that(2))
    qed
  next
    assume sv: "server_step E index files s ev p = Some p'"
    show thesis
    proof (cases "\<exists>i. ev = Serve i")
      case True
      then obtain i where i: "ev = Serve i" by blast
      with sv obtain q' w where m: "i < length (pr_threads p)" "step E (pr_threads p ! i) (pr_world p) = Some (q', w)"
        "p' = p\<lparr>pr_threads := (pr_threads p)[i := q'], pr_world := w\<rparr>"
        by (auto simp: pool_step_iff split: option.splits)
      let ?rest = "mset (case pr_worker p of Sweeping q \<Rightarrow> [q] | _ \<Rightarrow> [])"
      have "mset (pr_threads p) = add_mset (pr_threads p ! i) (mset (pr_threads p) - {#pr_threads p ! i#})"
        using m(1) by simp
      moreover have "mset ((pr_threads p)[i := q']) = add_mset q' (mset (pr_threads p) - {#pr_threads p ! i#})"
        using m(1) by (simp add: mset_update)
      ultimately show thesis
        using m by (intro that(4) [of "pr_threads p ! i" q' "mset (pr_threads p) - {#pr_threads p ! i#} + ?rest"])
          (simp_all add: live_def)
    next
      case False
      note other = False
      show thesis
      proof (cases "\<exists>rq. ev = Accept rq")
        case True
        then obtain rq where "ev = Accept rq" by blast
        with sv show thesis
          by (intro that(2) [of "http_thread index files s rq"]) (auto simp: threads_def live_def split: if_splits)
      next
        case False
        with other sv show thesis
          by (cases ev) (auto simp: live_def say_def split: if_splits option.splits intro: that(1) [of "{#}"] that(3))
      qed
    qed
  qed
qed

section \<open>The process and the pool\<close>

text \<open>The lines of the log count as threads of one call.\<close>

definition service_threads :: "string \<Rightarrow> (web_request \<Rightarrow> web_response) \<Rightarrow> service \<Rightarrow> unit prog set" where
  "service_threads index files s = threads index files s \<union> range log_line"

lemma pool_move_member:
  assumes "pool E new w0 (ps, w)" "mset ps = add_mset q A" "step E q w = Some (q', w')"
  shows "\<exists>ps'. pool E new w0 (ps', w') \<and> mset ps' = add_mset q' A"
proof -
  have "q \<in> set ps" using assms(2) by (metis set_mset_mset union_single_eq_member)
  then obtain i where i: "i < length ps" "ps ! i = q" by (auto simp: in_set_conv_nth)
  with assms(3) have "pool_step E i (ps, w) = Some (ps[i := q'], w')" by (simp add: pool_step_iff)
  from pool_move [OF assms(1) this] have "pool E new w0 (ps[i := q'], w')" .
  moreover have "mset (ps[i := q']) = add_mset q' A" using i assms(2) by (simp add: mset_update)
  ultimately show ?thesis by blast
qed

lemma pool_say:
  assumes "pool E new w0 (ps, w)" "log_line l \<in> new"
  shows "\<exists>ps'. pool E new w0 (ps', w\<lparr>w_log := w_log w @ [l]\<rparr>) \<and> mset ps' = add_mset (Ret ()) (mset ps)"
proof -
  have "pool E new w0 (ps @ [log_line l], w)" using assms by (rule pool_spawn)
  moreover have "mset (ps @ [log_line l]) = add_mset (log_line l) (mset ps)" by simp
  moreover have "step E (log_line l) w = Some (Ret (), w\<lparr>w_log := w_log w @ [l]\<rparr>)" by (simp add: log_line_def)
  ultimately show ?thesis by (rule pool_move_member)
qed

text \<open>The threads of the pool are the goroutines that are alive and some that have ended.\<close>

definition shows_as :: "unit prog list \<Rightarrow> unit prog multiset \<Rightarrow> bool" where
  "shows_as ps L \<longleftrightarrow> (\<exists>D. mset ps = L + D \<and> (\<forall>q \<in># D. finished q))"

text \<open>
  The simulation: before the service exists, the first part of \<open>main\<close> has still to come to the
  result it would come to alone; afterwards the goroutines are threads of a pool that began
  where the first part ended.
\<close>

definition follows ::
  "('d, 'k, 'o) env \<Rightarrow> string \<Rightarrow> (web_request \<Rightarrow> web_response) \<Rightarrow> service option \<times> ('d, 'k, 'o) world \<Rightarrow>
   ('d, 'k, 'o) process \<Rightarrow> bool"
where
  "follows E index files result p \<longleftrightarrow>
     (case pr_service p of
        None \<Rightarrow> live p = [] \<and> pr_main p \<in> range Starting \<union> {Exited 1} \<and>
          (\<forall>q. pr_main p = Starting q \<longrightarrow> run E q (pr_world p) = result)
      | Some s \<Rightarrow> pr_main p \<notin> range Starting \<and> fst result = Some s \<and>
          (\<exists>ps. pool E (service_threads index files s) (snd result) (ps, pr_world p) \<and> shows_as ps (mset (live p))))"

lemma follows_booting: "follows E index files (run E (main_start sql_Open os) w) (booting sql_Open os w)"
  by (simp add: follows_def booting_def live_def)

lemma follows_boot_step:
  assumes f: "follows E index files result p" and q: "pr_main p = Starting q" and b: "boot_step E q p = Some p'"
  shows "follows E index files result p'"
proof -
  from f q have p: "pr_service p = None" "live p = []" "run E q (pr_world p) = result"
    by (auto simp: follows_def split: option.splits)
  show ?thesis
  proof (cases "step E q (pr_world p)")
    case (Some x)
    then obtain q' w where s: "step E q (pr_world p) = Some (q', w)" by (cases x) simp
    with b have "p' = p\<lparr>pr_main := Starting q', pr_world := w\<rparr>" by (simp add: boot_step_def)
    with p step_run [OF s] show ?thesis by (simp add: follows_def live_def)
  next
    case None
    with b obtain r where r: "q = Ret r" by (auto simp: boot_step_def split: prog.splits)
    show ?thesis
    proof (cases r)
      case None
      with b r have "p' = p\<lparr>pr_main := Exited 1\<rparr>" by (simp add: boot_step_def)
      with p show ?thesis by (simp add: follows_def live_def)
    next
      case (Some s)
      with b r have p': "p' = p\<lparr>pr_main := Waiting, pr_service := Some s\<rparr>" by (simp add: boot_step_def)
      from p(3) r Some have "result = (Some s, pr_world p)" by simp
      with p' p(2) show ?thesis
        by (auto simp: follows_def live_def shows_as_def intro!: exI [of _ "[]"] pool_init)
    qed
  qed
qed

lemma running_same:
  assumes "pr_service p = Some s" "pr_main p \<in> {Waiting, Cancelling, Closing, Draining}"
    and "main_step ev p = Some p' \<or> worker_step E s ev p = Some p' \<or> server_step E index files s ev p = Some p'"
  shows "pr_service p' = Some s \<and> pr_main p' \<notin> range Starting"
  using assms(3)
proof (elim disjE)
  assume "main_step ev p = Some p'"
  then show ?thesis using assms(1,2) by (cases ev) (auto simp: stopped_def say_def split: if_splits)
next
  assume "worker_step E s ev p = Some p'"
  then show ?thesis
    using assms(1,2) by (cases "(E, s, ev, p)" rule: worker_step.cases) (auto split: if_splits option.splits worker.splits)
next
  assume "server_step E index files s ev p = Some p'"
  then show ?thesis using assms(1,2) by (cases ev) (auto simp: say_def split: if_splits option.splits)
qed

lemma follows_step:
  assumes f: "follows E index files result p" and st: "process_step E index files ev p = Some p'"
  shows "follows E index files result p'"
  using st
proof (rule process_step_cases)
  show "follows E index files result p'" if "pr_main p = Starting q" "boot_step E q p = Some p'" for q
    using f that by (rule follows_boot_step)
next
  fix s
  assume s: "pr_service p = Some s" "pr_main p \<in> {Waiting, Cancelling, Closing, Draining}"
    and r: "main_step ev p = Some p' \<or> worker_step E s ev p = Some p' \<or> server_step E index files s ev p = Some p'"
  let ?new = "service_threads index files s"
  from f s obtain ps where fst: "fst result = Some s" and pool: "pool E ?new (snd result) (ps, pr_world p)"
    and "shows_as ps (mset (live p))" by (auto simp: follows_def)
  then obtain D where D: "mset ps = mset (live p) + D" "\<forall>q \<in># D. finished q" by (auto simp: shows_as_def)
  note same = running_same [OF s r]
  have "\<exists>ps'. pool E ?new (snd result) (ps', pr_world p') \<and> shows_as ps' (mset (live p'))"
    using r
  proof (rule running_step)
    fix D' assume "pr_world p' = pr_world p" "mset (live p) = mset (live p') + D'" "\<forall>q \<in># D'. finished q"
    with pool D show ?thesis
      by (auto simp: shows_as_def ac_simps intro!: exI [of _ ps] exI [of _ "D' + D"])
  next
    fix q assume q: "q \<in> threads index files s" "pr_world p' = pr_world p" "mset (live p') = add_mset q (mset (live p))"
    then have "q \<in> ?new" by (simp add: service_threads_def)
    with pool have "pool E ?new (snd result) (ps @ [q], pr_world p)" by (rule pool_spawn)
    with q D show ?thesis by (auto simp: shows_as_def intro!: exI [of _ "ps @ [q]"])
  next
    fix l assume l: "pr_world p' = pr_world (say l p)" "mset (live p') = mset (live p)"
    have "log_line l \<in> ?new" by (simp add: service_threads_def)
    from pool_say [OF pool this] obtain ps' where "pool E ?new (snd result) (ps', pr_world p')"
      "mset ps' = add_mset (Ret ()) (mset ps)" using l(1) by (auto simp: say_def)
    with l(2) D show ?thesis
      by (auto simp: shows_as_def intro!: exI [of _ ps'] exI [of _ "add_mset (Ret ()) D"])
  next
    fix q q' A
    assume m: "step E q (pr_world p) = Some (q', pr_world p')" "mset (live p) = add_mset q A" "mset (live p') = add_mset q' A"
    then have "mset ps = add_mset q (A + D)" using D(1) by simp
    from pool_move_member [OF pool this m(1)] obtain ps' where "pool E ?new (snd result) (ps', pr_world p')"
      "mset ps' = add_mset q' (A + D)" by blast
    with m(3) D(2) show ?thesis by (auto simp: shows_as_def intro!: exI [of _ ps'] exI [of _ D])
  qed
  with same fst show ?thesis by (simp add: follows_def)
qed

lemma process_follows:
  assumes "process_run E index files evs (booting sql_Open os w) = Some p"
  shows "follows E index files (run E (main_start sql_Open os) w) p"
  using assms follows_booting by (rule process_invariant) (rule follows_step)

section \<open>Invariants of the process\<close>

text \<open>
  The rule of the pool for the whole process: \<open>B\<close> is what holds of the first part of \<open>main\<close>,
  \<open>J\<close> of a thread, \<open>I\<close> of the world, and \<open>R\<close> is what every call guarantees to the others.
\<close>

lemma process_rely:
  assumes run: "process_run E index files evs (booting sql_Open os w0) = Some p"
    and start: "I w0" "B w0 (main_start sql_Open os)" "R w0 w0"
    and boot: "\<And>q w q' w'. B w q \<Longrightarrow> I w \<Longrightarrow> step E q w = Some (q', w') \<Longrightarrow> B w' q' \<and> I w' \<and> R w w'"
    and new: "\<And>s w t. B w (Ret (Some s)) \<Longrightarrow> t \<in> threads index files s \<Longrightarrow> J t"
    and keep: "\<And>q w q' w'. J' w q \<Longrightarrow> I w \<Longrightarrow> step E q w = Some (q', w') \<Longrightarrow> J' w' q' \<and> I w' \<and> R w w'"
    and fresh: "\<And>t w. J t \<Longrightarrow> I w \<Longrightarrow> J' w t"
    and stable: "\<And>q w w'. J' w q \<Longrightarrow> R w w' \<Longrightarrow> J' w' q"
    and log: "\<And>w l. I w \<Longrightarrow> I (w\<lparr>w_log := l\<rparr>) \<and> R w (w\<lparr>w_log := l\<rparr>)"
    and order: "\<And>w w'. R w0 w \<Longrightarrow> R w w' \<Longrightarrow> R w0 w'"
  shows "I (pr_world p) \<and> R w0 (pr_world p)"
proof -
  define good where "good p \<longleftrightarrow>
      I (pr_world p) \<and> R w0 (pr_world p) \<and> (\<forall>q \<in># mset (live p). J' (pr_world p) q) \<and>
      (\<forall>q. pr_main p = Starting q \<longrightarrow> live p = [] \<and> B (pr_world p) q) \<and>
      (\<forall>s. pr_service p = Some s \<longrightarrow> (\<forall>t \<in> threads index files s. J t))" for p
  have "good p"
    using run
  proof (rule process_invariant)
    show "good (booting sql_Open os w0)" using start by (simp add: good_def booting_def live_def)
    fix ev p p' assume g: "good p" and st: "process_step E index files ev p = Some p'"
    show "good p'"
      using st
    proof (rule process_step_cases)
      fix q assume q: "pr_main p = Starting q" and b: "boot_step E q p = Some p'"
      from g q have I: "I (pr_world p)" "R w0 (pr_world p)" "live p = []" "B (pr_world p) q"
        and S: "\<And>s t. pr_service p = Some s \<Longrightarrow> t \<in> threads index files s \<Longrightarrow> J t" by (auto simp: good_def)
      show ?thesis
      proof (cases "step E q (pr_world p)")
        case (Some x)
        then obtain q' w where s: "step E q (pr_world p) = Some (q', w)" by (cases x) simp
        with b have p': "p' = p\<lparr>pr_main := Starting q', pr_world := w\<rparr>" by (simp add: boot_step_def)
        from boot [OF I(4,1) s] order [OF I(2)] I(3) S show ?thesis by (auto simp: good_def p' live_def)
      next
        case None
        with b obtain r where r: "q = Ret r" by (auto simp: boot_step_def split: prog.splits)
        with b have p': "p' = (case r of None \<Rightarrow> p\<lparr>pr_main := Exited 1\<rparr>
            | Some s \<Rightarrow> p\<lparr>pr_main := Waiting, pr_service := Some s\<rparr>)" by (auto simp: boot_step_def split: option.split)
        have "\<forall>t \<in> threads index files s. J t" if "r = Some s" for s using new [of "pr_world p" s] I(4) r that by blast
        with I(1-3) S p' show ?thesis by (cases r) (auto simp: good_def live_def)
      qed
    next
      fix s assume s: "pr_service p = Some s" "pr_main p \<in> {Waiting, Cancelling, Closing, Draining}"
        and r: "main_step ev p = Some p' \<or> worker_step E s ev p = Some p' \<or> server_step E index files s ev p = Some p'"
      from g have I: "I (pr_world p)" "R w0 (pr_world p)" and J: "\<And>q. q \<in># mset (live p) \<Longrightarrow> J' (pr_world p) q"
        and S: "\<And>t. t \<in> threads index files s \<Longrightarrow> J t" using s(1) by (auto simp: good_def)
      note same = running_same [OF s r]
      have goodI: "good p'" if "I (pr_world p')" "R w0 (pr_world p')" "\<And>q. q \<in># mset (live p') \<Longrightarrow> J' (pr_world p') q"
        using that same S by (auto simp: good_def)
      show ?thesis
        using r
      proof (rule running_step)
        fix D assume "pr_world p' = pr_world p" "mset (live p) = mset (live p') + D"
        then show ?thesis using I J by (intro goodI) auto
      next
        fix q assume "q \<in> threads index files s" "pr_world p' = pr_world p" "mset (live p') = add_mset q (mset (live p))"
        then show ?thesis using I J fresh [OF S I(1)] by (intro goodI) auto
      next
        fix l assume l: "pr_world p' = pr_world (say l p)" "mset (live p') = mset (live p)"
        then have "I (pr_world p') \<and> R (pr_world p) (pr_world p')" using log [OF I(1)] by (simp add: say_def)
        with l(2) I J stable order show ?thesis by (intro goodI) auto
      next
        fix q q' A
        assume m: "step E q (pr_world p) = Some (q', pr_world p')" "mset (live p) = add_mset q A"
          "mset (live p') = add_mset q' A"
        then have "J' (pr_world p) q" using J by simp
        from keep [OF this I(1) m(1)] have k: "J' (pr_world p') q'" "I (pr_world p')" "R (pr_world p) (pr_world p')" by blast+
        have "J' (pr_world p') x" if "x \<in># A" for x using stable [OF J k(3)] that m(2) by simp
        with k m(3) order [OF I(2) k(3)] show ?thesis by (intro goodI) auto
      qed
    qed
  qed
  then show ?thesis by (simp add: good_def)
qed

end
