(* ===== verification/Startup.thy ===== *)
theory Startup
  imports Process
begin

text \<open>
  The first part of \<open>main\<close> comes to its end: no call of it waits for another goroutine.  The
  goroutines of the service keep the mutex discipline and never wait for ever.
\<close>

section \<open>One program to its end\<close>

lemma ends_bnd:
  assumes "ends E p w" "run E p w = (a, w')" "ends E (f a) w'"
  shows "ends E (bnd p f) w"
proof -
  obtain n where n: "schedule E (replicate n 0) ([p], w) = Some ([Ret a], w')"
    using assms(1,2) schedule_run unfolding ends_def by fastforce
  obtain m b v where m: "schedule E (replicate m 0) ([f a], w') = Some ([Ret b], v)"
    using assms(3) unfolding ends_def by blast
  have "schedule E (replicate n 0) ([bnd p f], w) = Some ([f a], w')"
    using schedule_lift [OF n, of 0 "[bnd p f]" f] by simp
  with m have "schedule E (replicate n 0 @ replicate m 0) ([bnd p f], w) = Some ([Ret b], v)"
    by (simp add: schedule_append)
  then show ?thesis unfolding ends_def replicate_add [symmetric] by blast
qed

lemma ends_Ret: "ends E (Ret a) w"
  unfolding ends_def by (rule exI [of _ 0]) simp

lemma ends_part:
  assumes "locked None p" "w_held w = {}"
    and "\<And>a w'. run E p w = (a, w') \<Longrightarrow> w_held w' = {} \<Longrightarrow> ends E (f a) w' \<and> w_held (snd (run E (f a) w')) = {}"
  shows "ends E (bnd p f) w \<and> w_held (snd (run E (bnd p f) w)) = {}"
proof -
  obtain a w' where r: "run E p w = (a, w')" by (rule prod.exhaust)
  have "w_held w' = {}" using run_held [OF assms(1) r] assms(2) by simp
  with assms(3) r have f: "ends E (f a) w'" "w_held (snd (run E (f a) w')) = {}" by blast+
  have "ends E p w" using assms(1,2) by (auto intro: locked_ends)
  from ends_bnd [where f = f, OF this r f(1)] f(2) r show ?thesis by (simp add: run_bnd)
qed

lemma locked_Open: "locked None (Open sql_Open path)"
  by (auto simp: Open_def migrate_def exec_only_def migrateAudit_def migrateNotify_def migrateApprovalNotes_def
      intro!: locked_bnd split: option.split sum.split)

lemma main_start_ends:
  assumes "w_held w = {}"
  shows "ends E (main_start sql_Open os) w \<and> w_held (snd (run E (main_start sql_Open os) w)) = {}"
  unfolding main_start_def Let_def
proof (rule ends_part)
  fix u :: unit and w1 :: "('a, 'b, 'c) world" assume w1: "w_held w1 = {}"
  let ?s = "make_service (FromEnv os)"
  let ?warn = "\<lambda>res. bnd (case res of
       Inl e \<Rightarrow> log_line (''startup reconcile warning: '' @ error_text e)
     | Inr _ \<Rightarrow> Ret ()) (\<lambda>_. Ret (Some ?s))"
  let ?rest = "bnd (log_line (''notify webhook enabled='' @ print_bool (Enabled (sv_notify ?s)))) (\<lambda>_.
      bnd (Reconcile ?s) ?warn)"
  have warn: "ends E (?warn res) w \<and> w_held (snd (run E (?warn res) w)) = {}"
    if "w_held w = {}" for res :: "error + unit" and w
    by (rule ends_part) (use that in \<open>auto simp: ends_Ret split: sum.split\<close>)
  have rec: "ends E (bnd (Reconcile ?s) ?warn) w \<and> w_held (snd (run E (bnd (Reconcile ?s) ?warn) w)) = {}"
    if "w_held w = {}" for w
    by (rule ends_part [OF built.locked_tick(1) that]) (rule warn)
  have rest: "ends E ?rest w \<and> w_held (snd (run E ?rest w)) = {}" if "w_held w = {}" for w
    by (rule ends_part [OF _ that]) (simp_all add: rec)
  have fatal: "ends E (bnd (log_line l) (\<lambda>_. Ret (None :: service option))) w \<and>
      w_held (snd (run E (bnd (log_line l) (\<lambda>_. Ret (None :: service option))) w)) = {}"
    if "w_held w = {}" for l and w :: "('a, 'b, 'c) world"
    by (rule ends_part) (simp_all add: ends_Ret that)
  let ?m = "\<lambda>w :: ('a, 'b, 'c) world. w\<lparr>w_client := new_client_mem, w_manager := new_manager_mem\<rparr>"
  have put: "ends E (PutClient new_client_mem (PutManager new_manager_mem ?rest)) w \<and>
      w_held (snd (run E (PutClient new_client_mem (PutManager new_manager_mem ?rest)) w)) = {}"
    if "w_held w = {}" for w :: "('a, 'b, 'c) world"
  proof -
    have "ends E ?rest (?m w)" "w_held (snd (run E ?rest (?m w))) = {}" using rest [of "?m w"] that by simp_all
    then show ?thesis by (auto intro!: ends_step)
  qed
  show "ends E (bnd (Open sql_Open (DBPath (FromEnv os))) (\<lambda>res. case res of
        Inl e \<Rightarrow> bnd (log_line (''db: '' @ error_text e)) (\<lambda>_. Ret None)
      | Inr _ \<Rightarrow> PutClient new_client_mem (PutManager new_manager_mem ?rest))) w1 \<and>
    w_held (snd (run E (bnd (Open sql_Open (DBPath (FromEnv os))) (\<lambda>res. case res of
        Inl e \<Rightarrow> bnd (log_line (''db: '' @ error_text e)) (\<lambda>_. Ret None)
      | Inr _ \<Rightarrow> PutClient new_client_mem (PutManager new_manager_mem ?rest))) w1)) = {}"
    by (rule ends_part [OF locked_Open w1]) (use fatal put in \<open>auto split: sum.split\<close>)
qed (use assms in simp_all)

text \<open>The service that is started is the one of the configuration.\<close>

lemma main_start_builds: "fst (run E (main_start sql_Open os) w) \<in> {None, Some (make_service (FromEnv os))}"
  by (auto simp: main_start_def Let_def run_simps split: prod.split sum.split)

section \<open>The first part of \<open>main\<close>\<close>

lemma boot_schedule:
  "schedule E (replicate n 0) ([q], w) = Some ([q'], w') \<Longrightarrow> pr_main p = Starting q \<Longrightarrow> pr_world p = w \<Longrightarrow>
   process_run E index files (replicate n Boot) p = Some (p\<lparr>pr_main := Starting q', pr_world := w'\<rparr>)"
proof (induction n arbitrary: p q w)
  case 0
  then show ?case by simp
next
  case (Suc n)
  then obtain q1 w1 where s: "step E q w = Some (q1, w1)"
    "schedule E (replicate n 0) ([q1], w1) = Some ([q'], w')"
    by (auto simp: pool_step_def split: option.splits)
  have "process_step E index files Boot p = Some (p\<lparr>pr_main := Starting q1, pr_world := w1\<rparr>)"
    using Suc.prems s(1) by (simp add: process_step_def boot_step_def)
  with Suc.IH [OF s(2), of "p\<lparr>pr_main := Starting q1, pr_world := w1\<rparr>"] show ?case by simp
qed

definition started :: "service \<Rightarrow> ('d, 'k, 'o) world \<Rightarrow> ('d, 'k, 'o) process" where
  "started s w =
     \<lparr>pr_main = Waiting, pr_service = Some s, pr_server = Announcing, pr_worker = Created, pr_fired = False,
      pr_cancelled = False, pr_threads = [], pr_world = w\<rparr>"

lemma boot_complete:
  assumes "w_held w = {}" "run E (main_start sql_Open os) w = (r, w1)"
  obtains n where "process_run E index files (replicate n Boot) (booting sql_Open os w) =
    Some (case r of None \<Rightarrow> (booting sql_Open os w1)\<lparr>pr_main := Exited 1\<rparr> | Some s \<Rightarrow> started s w1)"
proof -
  let ?q = "main_start sql_Open os"
  obtain n where "schedule E (replicate n 0) ([?q], w) = Some ([Ret r], w1)"
    using main_start_ends [OF assms(1), of E sql_Open os] schedule_run assms(2) unfolding ends_def by fastforce
  from boot_schedule [OF this, of "booting sql_Open os w" index files]
  have "process_run E index files (replicate n Boot) (booting sql_Open os w) =
      Some ((booting sql_Open os w)\<lparr>pr_main := Starting (Ret r), pr_world := w1\<rparr>)" by (simp add: booting_def)
  then have "process_run E index files (replicate n Boot @ [Boot]) (booting sql_Open os w) =
    Some (case r of None \<Rightarrow> (booting sql_Open os w1)\<lparr>pr_main := Exited 1\<rparr> | Some s \<Rightarrow> started s w1)"
    by (simp add: process_run_append process_step_def boot_step_def booting_def started_def split: option.split)
  then show thesis using that [of "Suc n"] by (simp add: replicate_append_same)
qed

section \<open>The goroutines\<close>

abbreviation running :: "('d, 'k, 'o) process \<Rightarrow> bool" where
  "running p \<equiv> pr_main p \<in> {Waiting, Cancelling, Closing, Draining}"

lemma running_process_step:
  assumes "running p" "pr_service p = Some s"
  shows "process_step E index files ev p =
    (case main_step ev p of
       Some p' \<Rightarrow> Some p'
     | None \<Rightarrow>
         (case worker_step E s ev p of
            Some p' \<Rightarrow> Some p'
          | None \<Rightarrow> server_step E index files s ev p))"
  using assms by (auto simp: process_step_def)

text \<open>The sweep may run on while the others wait.\<close>

lemma sweep_schedule:
  "schedule E (replicate n 0) ([q], w) = Some ([q'], w') \<Longrightarrow> running p \<Longrightarrow> pr_service p = Some s \<Longrightarrow>
   pr_worker p = Sweeping q \<Longrightarrow> pr_world p = w \<Longrightarrow>
   process_run E index files (replicate n Sweep) p = Some (p\<lparr>pr_worker := Sweeping q', pr_world := w'\<rparr>)"
proof (induction n arbitrary: p q w)
  case 0
  then show ?case by simp
next
  case (Suc n)
  then obtain q1 w1 where s: "step E q w = Some (q1, w1)"
    "schedule E (replicate n 0) ([q1], w1) = Some ([q'], w')"
    by (auto simp: pool_step_def split: option.splits)
  let ?p = "p\<lparr>pr_worker := Sweeping q1, pr_world := w1\<rparr>"
  have "\<not> finished q" using s(1) by (auto simp: finished_iff)
  then have "process_step E index files Sweep p = Some ?p"
    using Suc.prems(4,5) s(1) by (simp add: running_process_step [OF Suc.prems(2,3)])
  with Suc.IH [OF s(2), of ?p] Suc.prems show ?case by simp
qed

text \<open>A tick of the started service, from the ticker to the end of the sweep.\<close>

lemma started_tick:
  assumes "w_held w = {}" "0 < PollInterval (FromEnv os)"
  obtains m where "process_run E index files ([Start_worker, Fire, Choose Tick] @ replicate m Sweep)
      (started (make_service (FromEnv os)) w) =
    Some ((started (make_service (FromEnv os)) w)\<lparr>pr_worker := Selecting,
      pr_world := snd (run E (tick (make_service (FromEnv os))) w)\<rparr>)"
proof -
  let ?s = "make_service (FromEnv os)"
  let ?p = "(started ?s w)\<lparr>pr_worker := Sweeping (tick ?s)\<rparr>"
  have "sv_cfg ?s = FromEnv os" by (simp add: make_service_def NewService_def)
  then have a: "process_run E index files [Start_worker, Fire, Choose Tick] (started ?s w) = Some ?p"
    using assms(2) by (simp add: process_step_def started_def)
  obtain n where "schedule E (replicate n 0) ([tick ?s], w) = Some ([Ret ()], snd (run E (tick ?s) w))"
    using steps_complete [OF built.locked_tick(2) assms(1)] by auto
  from sweep_schedule [OF this, of ?p ?s index files]
  have "process_run E index files (replicate n Sweep) ?p =
      Some ((started ?s w)\<lparr>pr_worker := Sweeping (Ret ()), pr_world := snd (run E (tick ?s) w)\<rparr>)"
    by (simp add: started_def)
  then have "process_run E index files (replicate n Sweep @ [Sweep]) ?p =
      Some ((started ?s w)\<lparr>pr_worker := Selecting, pr_world := snd (run E (tick ?s) w)\<rparr>)"
    by (simp add: process_run_append process_step_def started_def)
  with a have "process_run E index files ([Start_worker, Fire, Choose Tick] @ replicate (Suc n) Sweep) (started ?s w) =
      Some ((started ?s w)\<lparr>pr_worker := Selecting, pr_world := snd (run E (tick ?s) w)\<rparr>)"
    by (simp only: process_run_append replicate_append_same replicate_Suc option.case)
  then show thesis by (rule that)
qed

end
