(* ===== verification/Guarantee.thy ===== *)
theory Guarantee
  imports Interleaving Effects
begin

text \<open>
  What every thread of the pool guarantees whatever the others do meanwhile.  A thread works on
  copies of rows it read earlier, so its guarantee speaks of what it may still know then: the
  requests it has read are in the table, under the same id and with the same subject columns
  (\<open>known\<close>), a fact that no other thread takes away.  \<open>upholds\<close> says that with this knowledge
  every statement a thread makes leaves the rows sound; the rule \<open>pool_rely\<close> puts the threads
  together.
\<close>

section \<open>Sound rows\<close>

text \<open>
  A request has a user, a justification that is long enough and the deadline of the
  configuration.  A pending or expired one carries nothing of an approval; an approved or
  released one names its approver, has notes that are long enough, was approved before its
  deadline and ends when the configuration says; it has an end exactly if it is released.
\<close>

definition sound_request :: "config \<Rightarrow> request \<Rightarrow> bool" where
  "sound_request cfg r \<longleftrightarrow>
     storable_req r \<and> Username r \<noteq> [] \<and> minJustificationLen \<le> length (Justification r) \<and>
     RequestExpiresAt r = CreatedAt r + RequestTTL cfg \<and>
     (if Status r = StatusPending \<or> Status r = StatusExpired then
        ApprovedAt r = None \<and> ApprovedBy r = [] \<and> ApprovalNotes r = [] \<and> ActiveExpiresAt r = None \<and>
        ReleasedAt r = None
      else
        (Status r = StatusApproved \<or> Status r = StatusReleased) \<and>
        ApprovedBy r \<noteq> [] \<and> minApprovalNotesLen \<le> length (ApprovalNotes r) \<and>
        (case ApprovedAt r of None \<Rightarrow> False
         | Some t \<Rightarrow> t \<le> RequestExpiresAt r \<and> ActiveExpiresAt r = Some (t + ActiveTTL cfg)) \<and>
        (ReleasedAt r = None \<longleftrightarrow> Status r = StatusApproved))"

definition sound_tables :: "config \<Rightarrow> tables \<Rightarrow> bool" where
  "sound_tables cfg t \<longleftrightarrow>
     store_ok t \<and> audit_ok t \<and> notif_ok t \<and> (\<forall>i r. reqs t i = Some r \<longrightarrow> sound_request cfg r)"

text \<open>What the tables become: no request is lost, and none that is decided is pending again.\<close>

definition moved :: "tables \<Rightarrow> tables \<Rightarrow> bool" where
  "moved t t' \<longleftrightarrow>
     (\<forall>i r. reqs t i = Some r \<longrightarrow>
        (\<exists>r'. reqs t' i = Some r' \<and> same_subject r r' \<and> (Status r' = StatusPending \<longrightarrow> r' = r)))"

definition known :: "request set \<Rightarrow> tables \<Rightarrow> bool" where
  "known K t \<longleftrightarrow> (\<forall>q \<in> K. \<exists>r. reqs t (ID q) = Some r \<and> same_subject q r)"

lemma subject_carried: "same_subject a b \<Longrightarrow> same_subject b c \<Longrightarrow> same_subject a c"
  by (simp add: same_subject_def)

lemma moved_refl: "moved t t"
  by (simp add: moved_def)

lemma moved_trans:
  assumes "moved a b" "moved b c"
  shows "moved a c"
  unfolding moved_def
proof (intro allI impI)
  fix i r assume "reqs a i = Some r"
  with assms(1) obtain r1 where 1: "reqs b i = Some r1" "same_subject r r1" "Status r1 = StatusPending \<longrightarrow> r1 = r"
    by (auto simp: moved_def)
  with assms(2) obtain r2 where "reqs c i = Some r2" "same_subject r1 r2" "Status r2 = StatusPending \<longrightarrow> r2 = r1"
    by (auto simp: moved_def)
  with 1 show "\<exists>r'. reqs c i = Some r' \<and> same_subject r r' \<and> (Status r' = StatusPending \<longrightarrow> r' = r)"
    by (auto intro: subject_carried)
qed

lemma known_empty [simp]: "known {} t"
  by (simp add: known_def)

lemma known_moved: "known K t \<Longrightarrow> moved t t' \<Longrightarrow> known K t'"
  unfolding known_def moved_def by (meson subject_carried)

lemma known_Un: "known (K \<union> L) t \<longleftrightarrow> known K t \<and> known L t"
  by (auto simp: known_def)

section \<open>Upholding\<close>

text \<open>The statements that leave sound tables sound, and the rows a query selects.\<close>

definition allowed :: "config \<Rightarrow> request set \<Rightarrow> exec_stmt \<Rightarrow> bool" where
  "allowed cfg K s \<longleftrightarrow>
     (\<exists>r. s = InsertRequest (row_of r) \<and> sound_request cfg r) \<or>
     (\<exists>q r. s = update_stmt r \<and> sound_request cfg r \<and> q \<in> K \<and> same_subject q r \<and> Status r \<noteq> StatusPending) \<or>
     (\<exists>e. s = InsertAudit (audit_row_of e) \<and> storable_event e) \<or>
     (\<exists>n. s = InsertNotification n) \<or>
     s \<in> {CreateTableRequests, CreateTableAudit, CreateTableNotifications, AddColumnApprovalNotes}"

fun selected :: "req_query \<Rightarrow> request \<Rightarrow> bool" where
  "selected (SelectRequest i) r \<longleftrightarrow> ID r = i"
| "selected SelectRequests r \<longleftrightarrow> True"
| "selected (SelectByStatusBefore st col now) r \<longleftrightarrow> Status r = st"

text \<open>\<open>Q\<close> is what holds of the result, with the requests that are known by then.\<close>

primrec upholds :: "config \<Rightarrow> (request set \<Rightarrow> 'a \<Rightarrow> bool) \<Rightarrow> request set \<Rightarrow> 'a prog \<Rightarrow> bool" where
  "upholds cfg Q K (Ret a) = Q K a"
| "upholds cfg Q K (Exec s k) = (allowed cfg K s \<and> (\<forall>r. upholds cfg Q K (k r)))"
| "upholds cfg Q K (Query q k) =
     ((\<forall>e. upholds cfg Q K (k (Inl e))) \<and>
      (\<forall>rs. list_all (\<lambda>r. sound_request cfg r \<and> selected q r) rs \<longrightarrow>
         upholds cfg Q (K \<union> set rs) (k (Inr (map row_of rs)))))"
| "upholds cfg Q K (QueryAudit q k) = (\<forall>r. upholds cfg Q K (k r))"
| "upholds cfg Q K (Now k) = (\<forall>t. sane t \<longrightarrow> upholds cfg Q K (k t))"
| "upholds cfg Q K (Rand n k) = (\<forall>r. upholds cfg Q K (k r))"
| "upholds cfg Q K (Keycloak q k) = (\<forall>r. upholds cfg Q K (k r))"
| "upholds cfg Q K (Webhook q k) = (\<forall>r. upholds cfg Q K (k r))"
| "upholds cfg Q K (Log s p) = upholds cfg Q K p"
| "upholds cfg Q K (Lock m p) = upholds cfg Q K p"
| "upholds cfg Q K (Unlock m p) = upholds cfg Q K p"
| "upholds cfg Q K (GetClient k) = (\<forall>c. upholds cfg Q K (k c))"
| "upholds cfg Q K (PutClient c p) = upholds cfg Q K p"
| "upholds cfg Q K (GetManager k) = (\<forall>c. upholds cfg Q K (k c))"
| "upholds cfg Q K (PutManager c p) = upholds cfg Q K p"

abbreviation keeps :: "config \<Rightarrow> request set \<Rightarrow> 'a prog \<Rightarrow> bool" where
  "keeps cfg K p \<equiv> upholds cfg (\<lambda>_ _. True) K p"

lemma upholds_bnd:
  "upholds cfg Q K p \<Longrightarrow> (\<And>K' a. K \<subseteq> K' \<Longrightarrow> Q K' a \<Longrightarrow> upholds cfg R K' (f a)) \<Longrightarrow> upholds cfg R K (bnd p f)"
proof (induction p arbitrary: K)
  case (Query q k)
  have "upholds cfg R (K \<union> set rs) (bnd (k (Inr (map row_of rs))) f)"
    if "list_all (\<lambda>r. sound_request cfg r \<and> selected q r) rs" for rs
    by (rule Query.IH) (use that Query.prems in auto)
  with Query show ?case by simp
qed auto

lemma upheld_bnd: "keeps cfg K p \<Longrightarrow> (\<And>K' a. K \<subseteq> K' \<Longrightarrow> upholds cfg R K' (f a)) \<Longrightarrow> upholds cfg R K (bnd p f)"
  by (rule upholds_bnd)

lemma upheld_for_each:
  assumes "\<And>K' x. K \<subseteq> K' \<Longrightarrow> x \<in> set xs \<Longrightarrow> keeps cfg K' (f x)"
  shows "keeps cfg K (for_each f xs)"
  using assms
proof (induction xs arbitrary: K)
  case (Cons x xs)
  show ?case
    unfolding for_each.simps
  proof (rule upheld_bnd)
    show "keeps cfg K (f x)" using Cons.prems by simp
    show "keeps cfg K' (for_each f xs)" if "K \<subseteq> K'" for K'
      using that by (intro Cons.IH Cons.prems) auto
  qed
qed simp

lemma upheld_calls [simp]:
  "keeps cfg K (sql_audit a)" "keeps cfg K time_now" "keeps cfg K (rand_read n)" "keeps cfg K (log_line l)"
  by (simp_all add: call_defs)

lemma upholds_now:
  "(\<And>t. sane t \<Longrightarrow> upholds cfg R K (f t)) \<Longrightarrow> upholds cfg R K (bnd time_now f)"
  by (simp add: time_now_def)

section \<open>One call\<close>

lemma insert_sound:
  assumes "sound_tables cfg t" "sound_request cfg r" "exec_sem (InsertRequest (row_of r)) t n t'"
  shows "sound_tables cfg t' \<and> moved t t'"
proof -
  have ok: "store_ok t" and r: "storable_req r" using assms(1,2) by (simp_all add: sound_tables_def sound_request_def)
  note i = insert_store_ok [OF ok r assms(3)]
  have "audit_part t' = audit_part t" "notif_part t' = notif_part t" using exec_parts(1) [OF assms(3)] by simp_all
  then have "audit_ok t'" "notif_ok t'"
    using assms(1) audit_part_cong notif_part_cong by (metis sound_tables_def)+
  with i assms(1,2) have "sound_tables cfg t'" by (simp add: sound_tables_def)
  moreover have "moved t t'" using i(2,3) by (auto simp: moved_def)
  ultimately show ?thesis ..
qed

lemma update_sound:
  assumes "sound_tables cfg t" "known K t" "sound_request cfg r" "q \<in> K" "same_subject q r" "Status r \<noteq> StatusPending"
    and sem: "exec_sem (update_stmt r) t n t'"
  shows "sound_tables cfg t' \<and> moved t t'"
proof -
  have ok: "store_ok t" and r: "storable_req r" using assms(1,3) by (simp_all add: sound_tables_def sound_request_def)
  obtain a b where "n = (a, b)" by (cases n)
  note u = update_store_ok [OF ok r sem [unfolded this]]
  have "ID q = ID r" using assms(5) by (simp add: same_subject_def)
  with assms(2,4) obtain q' where q': "reqs t (ID r) = Some q'" "same_subject q q'" by (auto simp: known_def)
  then have sub: "same_subject q' r" using assms(5) by (simp add: same_subject_def)
  with u(2) q' have t': "reqs t' = (reqs t)(ID r \<mapsto> r)" by simp
  have "audit_part t' = audit_part t" "notif_part t' = notif_part t" using exec_parts(2) [OF sem] by simp_all
  then have "audit_ok t'" "notif_ok t'"
    using assms(1) audit_part_cong notif_part_cong by (metis sound_tables_def)+
  with u(1) t' assms(1,3) have "sound_tables cfg t'" by (simp add: sound_tables_def)
  moreover have "moved t t'" using t' q'(1) sub assms(6) by (auto simp: moved_def)
  ultimately show ?thesis ..
qed

lemma unmoved:
  assumes "request_part t' = request_part t"
  shows "store_ok t' = store_ok t" "reqs t' = reqs t" "moved t t'"
  using request_part_cong [OF assms] by (simp_all add: moved_def)

lemma audit_sound:
  assumes "sound_tables cfg t" "storable_event e" "exec_sem (InsertAudit (audit_row_of e)) t n t'"
  shows "sound_tables cfg t' \<and> moved t t'"
proof -
  obtain a b where n: "n = (a, b)" by (cases n)
  have "audit_ok t" using assms(1) by (simp add: sound_tables_def)
  from append_audit_ok(1) [OF this assms(2) assms(3) [unfolded n]] have "audit_ok t'" .
  moreover have p: "request_part t' = request_part t" "notif_part t' = notif_part t" using exec_parts(3) [OF assms(3)] by simp_all
  moreover have "notif_ok t'" using assms(1) notif_part_cong [OF p(2)] by (simp add: sound_tables_def)
  ultimately show ?thesis using assms(1) unmoved [OF p(1)] by (simp add: sound_tables_def)
qed

lemma mark_sound:
  assumes "sound_tables cfg t" "exec_sem (InsertNotification v) t n t'"
  shows "sound_tables cfg t' \<and> moved t t'"
proof -
  obtain a b where n: "n = (a, b)" by (cases n)
  have p: "request_part t' = request_part t" "audit_part t' = audit_part t" using exec_parts(4) [OF assms(2)] by simp_all
  have "notif_ok t'"
    using assms by (cases "notif_key v \<in> notif_key ` set (t_notifs t)") (auto simp: n sound_tables_def notif_ok_def)
  then show ?thesis using assms(1) unmoved [OF p(1)] audit_part_cong [OF p(2)] by (simp add: sound_tables_def)
qed

lemma allowed_sound:
  assumes "sound_tables cfg t" "known K t" "allowed cfg K s" "exec_sem s t n t'"
  shows "sound_tables cfg t' \<and> moved t t'"
  using assms(3) unfolding allowed_def
proof (elim disjE exE conjE)
  fix r assume "s = InsertRequest (row_of r)" "sound_request cfg r"
  with assms(1,4) insert_sound show ?thesis by blast
next
  fix q r assume "s = update_stmt r" "sound_request cfg r" "q \<in> K" "same_subject q r" "Status r \<noteq> StatusPending"
  with assms(1,2,4) update_sound show ?thesis by blast
next
  fix e assume "s = InsertAudit (audit_row_of e)" "storable_event e"
  with assms(1,4) audit_sound show ?thesis by blast
next
  fix v assume "s = InsertNotification v"
  with assms(1,4) mark_sound show ?thesis by blast
next
  assume "s \<in> {CreateTableRequests, CreateTableAudit, CreateTableNotifications, AddColumnApprovalNotes}"
  with assms(1,4) have "t' = t"
    by (cases n) (auto simp: sound_tables_def store_ok_def audit_ok_def notif_ok_def)
  with assms(1) show ?thesis by (simp add: moved_refl)
qed

text \<open>The rows of a query are those of sound requests of the table.\<close>

lemma query_sound:
  assumes "sound_tables cfg t" "query_sem q t rows"
  shows "\<exists>rs. rows = map row_of rs \<and> list_all (\<lambda>r. sound_request cfg r \<and> selected q r) rs \<and> known (set rs) t"
proof -
  have ok: "store_ok t" and sound: "\<And>i r. reqs t i = Some r \<Longrightarrow> sound_request cfg r"
    using assms(1) by (auto simp: sound_tables_def)
  have "\<exists>r. row = row_of r \<and> sound_request cfg r \<and> selected q r \<and> reqs t (ID r) = Some r" if "row \<in> set rows" for row
  proof -
    have row: "row \<in> set (t_requests t)" and sel: "case q of SelectRequest i \<Rightarrow> c_id row = i | SelectRequests \<Rightarrow> True
        | SelectByStatusBefore st col now \<Rightarrow> c_status row = st"
      using assms(2) that by (cases q; auto dest!: same_rows_set)+
    from row store_okD(1) [OF ok] obtain r where r: "r \<in> set (requests_of t)" "row = row_of r" by (metis imageE list.set_map)
    then have "reqs t (ID r) = Some r" using reqs_Some_iff [OF ok] by simp
    with sound r sel show ?thesis by (cases q) (auto simp: row_of_def)
  qed
  then obtain f where f: "\<And>row. row \<in> set rows \<Longrightarrow>
      row = row_of (f row) \<and> sound_request cfg (f row) \<and> selected q (f row) \<and> reqs t (ID (f row)) = Some (f row)"
    by metis
  show ?thesis
    by (rule exI [of _ "map f rows"]) (use f in \<open>auto simp: list_all_iff known_def intro!: map_idI [symmetric]\<close>)
qed

section \<open>Databases that are not complete\<close>

text \<open>
  A start that was cut leaves a database in which some of the tables may be missing.  What counts
  is what the next start makes of it: \<open>completed\<close> are the tables with the missing ones created,
  and a statement on the database is the same statement on those.
\<close>

definition completed :: "tables \<Rightarrow> tables" where
  "completed t =
     \<lparr>has_requests = True, has_notes = True, has_audit = True, has_notifs = True,
      t_requests = (if has_requests t then t_requests t else []),
      t_audit = (if has_audit t then t_audit t else []), t_seq = (if has_audit t then t_seq t else 0),
      t_notifs = (if has_notifs t then t_notifs t else [])\<rparr>"

definition recoverable :: "config \<Rightarrow> tables \<Rightarrow> bool" where
  "recoverable cfg t \<longleftrightarrow> (has_requests t \<longrightarrow> has_notes t) \<and> sound_tables cfg (completed t)"

lemma completed_full:
  assumes "has_requests t" "has_notes t" "has_audit t" "has_notifs t"
  shows "completed t = t"
  using assms by (cases t) (simp add: completed_def)

lemma sound_full: "sound_tables cfg t \<Longrightarrow> completed t = t"
  by (rule completed_full) (simp_all add: sound_tables_def store_ok_def audit_ok_def notif_ok_def)

lemma sound_recoverable: "sound_tables cfg t \<Longrightarrow> recoverable cfg t"
  by (simp add: recoverable_def sound_full) (simp add: sound_tables_def store_ok_def)

lemma empty_recoverable: "recoverable cfg empty_tables"
  by (simp add: recoverable_def sound_tables_def completed_def empty_tables_def store_ok_def audit_ok_def
      notif_ok_def reqs_def requests_of_def)

lemma exec_completed:
  assumes "exec_sem st t n t'" "has_requests t \<longrightarrow> has_notes t"
  shows "exec_sem st (completed t) n (completed t') \<and> (has_requests t' \<longrightarrow> has_notes t')"
proof -
  obtain a b where n: "n = (a, b)" by (cases n)
  from assms show ?thesis
    by (cases st) (simp_all add: n completed_def split: if_splits)
qed

lemma query_completed: "query_sem q t rows \<Longrightarrow> query_sem q (completed t) rows"
  by (cases q) (simp_all add: completed_def)

lemma allowed_recoverable:
  assumes "recoverable cfg t" "known K (completed t)" "allowed cfg K s" "exec_sem s t n t'"
  shows "recoverable cfg t' \<and> moved (completed t) (completed t')"
proof -
  have "has_requests t \<longrightarrow> has_notes t" and sound: "sound_tables cfg (completed t)"
    using assms(1) by (simp_all add: recoverable_def)
  note e = exec_completed [OF assms(4) this(1)]
  from allowed_sound [OF sound assms(2,3) conjunct1 [OF e]] e show ?thesis by (simp add: recoverable_def)
qed

section \<open>The pool\<close>

text \<open>What each thread guarantees, \<open>R\<close>, the knowledge of the others survives.\<close>

lemma pool_rely:
  assumes "pool E new w0 c"
    and start: "I w0" "\<And>p w. p \<in> new \<Longrightarrow> I w \<Longrightarrow> J w p"
    and keep: "\<And>p w p' w'. J w p \<Longrightarrow> I w \<Longrightarrow> step E p w = Some (p', w') \<Longrightarrow> J w' p' \<and> I w' \<and> R w w'"
    and stable: "\<And>q w w'. J w q \<Longrightarrow> R w w' \<Longrightarrow> J w' q"
    and order: "R w0 w0" "\<And>w w'. R w0 w \<Longrightarrow> R w w' \<Longrightarrow> R w0 w'"
  shows "I (snd c) \<and> R w0 (snd c) \<and> (\<forall>p \<in> set (fst c). J (snd c) p)"
  using assms(1)
proof (induction rule: pool.induct)
  case (pool_move c i c')
  obtain ps w where c: "c = (ps, w)" by (cases c)
  with pool_move.hyps obtain p' w' where
    s: "i < length ps" "step E (ps ! i) w = Some (p', w')" "c' = (ps[i := p'], w')"
    by (auto simp: pool_step_iff)
  have "J w (ps ! i)" "I w" "R w0 w" using pool_move.IH c s(1) by auto
  from keep [OF this(1,2) s(2)] have k: "J w' p'" "I w'" "R w w'" by blast+
  with pool_move.IH c stable have "\<forall>p \<in> set ps. J w' p" by (metis fst_conv snd_conv)
  with k(1) have "\<forall>p \<in> set (ps[i := p']). J w' p" by (auto dest!: set_update_subset_insert [THEN subsetD])
  with k(2) order(2) [OF \<open>R w0 w\<close> k(3)] s(3) show ?case by simp
qed (use start order(1) in auto)

locale pool_world = service_db E tabs + clock E fair
  for E :: "('d, 'k, 'o) env" and tabs :: "'d \<Rightarrow> tables" and fair :: "'o \<Rightarrow> bool"
begin

abbreviation rows :: "('d, 'k, 'o) world \<Rightarrow> tables" where
  "rows w \<equiv> completed (tabs (w_db w))"

lemma step_upholds:
  assumes p: "upholds cfg Q K p" and known: "known K (rows w)" and sound: "recoverable cfg (tabs (w_db w))"
    and fair: "fair (w_other w)" and s: "step E p w = Some (p', w')"
  shows "(\<exists>K'. upholds cfg Q K' p' \<and> known K' (rows w')) \<and> recoverable cfg (tabs (w_db w')) \<and>
    fair (w_other w') \<and> moved (rows w) (rows w')"
proof (cases p)
  case (Exec st k)
  with s obtain r d where e: "e_exec E st (w_db w) = (r, d)" "p' = k r" "w' = w\<lparr>w_db := d\<rparr>" by (auto split: prod.splits)
  have k: "upholds cfg Q K p'" "allowed cfg K st" using p Exec e(2) by simp_all
  have "recoverable cfg (tabs d) \<and> moved (rows w) (completed (tabs d))"
    using exec_cases [OF e(1)] allowed_recoverable [OF sound known k(2)] sound moved_refl by metis
  with k(1) known_moved [OF known] fair e(3) show ?thesis by auto
next
  case (Query q k)
  with s obtain r d where e: "e_query E q (w_db w) = (r, d)" "p' = k r" "w' = w\<lparr>w_db := d\<rparr>" by (auto split: prod.splits)
  note frame = query_frame [OF e(1)]
  have "\<exists>K'. upholds cfg Q K' p' \<and> known K' (rows w)"
  proof (cases r)
    case (Inl x)
    then show ?thesis using p known Query e(2) by auto
  next
    case (Inr found)
    from query_ok e(1) Inr have "query_sem q (rows w) found" by (blast intro: query_completed)
    from query_sound [OF _ this] sound obtain rs where
      rs: "found = map row_of rs" "list_all (\<lambda>r. sound_request cfg r \<and> selected q r) rs" "known (set rs) (rows w)"
      unfolding recoverable_def by blast
    with p Query Inr e(2) have "upholds cfg Q (K \<union> set rs) p'" by simp
    with rs(3) known show ?thesis by (auto simp: known_Un intro!: exI [of _ "K \<union> set rs"])
  qed
  with frame sound fair e(3) show ?thesis by (simp add: moved_refl)
next
  case (QueryAudit q k)
  with p known sound fair s audit_frame show ?thesis by (auto simp: moved_refl split: prod.splits)
next
  case (Now k)
  with p known sound fair s now_fair show ?thesis by (fastforce simp: moved_refl split: prod.splits)
next
  case (Rand n k)
  with p known sound fair s rand_fair show ?thesis by (fastforce simp: moved_refl split: prod.splits)
next
  case (Webhook q k)
  with p known sound fair s webhook_fair show ?thesis by (fastforce simp: moved_refl split: prod.splits)
qed (use p known sound fair s in \<open>auto simp: moved_refl split: prod.splits if_splits\<close>)

text \<open>A thread that runs alone.\<close>

lemma run_upholds_step:
  assumes s: "step E p w = Some (p1, w1)"
    and p: "upholds cfg Q K p" "known K (rows w)" "recoverable cfg (tabs (w_db w))" "fair (w_other w)"
    and r: "run E p w = (a, w')"
    and IH: "\<And>K. upholds cfg Q K p1 \<Longrightarrow> known K (rows w1) \<Longrightarrow> recoverable cfg (tabs (w_db w1)) \<Longrightarrow>
        fair (w_other w1) \<Longrightarrow> run E p1 w1 = (a, w') \<Longrightarrow>
        recoverable cfg (tabs (w_db w')) \<and> fair (w_other w') \<and> moved (rows w1) (rows w')"
  shows "recoverable cfg (tabs (w_db w')) \<and> fair (w_other w') \<and> moved (rows w) (rows w')"
proof -
  from step_upholds [OF p s] obtain K' where k: "upholds cfg Q K' p1" "known K' (rows w1)"
    and w1: "recoverable cfg (tabs (w_db w1))" "fair (w_other w1)" "moved (rows w) (rows w1)"
    by blast
  have "run E p1 w1 = (a, w')" using step_run [OF s] r by simp
  from IH [OF k w1(1,2) this] w1(3) show ?thesis by (blast intro: moved_trans)
qed

lemma run_upholds:
  assumes "upholds cfg Q K p" "known K (rows w)" "recoverable cfg (tabs (w_db w))" "fair (w_other w)"
    and "run E p w = (a, w')"
  shows "recoverable cfg (tabs (w_db w')) \<and> fair (w_other w') \<and> moved (rows w) (rows w')"
  using assms
proof (induction p arbitrary: K w)
  case (Exec st k)
  show ?case by (rule run_upholds_step [OF _ Exec.prems Exec.IH [OF rangeI]]) (simp only: step.simps case_prod_unfold)
next
  case (Query q k)
  show ?case by (rule run_upholds_step [OF _ Query.prems Query.IH [OF rangeI]]) (simp only: step.simps case_prod_unfold)
next
  case (QueryAudit q k)
  show ?case by (rule run_upholds_step [OF _ QueryAudit.prems QueryAudit.IH [OF rangeI]]) (simp only: step.simps case_prod_unfold)
next
  case (Now k)
  show ?case by (rule run_upholds_step [OF _ Now.prems Now.IH [OF rangeI]]) (simp only: step.simps case_prod_unfold)
next
  case (Rand n k)
  show ?case by (rule run_upholds_step [OF _ Rand.prems Rand.IH [OF rangeI]]) (simp only: step.simps case_prod_unfold)
next
  case (Keycloak q k)
  show ?case by (rule run_upholds_step [OF _ Keycloak.prems Keycloak.IH [OF rangeI]]) (simp only: step.simps case_prod_unfold)
next
  case (Webhook q k)
  show ?case by (rule run_upholds_step [OF _ Webhook.prems Webhook.IH [OF rangeI]]) (simp only: step.simps case_prod_unfold)
next
  case (GetClient k)
  show ?case by (rule run_upholds_step [OF _ GetClient.prems GetClient.IH [OF rangeI]]) (simp only: step.simps)
next
  case (GetManager k)
  show ?case by (rule run_upholds_step [OF _ GetManager.prems GetManager.IH [OF rangeI]]) (simp only: step.simps)
next
  case (Lock m p)
  then show ?case using Lock.IH [of K "w\<lparr>w_held := insert m (w_held w)\<rparr>"] by simp
next
  case (Log l p)
  show ?case by (rule run_upholds_step [OF _ Log.prems Log.IH]) (simp only: step.simps)
next
  case (Unlock m p)
  show ?case by (rule run_upholds_step [OF _ Unlock.prems Unlock.IH]) (simp only: step.simps)
next
  case (PutClient c p)
  show ?case by (rule run_upholds_step [OF _ PutClient.prems PutClient.IH]) (simp only: step.simps)
next
  case (PutManager c p)
  show ?case by (rule run_upholds_step [OF _ PutManager.prems PutManager.IH]) (simp only: step.simps)
qed (simp add: moved_refl)

lemma pool_sound:
  assumes "pool E new w0 c" "recoverable cfg (tabs (w_db w0))" "fair (w_other w0)"
    and new: "\<And>p. p \<in> new \<Longrightarrow> keeps cfg {} p"
  shows "recoverable cfg (tabs (w_db (snd c))) \<and> moved (rows w0) (rows (snd c))"
proof -
  let ?I = "\<lambda>w. recoverable cfg (tabs (w_db w)) \<and> fair (w_other w)"
  let ?J = "\<lambda>w p. \<exists>K. keeps cfg K p \<and> known K (rows w)"
  let ?R = "\<lambda>w w'. moved (rows w) (rows w')"
  have "?I (snd c) \<and> ?R w0 (snd c) \<and> (\<forall>p \<in> set (fst c). ?J (snd c) p)"
    using assms(1)
  proof (rule pool_rely [where J = ?J])
    show "?J w' p' \<and> ?I w' \<and> ?R w w'" if "?J w p" "?I w" "step E p w = Some (p', w')" for p p' w w'
      using that step_upholds by blast
    show "?J w' q" if "?J w q" "?R w w'" for q w w' using that known_moved by blast
    show "?J w p" if "p \<in> new" for p w using new [OF that] known_empty by blast
    show "?R w0 w'" if "?R w0 w" "?R w w'" for w w' using that by (rule moved_trans)
  qed (use assms(2,3) in \<open>auto simp: moved_refl\<close>)
  then show ?thesis by blast
qed

end

section \<open>The threads\<close>

named_theorems upheld_intros \<open>programs that leave the rows alone or sound\<close>

lemma scan_rows_sound:
  assumes "list_all (\<lambda>r. sound_request cfg r \<and> P r) rs"
  shows "traverse scanRequest (map row_of rs) = Inr rs"
  using assms by (intro traverse_map_Inr [of "map row_of rs" scanRequest "\<lambda>row. projr (scanRequest row)", THEN trans])
    (auto simp: sound_request_def list_all_iff intro!: map_idI)

text \<open>What a read of the store gives.\<close>

lemma upholds_Get:
  "upholds cfg (\<lambda>K x. \<forall>r. x = Inr r \<longrightarrow> sound_request cfg r \<and> r \<in> K) K (Get i)"
  by (auto simp: Get_def sql_query_def sound_request_def split: list.split)

lemma upholds_scan_rows:
  "upholds cfg (\<lambda>K x. \<forall>rs. x = Inr rs \<longrightarrow> (\<forall>r \<in> set rs. sound_request cfg r \<and> r \<in> K \<and> selected q r)) K (scan_rows q)"
  by (auto simp: scan_rows_def sql_query_def scan_rows_sound list_all_iff)

lemma upholds_PendingExpired:
  "upholds cfg (\<lambda>K x. \<forall>rs. x = Inr rs \<longrightarrow> (\<forall>r \<in> set rs. sound_request cfg r \<and> r \<in> K \<and> Status r = StatusPending)) K
     (PendingExpired t)"
  using upholds_scan_rows [of cfg "SelectByStatusBefore StatusPending _ _"]
  by (simp add: PendingExpired_def byStatusBefore_def)

lemma upholds_ActiveExpired:
  "upholds cfg (\<lambda>K x. \<forall>rs. x = Inr rs \<longrightarrow> (\<forall>r \<in> set rs. sound_request cfg r \<and> r \<in> K \<and> Status r = StatusApproved)) K
     (ActiveExpired t)"
  using upholds_scan_rows [of cfg "SelectByStatusBefore StatusApproved _ _"]
  by (simp add: ActiveExpired_def byStatusBefore_def)

text \<open>What is written.\<close>

lemma upheld_Create: "sound_request cfg r \<Longrightarrow> keeps cfg K (Create r)"
  by (auto simp: Create_def sql_exec_def allowed_def)

lemma upheld_Update:
  "sound_request cfg r \<Longrightarrow> q \<in> K \<Longrightarrow> same_subject q r \<Longrightarrow> Status r \<noteq> StatusPending \<Longrightarrow> keeps cfg K (Update r)"
  by (auto simp: Update_def update_stmt_def [symmetric] sql_exec_def allowed_def)

lemma upheld_AppendAudit: "EvAt e = zero_time \<Longrightarrow> keeps cfg K (AppendAudit e)"
  by (auto simp: AppendAudit_def call_defs allowed_def storable_event_def sane_storable)

lemma upheld_store [upheld_intros]:
  "keeps cfg K (Get i)" "keeps cfg K List_requests" "keeps cfg K (ListAudit f)" "keeps cfg K (TryMarkNotified i k)"
  by (auto simp: Get_def List_requests_def scan_rows_def ListAudit_def TryMarkNotified_def call_defs allowed_def)

lemma upheld_notify [upheld_intros]: "keeps cfg K (NotifyOnce n i k t)"
  by (auto simp: NotifyOnce_def TryMarkNotified_def post_def call_defs allowed_def split: sum.split)

lemma upheld_Auth [upheld_intros]:
  "keeps c K (FromRequest cfg rq)" "keeps c K (Actor m cfg rq)" "keeps c K (LoginURL cfg)" "keeps c K (HandleCallback cfg rq)"
proof -
  show f: "keeps c K (FromRequest cfg rq)" for cfg K
    by (auto simp: FromRequest_def intro!: upheld_bnd split: sum.split)
  show "keeps c K (Actor m cfg rq)"
    by (auto simp: Actor_def Let_def intro!: upheld_bnd f split: option.split)
  show "keeps c K (LoginURL cfg)"
    by (auto simp: LoginURL_def randomToken_def intro!: upheld_bnd split: sum.split)
  have "keeps c K (exchange_code cfg code v)" for code v K
    by (auto simp: exchange_code_def userInfo_def intro!: upheld_bnd split: sum.split)
  then show "keeps c K (HandleCallback cfg rq)"
    by (auto simp: HandleCallback_def take_state_def Let_def intro!: upheld_bnd split: sum.split option.split)
qed

lemma upheld_helpers [upheld_intros]:
  "keeps c K (audit s ac a su i ju de bg)" "keeps c K (actor s rq)" "keeps c K newID"
  "(\<And>n. keeps c K (f n)) \<Longrightarrow> keeps c K (notifying s f)"
  by (auto simp: audit_def actor_def newID_def notifying_def intro!: upheld_bnd upheld_intros upheld_AppendAudit
      split: sum.split option.split)

lemma upheld_client:
  "keeps c K (InGroup cfg u g)" "keeps c K (change_membership cfg verb u g)"
proof -
  have t: "keeps c K (accessToken cfg)" for K
    by (auto simp: accessToken_def fetch_token_def split: sum.splits)
  have d: "keeps c K (do_request cfg verb path out z)" for verb path out z K
    unfolding do_request_def by (intro upheld_bnd t) (simp split: sum.split)
  have u: "keeps c K (userID cfg u)" for u K by (auto simp: userID_def d intro!: upheld_bnd)
  have g: "keeps c K (groupID cfg name)" for name K
    by (auto simp: groupID_def d intro!: upheld_bnd split: option.split sum.split)
  show "keeps c K (InGroup cfg u g)"
    by (auto simp: InGroup_def userGroups_def u d intro!: upheld_bnd split: sum.split)
  show "keeps c K (change_membership cfg verb u g)"
    by (auto simp: change_membership_def u g d intro!: upheld_bnd split: sum.split)
qed

text \<open>The four requests the handlers write.\<close>

lemma sound_new:
  assumes "read_create who text = Inr b" "sane now" "ttl_ok cfg"
  shows "sound_request cfg (new_request cfg i b now)"
proof -
  have "cb_Username b \<noteq> [] \<and> minJustificationLen \<le> length (cb_Justification b)"
    using assms(1) by (auto simp: read_create_def Let_def split: sum.splits if_splits)
  moreover have "storable now" "storable (now + RequestTTL cfg)"
    using assms(2,3) by (auto simp: sane_storable ttl_ok_def intro: sane_deadline)
  ultimately show ?thesis by (simp add: sound_request_def new_request_def storable_req_def)
qed

lemma sound_approved:
  assumes "sound_request cfg r" "Status r = StatusPending" "who \<noteq> []" "read_approve text = Inr notes"
    "now \<le> RequestExpiresAt r" "sane now" "ttl_ok cfg"
  shows "sound_request cfg (approved_request cfg r who notes now)"
proof -
  have "minApprovalNotesLen \<le> length notes"
    using assms(4) by (auto simp: read_approve_def Let_def split: sum.splits if_splits)
  moreover have "storable now" "storable (now + ActiveTTL cfg)"
    using assms(6,7) by (auto simp: sane_storable ttl_ok_def intro: sane_deadline)
  ultimately show ?thesis using assms(1-3,5) by (auto simp: sound_request_def approved_request_def storable_req_def)
qed

lemma sound_expired: "sound_request cfg r \<Longrightarrow> Status r = StatusPending \<Longrightarrow> sound_request cfg (r\<lparr>Status := StatusExpired\<rparr>)"
  by (auto simp: sound_request_def storable_req_def)

lemma sound_released:
  "sound_request cfg r \<Longrightarrow> Status r = StatusApproved \<Longrightarrow> sane now \<Longrightarrow> sound_request cfg (released_request r now)"
  by (auto simp: sound_request_def released_request_def storable_req_def sane_storable split: option.splits)

lemma upheld_messages [upheld_intros]:
  "keeps c K (notifying s (\<lambda>n. PendingApprovers n r))" "keeps c K (notifying s (\<lambda>n. Approved n r))"
  "keeps c K (notifying s (\<lambda>n. RequestExpired n r))" "keeps c K (notifying s (\<lambda>n. Released n r x))"
  by (rule upheld_helpers(4), simp add: message_defs upheld_notify)+

locale careful_service =
  fixes s :: service
  assumes groups_keep:
      "keeps c K (kc_InGroup (sv_kc s) u g)" "keeps c K (kc_AddToGroup (sv_kc s) u g)"
      "keeps c K (kc_RemoveFromGroup (sv_kc s) u g)"
    and ttl: "ttl_ok (sv_cfg s)"
begin

abbreviation writes :: "request set \<Rightarrow> 'a prog \<Rightarrow> bool" where
  "writes K p \<equiv> keeps (sv_cfg s) K p"

lemma upheld_group_or_not [upheld_intros]: "keeps c K (in_group_or_not s u g)"
  by (auto simp: in_group_or_not_def intro!: upheld_bnd groups_keep)

lemma upheld_signing [upheld_intros]:
  "keeps c K (handleLogin s rq)" "keeps c K (handleCallback s rq)" "keeps c K (handleLogout s rq)"
  "keeps c K (handleMe s rq)"
  by (auto simp: handleLogin_def handleCallback_def handleLogout_def handleMe_def Let_def
      intro!: upheld_bnd upheld_intros groups_keep split: option.split)

lemma upheld_reading [upheld_intros]:
  "keeps c K (handleAudit s rq)" "keeps c K (handleList s rq)" "keeps c K (handleGet s rq i)"
  by (auto simp: handleAudit_def handleList_def handleGet_def intro!: upheld_bnd upheld_intros)

lemma writes_create [upheld_intros]: "writes K (handleCreate s rq)"
  using sound_new [OF _ _ ttl]
  by (auto simp: handleCreate_def Let_def intro!: upheld_bnd upholds_now upheld_Create upheld_intros groups_keep split: sum.split)

lemma writes_grant [upheld_intros]:
  assumes "sound_request (sv_cfg s) r" "r \<in> K" "Status r = StatusPending"
  shows "writes K (expire_late s r)"
    "who \<noteq> [] \<Longrightarrow> read_approve text = Inr notes \<Longrightarrow> now \<le> RequestExpiresAt r \<Longrightarrow> sane now \<Longrightarrow> writes K (grant s r who notes now)"
proof -
  show "writes K (expire_late s r)"
    using sound_expired [OF assms(1,3)] assms(2)
    by (auto simp: expire_late_def Let_def same_subject_def intro!: upheld_bnd upheld_Update [where q = r] upheld_intros)
  assume "who \<noteq> []" "read_approve text = Inr notes" "now \<le> RequestExpiresAt r" "sane now"
  from sound_approved [OF assms(1,3) this ttl] assms(2) show "writes K (grant s r who notes now)"
    by (auto simp: grant_def Let_def same_subject_def approved_request_def
        intro!: upheld_bnd groups_keep upheld_Update [where q = r] upheld_intros split: sum.split) blast
qed

lemma writes_release [upheld_intros]:
  assumes "sound_request (sv_cfg s) r" "r \<in> K" "Status r = StatusApproved"
  shows "writes K (release s r who action)" "writes K (revoke_one s r)"
proof -
  have u: "writes K' (Update (released_request r now))" if "sane now" "K \<subseteq> K'" for K' now
    using sound_released [OF assms(1,3) that(1)] assms(2) that(2)
    by (intro upheld_Update [where q = r]) (auto simp: same_subject_def released_request_def)
  show "writes K (release s r who action)"
    by (auto simp: release_def Let_def intro!: upheld_bnd upholds_now groups_keep u upheld_intros split: sum.split)
  show "writes K (revoke_one s r)"
    by (auto simp: revoke_one_def Let_def intro!: upheld_bnd upholds_now groups_keep u upheld_intros split: sum.split)
qed

lemma writes_expire_one [upheld_intros]:
  assumes "sound_request (sv_cfg s) r" "r \<in> K" "Status r = StatusPending"
  shows "writes K (expire_one s r)"
  using sound_expired [OF assms(1,3)] assms(2)
  by (auto simp: expire_one_def Let_def same_subject_def intro!: upheld_bnd upheld_Update [where q = r] upheld_intros
      split: sum.split)

lemma upheld_may_release [upheld_intros]: "keeps c K (may_release s who r)"
  by (auto simp: may_release_def intro!: upheld_bnd groups_keep)

lemma writes_decide [upheld_intros]: "writes K (handleApprove s rq i)" "writes K (handleRelease s rq i)"
proof -
  show "writes K (handleApprove s rq i)"
    by (auto simp: handleApprove_def intro!: upheld_bnd [OF upheld_helpers(2)] upheld_bnd [OF groups_keep(1)]
        upholds_bnd [OF upholds_Get] upholds_now writes_grant split: sum.split)
  show "writes K (handleRelease s rq i)"
    by (auto simp: handleRelease_def intro!: upheld_bnd [OF upheld_helpers(2)] upholds_bnd [OF upholds_Get]
        upheld_bnd [OF upheld_may_release] upheld_bnd [OF writes_release(1)] split: sum.split option.split) blast
qed

lemma writes_tick [upheld_intros]: "writes K (Reconcile s)" "writes K (tick s)"
proof -
  show r: "writes K (Reconcile s)" for K
    by (auto simp: Reconcile_def intro!: upholds_now upholds_bnd [OF upholds_PendingExpired]
        upholds_bnd [OF upholds_ActiveExpired] upheld_bnd [OF upheld_for_each] writes_expire_one writes_release(2)
        split: sum.split) blast+
  show "writes K (tick s)" by (auto simp: tick_def intro!: upheld_bnd r split: sum.split)
qed

lemma writes_router [upheld_intros]: "writes K (NewRouter index files s rq)"
  by (auto simp: NewRouter_def Let_def intro!: upheld_intros)

lemma writes_threads: "p \<in> threads index files s \<Longrightarrow> writes K p"
  by (auto simp: threads_def http_thread_def intro!: upheld_bnd upheld_intros)

end

text \<open>The service that \<open>main\<close> builds.\<close>

lemma make_service_cfg [simp]: "sv_cfg (make_service cfg) = cfg"
  by (simp add: make_service_def NewService_def)

interpretation built_careful: careful_service "make_service (FromEnv os)" for os
  by unfold_locales
    (simp_all add: make_service_def NewService_def Client_groups_def AddToGroup_def RemoveFromGroup_def upheld_client ttl_ok_FromEnv)

text \<open>The start itself: the statements of the migration change nothing that is there.\<close>

lemma upheld_migrate: "keeps c K migrate"
  by (auto simp: migrate_def migrateAudit_def migrateNotify_def migrateApprovalNotes_def exec_only_def sql_exec_def
      allowed_def intro!: upheld_bnd split: sum.split)

lemma upheld_main_start:
  "upholds (FromEnv os) (\<lambda>_ r. r \<in> {None, Some (make_service (FromEnv os))}) K (main_start sql_Open os)"
proof -
  have "keeps (FromEnv os) K (Reconcile (make_service (FromEnv os)))" for K
    using built_careful.writes_tick(1) [of os K] by simp
  then show ?thesis
    by (auto simp: main_start_def Open_def Let_def intro!: upheld_bnd upheld_migrate split: sum.split option.split)
qed

end
