(* ===== verification/Confinement.thy ===== *)
theory Confinement
  imports Guarantee System
begin

text \<open>
  What the threads do to the memberships, whatever the others do meanwhile.  \<open>confined\<close> is the
  companion of \<open>upholds\<close> for the exchanges with Keycloak: each of them stays within a relation
  on the states of the server that may depend on the requests the thread has read.  For the
  client of the repository the relation is \<open>only_requested\<close>: nothing but the active group
  changes, and only users of requests enter it.
\<close>

section \<open>Confined programs\<close>

text \<open>\<open>kc\<close> is the server, \<open>R\<close> what an exchange may do to it, and \<open>M\<close> an invariant of the memory of
  the client.\<close>

primrec confined ::
  "(http_request \<Rightarrow> 'k \<Rightarrow> (error + http_response) \<times> 'k) \<Rightarrow> (request set \<Rightarrow> 'k \<Rightarrow> 'k \<Rightarrow> bool) \<Rightarrow>
   (client_mem \<Rightarrow> bool) \<Rightarrow> (request set \<Rightarrow> 'a \<Rightarrow> bool) \<Rightarrow> request set \<Rightarrow> 'a prog \<Rightarrow> bool"
where
  "confined kc R M Q K (Ret a) = Q K a"
| "confined kc R M Q K (Exec s k) = (\<forall>r. confined kc R M Q K (k r))"
| "confined kc R M Q K (Query q k) =
     ((\<forall>e. confined kc R M Q K (k (Inl e))) \<and>
      (\<forall>rs. list_all storable_req rs \<longrightarrow> confined kc R M Q (K \<union> set rs) (k (Inr (map row_of rs)))))"
| "confined kc R M Q K (QueryAudit q k) = (\<forall>r. confined kc R M Q K (k r))"
| "confined kc R M Q K (Now k) = (\<forall>t. confined kc R M Q K (k t))"
| "confined kc R M Q K (Rand n k) = (\<forall>r. confined kc R M Q K (k r))"
| "confined kc R M Q K (Keycloak q k) =
     (\<forall>d r d'. kc q d = (r, d') \<longrightarrow> R K d d' \<and> confined kc R M Q K (k r))"
| "confined kc R M Q K (Webhook q k) = (\<forall>r. confined kc R M Q K (k r))"
| "confined kc R M Q K (Log s p) = confined kc R M Q K p"
| "confined kc R M Q K (Lock m p) = confined kc R M Q K p"
| "confined kc R M Q K (Unlock m p) = confined kc R M Q K p"
| "confined kc R M Q K (GetClient k) = (\<forall>c. M c \<longrightarrow> confined kc R M Q K (k c))"
| "confined kc R M Q K (PutClient c p) = (M c \<and> confined kc R M Q K p)"
| "confined kc R M Q K (GetManager k) = (\<forall>c. confined kc R M Q K (k c))"
| "confined kc R M Q K (PutManager c p) = confined kc R M Q K p"

lemma confined_bnd:
  "confined kc R M Q K p \<Longrightarrow> (\<And>K' a. K \<subseteq> K' \<Longrightarrow> Q K' a \<Longrightarrow> confined kc R M S K' (f a)) \<Longrightarrow>
   confined kc R M S K (bnd p f)"
proof (induction p arbitrary: K)
  case (Query q k)
  have "confined kc R M S (K \<union> set rs) (bnd (k (Inr (map row_of rs))) f)" if "list_all storable_req rs" for rs
    by (rule Query.IH) (use that Query.prems in auto)
  with Query show ?case by simp
next
  case (Keycloak q k)
  then show ?case by auto
qed auto

lemma confined_any: "confined kc R M Q K p \<Longrightarrow> confined kc R M (\<lambda>_ _. True) K p"
  using confined_bnd [of kc R M Q K p "\<lambda>_ _. True" Ret] by simp

locale confinement =
  fixes kc :: "http_request \<Rightarrow> 'k \<Rightarrow> (error + http_response) \<times> 'k"
    and R :: "request set \<Rightarrow> 'k \<Rightarrow> 'k \<Rightarrow> bool" and M :: "client_mem \<Rightarrow> bool" and s :: service
  assumes form_stays: "kc (form_request url kvs) d = (r, d') \<Longrightarrow> R K d d'"
    and read_stays: "kc (bearer_request ''GET'' url tok) d = (r, d') \<Longrightarrow> R K d d'"
    and in_stays: "confined kc R M (\<lambda>_ _. True) K (kc_InGroup (sv_kc s) u g)"
    and add_stays: "q \<in> K \<Longrightarrow>
          confined kc R M (\<lambda>_ _. True) K (kc_AddToGroup (sv_kc s) (Username q) (GroupActive (sv_cfg s)))"
    and remove_stays: "confined kc R M (\<lambda>_ _. True) K (kc_RemoveFromGroup (sv_kc s) u (GroupActive (sv_cfg s)))"
begin

abbreviation stays :: "request set \<Rightarrow> 'a prog \<Rightarrow> bool" where
  "stays K p \<equiv> confined kc R M (\<lambda>_ _. True) K p"

lemma stays_bnd: "stays K p \<Longrightarrow> (\<And>K' a. K \<subseteq> K' \<Longrightarrow> confined kc R M Q K' (f a)) \<Longrightarrow> confined kc R M Q K (bnd p f)"
  by (rule confined_bnd)

lemma stays_for_each:
  assumes "\<And>K' x. K \<subseteq> K' \<Longrightarrow> x \<in> set xs \<Longrightarrow> stays K' (f x)"
  shows "stays K (for_each f xs)"
  using assms
proof (induction xs arbitrary: K)
  case (Cons x xs)
  show ?case
    unfolding for_each.simps
  proof (rule stays_bnd)
    show "stays K (f x)" using Cons.prems by simp
    show "stays K' (for_each f xs)" if "K \<subseteq> K'" for K'
      using that by (intro Cons.IH Cons.prems) auto
  qed
qed simp

lemma stays_calls [simp]:
  "stays K (sql_exec st)" "stays K (sql_audit a)" "stays K time_now" "stays K (rand_read n)" "stays K (log_line l)"
  by (simp_all add: call_defs)

lemma confined_Get: "confined kc R M (\<lambda>K x. \<forall>r. x = Inr r \<longrightarrow> r \<in> K) K (Get i)"
  by (auto simp: Get_def sql_query_def split: list.split)

lemma stays_store:
  "stays K (Get i)" "stays K List_requests" "stays K (PendingExpired t)" "stays K (ActiveExpired t)"
  "stays K (Create r)" "stays K (Update r)" "stays K (AppendAudit e)" "stays K (ListAudit f)"
  "stays K (TryMarkNotified i k)"
  by (auto simp: Get_def List_requests_def scan_rows_def PendingExpired_def ActiveExpired_def byStatusBefore_def
      Create_def Update_def AppendAudit_def ListAudit_def TryMarkNotified_def call_defs)

lemma stays_notify: "stays K (NotifyOnce n i k t)"
  by (auto simp: NotifyOnce_def TryMarkNotified_def post_def call_defs split: sum.split)

lemma stays_Auth:
  "stays K (FromRequest cfg rq)" "stays K (Actor m cfg rq)" "stays K (LoginURL cfg)" "stays K (HandleCallback cfg rq)"
proof -
  show f: "stays K (FromRequest cfg rq)" for cfg K
    by (auto simp: FromRequest_def intro!: stays_bnd split: sum.split)
  show "stays K (Actor m cfg rq)"
    by (auto simp: Actor_def Let_def intro!: stays_bnd f split: option.split)
  show "stays K (LoginURL cfg)"
    by (auto simp: LoginURL_def randomToken_def intro!: stays_bnd split: sum.split)
  have "stays K (exchange_code cfg code v)" for code v K
    by (auto simp: exchange_code_def userInfo_def intro!: stays_bnd intro: form_stays read_stays split: sum.split)
  then show "stays K (HandleCallback cfg rq)"
    by (auto simp: HandleCallback_def take_state_def Let_def intro!: stays_bnd split: sum.split option.split)
qed

lemma stays_helpers:
  "stays K (audit s ac a su i ju de bg)" "stays K (actor s rq)" "stays K newID" "stays K (in_group_or_not s u g)"
  "stays K (may_release s who r)" "(\<And>n. stays K (f n)) \<Longrightarrow> stays K (notifying s f)"
  by (auto simp: audit_def actor_def newID_def notifying_def in_group_or_not_def may_release_def
      intro!: stays_bnd stays_store stays_Auth in_stays split: sum.split option.split)

lemma stays_messages:
  "stays K (notifying s (\<lambda>n. PendingApprovers n r))" "stays K (notifying s (\<lambda>n. Approved n r))"
  "stays K (notifying s (\<lambda>n. RequestExpired n r))" "stays K (notifying s (\<lambda>n. Released n r x))"
  by (rule stays_helpers(6), simp add: message_defs stays_notify)+

lemmas stays_rules = stays_bnd stays_store stays_helpers(1-5) stays_messages in_stays remove_stays stays_Auth

lemma stays_grant: "r \<in> K \<Longrightarrow> stays K (grant s r who notes now)"
  by (auto simp: grant_def Let_def intro!: stays_rules add_stays split: sum.split)

lemma stays_steps:
  "stays K (expire_late s r)" "stays K (release s r who action)" "stays K (expire_one s r)" "stays K (revoke_one s r)"
  by (auto simp: expire_late_def release_def expire_one_def revoke_one_def Let_def intro!: stays_rules split: sum.split)

lemma stays_signing:
  "stays K (handleLogin s rq)" "stays K (handleCallback s rq)" "stays K (handleLogout s rq)" "stays K (handleMe s rq)"
  by (auto simp: handleLogin_def handleCallback_def handleLogout_def handleMe_def Let_def
      intro!: stays_rules split: option.split)

lemma stays_reading: "stays K (handleAudit s rq)" "stays K (handleList s rq)" "stays K (handleGet s rq i)"
  by (auto simp: handleAudit_def handleList_def handleGet_def intro!: stays_rules)

lemma stays_create: "stays K (handleCreate s rq)"
  by (auto simp: handleCreate_def Let_def intro!: stays_rules split: sum.split)

lemma stays_release: "stays K (handleRelease s rq i)"
  by (auto simp: handleRelease_def intro!: stays_rules stays_steps split: sum.split option.split)

lemmas stays_handlers = stays_signing stays_reading stays_create stays_release

lemma stays_approve: "stays K (handleApprove s rq i)"
  by (auto simp: handleApprove_def intro!: stays_bnd [OF stays_helpers(2)] stays_bnd [OF in_stays]
      confined_bnd [OF confined_Get] stays_bnd [OF stays_calls(3)] stays_steps stays_grant split: sum.split) blast

lemma stays_tick: "stays K (tick s)"
  by (auto simp: tick_def Reconcile_def intro!: stays_rules stays_for_each stays_steps split: sum.split)

lemma stays_router: "stays K (NewRouter index files s rq)"
  by (auto simp: NewRouter_def Let_def intro!: stays_handlers stays_approve)

lemma stays_threads: "p \<in> threads index files s \<Longrightarrow> stays K p"
  by (auto simp: threads_def http_thread_def intro!: stays_bnd stays_router stays_tick)

lemma stays_migrate: "stays K migrate"
  by (auto simp: migrate_def migrateAudit_def migrateNotify_def migrateApprovalNotes_def exec_only_def
      intro!: stays_bnd split: sum.split)

lemma stays_Reconcile: "stays K (Reconcile s)"
  by (auto simp: Reconcile_def intro!: stays_rules stays_for_each stays_steps split: sum.split)

lemma stays_main_start:
  assumes "s = make_service (FromEnv os)" "M new_client_mem"
  shows "stays K (main_start sql_Open os)"
  using assms(2) stays_Reconcile
  by (auto simp: main_start_def Open_def Let_def assms(1) [symmetric] intro!: stays_bnd stays_migrate split: sum.split option.split)

end

section \<open>The client of the repository\<close>

text \<open>Only the active group changes, and who enters it is the user of a request in \<open>K\<close>.\<close>

definition only_requested ::
  "(string \<Rightarrow> string option) \<Rightarrow> string \<Rightarrow> ('k \<Rightarrow> (string \<times> string) set) \<Rightarrow> request set \<Rightarrow> 'k \<Rightarrow> 'k \<Rightarrow> bool"
where
  "only_requested who active grps K d d' \<longleftrightarrow>
     (\<forall>u g. (u, g) \<in> grps d' - grps d \<longrightarrow> g = active \<and> (\<exists>q \<in> K. who (Username q) = Some u)) \<and>
     (\<forall>u g. (u, g) \<in> grps d - grps d' \<longrightarrow> g = active)"

lemma only_requested_mono: "only_requested who active grps K d d' \<Longrightarrow> K \<subseteq> L \<Longrightarrow> only_requested who active grps L d d'"
  unfolding only_requested_def by blast

context keycloak_api
begin

abbreviation cautious :: "(request set \<Rightarrow> 'a \<Rightarrow> bool) \<Rightarrow> request set \<Rightarrow> 'a prog \<Rightarrow> bool" where
  "cautious \<equiv> confined (e_keycloak E) (only_requested user_id (GroupActive cfg) in_grp) ids_ok"

lemma unchanged_only: "in_grp d' = in_grp d \<Longrightarrow> only_requested user_id (GroupActive cfg) in_grp K d d'"
  by (simp add: only_requested_def)

lemma token_only: "e_keycloak E (form_request url kvs) d = (r, d') \<Longrightarrow>
    only_requested user_id (GroupActive cfg) in_grp K d d'"
  by (rule unchanged_only) (rule token_frame)

lemma cautious_accessToken: "cautious (\<lambda>_ _. True) K (accessToken cfg)"
proof -
  have "cautious (\<lambda>_ _. True) K (fetch_token cfg)"
    by (auto simp: fetch_token_def ids_ok_def split: sum.split intro: token_only)
  then show ?thesis by (auto simp: accessToken_def)
qed

lemma cautious_do_request:
  assumes "\<And>tok d r d'. e_keycloak E (bearer_request verb (slashless cfg @ path) tok) d = (r, d') \<Longrightarrow>
      only_requested user_id (GroupActive cfg) in_grp K d d'"
  shows "cautious (\<lambda>K' x. K \<subseteq> K' \<and> (\<forall>y. x = Inr y \<longrightarrow> (\<exists>tok d resp d'.
      e_keycloak E (bearer_request verb (slashless cfg @ path) tok) d = (Inr resp, d') \<and>
      read_answer verb path out z resp = Inr y))) K (do_request cfg verb path out z)"
  unfolding do_request_def
proof (rule confined_bnd [OF cautious_accessToken])
  fix K' and t :: "error + string"
  assume "K \<subseteq> K'"
  have "only_requested user_id (GroupActive cfg) in_grp K' d d'"
    if "e_keycloak E (bearer_request verb (slashless cfg @ path) tok) d = (r, d')" for tok d r d'
    using assms [OF that] \<open>K \<subseteq> K'\<close> by (rule only_requested_mono)
  with \<open>K \<subseteq> K'\<close> show "cautious (\<lambda>K' x. K \<subseteq> K' \<and> (\<forall>y. x = Inr y \<longrightarrow> (\<exists>tok d resp d'.
      e_keycloak E (bearer_request verb (slashless cfg @ path) tok) d = (Inr resp, d') \<and>
      read_answer verb path out z resp = Inr y))) K'
     (case t of Inl e \<Rightarrow> Ret (Inl e)
      | Inr tok \<Rightarrow> Keycloak (bearer_request verb (slashless cfg @ path) tok)
         (\<lambda>res. Ret (case res of Inl e \<Rightarrow> Inl e | Inr resp \<Rightarrow> read_answer verb path out z resp)))"
    by (auto split: sum.split)
qed

lemma get_only: "e_keycloak E (bearer_request ''GET'' url tok) d = (r, d') \<Longrightarrow>
    only_requested user_id (GroupActive cfg) in_grp K d d'"
  by (rule unchanged_only) (rule get_frame)

lemma cautious_get:
  "cautious (\<lambda>K' x. K \<subseteq> K' \<and> (\<forall>y. x = Inr y \<longrightarrow> (\<exists>tok d resp d'.
      e_keycloak E (bearer_request ''GET'' (slashless cfg @ path) tok) d = (Inr resp, d') \<and>
      read_answer ''GET'' path out z resp = Inr y))) K (do_request cfg ''GET'' path out z)"
  by (rule cautious_do_request) (rule get_only)

lemma cautious_userID: "cautious (\<lambda>_ x. \<forall>uid. x = Inr uid \<longrightarrow> user_id u = Some uid) K (userID cfg u)"
  unfolding userID_def
  by (rule confined_bnd [OF cautious_get])
    (auto split: sum.split dest: users_api)

lemma cautious_groupID: "cautious (\<lambda>_ x. \<forall>gid. x = Inr gid \<longrightarrow> group_id g = Some gid) K (groupID cfg g)"
proof -
  have "cautious (\<lambda>_ x. \<forall>gid. x = Inr gid \<longrightarrow> group_id g = Some gid) K
     (bnd (do_request cfg ''GET'' (groups_path cfg g) (Some group_fields) []) (\<lambda>res. case res of
           Inl e \<Rightarrow> Ret (Inl e)
         | Inr gs \<Rightarrow>
             (case find (\<lambda>(i, n). n = g \<and> i \<noteq> []) gs of
                Some (i, _) \<Rightarrow>
                  Lock Client_mu (GetClient (\<lambda>c.
                    PutClient (c\<lparr>groupIDs := (groupIDs c)(g \<mapsto> i)\<rparr>)
                      (Unlock Client_mu (Ret (Inr i)))))
              | None \<Rightarrow> Ret (Inl (Msg (''group '' @ Quote g @ '' not found''))))))"
  proof (rule confined_bnd [OF cautious_get], goal_cases)
    case (1 K' x)
    have id: "group_id g = Some i" if "x = Inr gs" "find (\<lambda>(i, n). n = g \<and> i \<noteq> []) gs = Some (i, n)" for gs i n
    proof -
      from that(2) have "(i, g) \<in> set gs" "i \<noteq> []" by (auto simp: find_Some_iff in_set_conv_nth)
      with 1 that(1) show ?thesis by (auto dest: groups_api)
    qed
    then show ?case by (auto simp: ids_ok_def split: sum.split option.split)
  qed
  then show ?thesis by (auto simp: groupID_def ids_ok_def split: option.split)
qed

lemma cautious_InGroup: "cautious (\<lambda>_ _. True) K (InGroup cfg u g)"
  unfolding InGroup_def userGroups_def
  by (auto intro!: confined_bnd [OF cautious_userID] confined_bnd [OF cautious_get] split: sum.split)

lemma cautious_change:
  assumes "\<And>uid gid tok d r d'. user_id u = Some uid \<Longrightarrow> group_id g = Some gid \<Longrightarrow>
      e_keycloak E (bearer_request verb (slashless cfg @ membership_path cfg uid gid) tok) d = (r, d') \<Longrightarrow>
      only_requested user_id (GroupActive cfg) in_grp K d d'"
  shows "cautious (\<lambda>_ _. True) K (change_membership cfg verb u g)"
proof -
  have more: "cautious (\<lambda>_ _. True) K'' (do_request cfg verb (membership_path cfg uid gid) None ())"
    if "K \<subseteq> K''" "user_id u = Some uid" "group_id g = Some gid" for K'' uid gid
  proof -
    have "only_requested user_id (GroupActive cfg) in_grp K'' d d'"
      if "e_keycloak E (bearer_request verb (slashless cfg @ membership_path cfg uid gid) tok) d = (r, d')" for tok d r d'
      using assms [OF \<open>user_id u = Some uid\<close> \<open>group_id g = Some gid\<close> that] \<open>K \<subseteq> K''\<close>
      by (rule only_requested_mono)
    then show ?thesis by (rule cautious_do_request [THEN confined_any])
  qed
  show ?thesis
    unfolding change_membership_def
    by (auto intro!: confined_bnd [OF cautious_userID] confined_bnd [OF cautious_groupID] more split: sum.split) blast
qed

end

sublocale keycloak_api \<subseteq> confinement "e_keycloak E" "only_requested user_id (GroupActive cfg) in_grp" ids_ok
  "make_service cfg"
proof (unfold_locales, goal_cases)
  case (1 url kvs d r d' K)
  then show ?case by (rule token_only)
next
  case (2 url tok d r d' K)
  then show ?case by (rule get_only)
next
  case (3 K u g)
  show ?case using cautious_InGroup by (simp add: make_service_def NewService_def Client_groups_def)
next
  case (4 q K)
  have "cautious (\<lambda>_ _. True) K (AddToGroup cfg (Username q) (GroupActive cfg))"
    unfolding AddToGroup_def
  proof (rule cautious_change)
    fix uid gid tok d r d'
    assume u: "user_id (Username q) = Some uid" "group_id (GroupActive cfg) = Some gid"
      and "e_keycloak E (bearer_request ''PUT'' (slashless cfg @ membership_path cfg uid gid) tok) d = (r, d')"
    from put_api [OF this(3) u] have "in_grp d' \<in> {in_grp d, insert (uid, GroupActive cfg) (in_grp d)}" by blast
    then show "only_requested user_id (GroupActive cfg) in_grp K d d'"
      using 4 u(1) by (auto simp: only_requested_def)
  qed
  then show ?case by (simp add: make_service_def NewService_def Client_groups_def)
next
  case (5 K u)
  have "cautious (\<lambda>_ _. True) K (RemoveFromGroup cfg u (GroupActive cfg))"
    unfolding RemoveFromGroup_def
  proof (rule cautious_change)
    fix uid gid tok d r d'
    assume u: "user_id u = Some uid" "group_id (GroupActive cfg) = Some gid"
      and "e_keycloak E (bearer_request ''DELETE'' (slashless cfg @ membership_path cfg uid gid) tok) d = (r, d')"
    from delete_api [OF this(3) u] have "in_grp d' \<in> {in_grp d, in_grp d - {(uid, GroupActive cfg)}}" by blast
    then show "only_requested user_id (GroupActive cfg) in_grp K d d'" by (auto simp: only_requested_def)
  qed
  then show ?case by (simp add: make_service_def NewService_def Client_groups_def)
qed

section \<open>The pool\<close>

lemma known_requested:
  assumes "only_requested who active grps K d d'" "known K t"
  shows "only_requested who active grps (ran (reqs t)) d d'"
proof -
  have "\<exists>q \<in> ran (reqs t). who (Username q) = Some u" if "q \<in> K" "who (Username q) = Some u" for q u
  proof -
    have "\<exists>r. reqs t (ID q) = Some r \<and> same_subject q r" using assms(2) that(1) by (simp add: known_def)
    then obtain r where "reqs t (ID q) = Some r" "same_subject q r" by blast
    then have "r \<in> ran (reqs t)" "Username r = Username q" by (auto simp: ran_def same_subject_def)
    with that(2) show ?thesis by metis
  qed
  with assms(1) show ?thesis unfolding only_requested_def by blast
qed

lemma requested_moved:
  assumes "only_requested who active grps (ran (reqs t)) d d'" "moved t t'"
  shows "only_requested who active grps (ran (reqs t')) d d'"
proof (rule known_requested [OF assms(1)])
  show "known (ran (reqs t)) t'"
    using assms(2) by (auto simp: known_def moved_def ran_def dest: reqs_ID)
qed

lemma only_requested_trans:
  "only_requested who active grps K d d' \<Longrightarrow> only_requested who active grps K d' d'' \<Longrightarrow>
   only_requested who active grps K d d''"
  unfolding only_requested_def by blast

sublocale pim \<subseteq> pool_world E tabs fair
  by (intro pool_world.intro service_db_axioms clock_axioms)

context pim
begin

lemma step_cautious:
  assumes p: "cautious Q K p" "known K (rows w)" and sound: "recoverable c (tabs (w_db w))"
    and ids: "ids_ok (w_client w)" and s: "step E p w = Some (p', w')" and m: "moved (rows w) (rows w')"
  shows "(\<exists>K'. cautious Q K' p' \<and> known K' (rows w')) \<and> ids_ok (w_client w') \<and>
    only_requested user_id (GroupActive cfg) in_grp (ran (reqs (rows w'))) (w_kc w) (w_kc w')"
proof -
  have same: "only_requested user_id (GroupActive cfg) in_grp L d d" for L d by (rule unchanged_only) (rule refl)
  note known = known_moved [OF p(2) m]
  show ?thesis
  proof (cases p)
    case (Query q k)
    with s obtain r d where e: "e_query E q (w_db w) = (r, d)" "p' = k r" "w' = w\<lparr>w_db := d\<rparr>" by (auto split: prod.splits)
    have "\<exists>K'. cautious Q K' p' \<and> known K' (rows w')"
    proof (cases r)
      case (Inl x)
      then show ?thesis using p known Query e(2) by auto
    next
      case (Inr found)
      from query_ok e(1) Inr have "query_sem q (rows w) found" by (blast intro: query_completed)
      from query_sound [OF _ this] sound obtain rs where
        rs: "found = map row_of rs" "list_all (\<lambda>r. sound_request c r \<and> selected q r) rs" "known (set rs) (rows w)"
        unfolding recoverable_def by blast
      then have "list_all storable_req rs" by (auto simp: list_all_iff sound_request_def)
      with p(1) Query Inr e(2) rs(1) have "cautious Q (K \<union> set rs) p'" by simp
      moreover have "known (K \<union> set rs) (rows w')" using known known_moved [OF rs(3) m] by (simp add: known_Un)
      ultimately show ?thesis by blast
    qed
    with e(3) ids same show ?thesis by simp
  next
    case (Keycloak q k)
    with s obtain r d where e: "e_keycloak E q (w_kc w) = (r, d)" "p' = k r" "w' = w\<lparr>w_kc := d\<rparr>" by (auto split: prod.splits)
    with p(1) Keycloak have "only_requested user_id (GroupActive cfg) in_grp K (w_kc w) d" "cautious Q K p'" by auto
    with known_requested [OF _ known] known ids e(3) show ?thesis by auto
  qed (use p known ids s same in \<open>auto split: prod.splits if_splits\<close>)
qed

lemma pool_cautious:
  assumes "pool E new w0 a" "recoverable c (tabs (w_db w0))" "fair (w_other w0)" "ids_ok (w_client w0)"
    and new: "\<And>p. p \<in> new \<Longrightarrow> keeps c {} p" "\<And>p. p \<in> new \<Longrightarrow> cautious (\<lambda>_ _. True) {} p"
  shows "only_requested user_id (GroupActive cfg) in_grp (ran (reqs (rows (snd a)))) (w_kc w0) (w_kc (snd a))"
proof -
  let ?t = "\<lambda>w. rows w"
  let ?I = "\<lambda>w. recoverable c (tabs (w_db w)) \<and> fair (w_other w) \<and> ids_ok (w_client w)"
  let ?J = "\<lambda>w p. (\<exists>K. keeps c K p \<and> known K (?t w)) \<and> (\<exists>K. cautious (\<lambda>_ _. True) K p \<and> known K (?t w))"
  let ?R = "\<lambda>w w'. moved (?t w) (?t w') \<and>
    only_requested user_id (GroupActive cfg) in_grp (ran (reqs (?t w'))) (w_kc w) (w_kc w')"
  have "?I (snd a) \<and> ?R w0 (snd a) \<and> (\<forall>p \<in> set (fst a). ?J (snd a) p)"
    using assms(1)
  proof (rule pool_rely [where J = ?J])
    show "?J w' p' \<and> ?I w' \<and> ?R w w'" if "?J w p" "?I w" "step E p w = Some (p', w')" for p p' w w'
    proof -
      from that(1) obtain K L where k: "keeps c K p" "known K (?t w)" "cautious (\<lambda>_ _. True) L p" "known L (?t w)"
        by blast
      have i: "recoverable c (tabs (w_db w))" "fair (w_other w)" "ids_ok (w_client w)" using that(2) by blast+
      note 1 = step_upholds [OF k(1,2) i(1,2) that(3)]
      then have m: "moved (?t w) (?t w')" by blast
      note 2 = step_cautious [OF k(3,4) i(1,3) that(3) m]
      show ?thesis using 1 2 by blast
    qed
    show "?J w' q" if "?J w q" "?R w w'" for q w w' using that known_moved by blast
    show "?J w p" if "p \<in> new" for p w using new [OF that] known_empty by blast
    show "?R w0 w'" if "?R w0 w" "?R w w'" for w w'
    proof -
      have m: "moved (?t w0) (?t w')" using that by (blast intro: moved_trans)
      have "only_requested user_id (GroupActive cfg) in_grp (ran (reqs (?t w'))) (w_kc w0) (w_kc w)"
        using that by (blast intro: requested_moved)
      with that m show ?thesis by (blast intro: only_requested_trans)
    qed
    show "?R w0 w0" by (simp add: moved_refl unchanged_only)
  qed (use assms(2-4) in auto)
  then show ?thesis by blast
qed

end

end
