(* ===== verification/Lifetime.thy ===== *)
theory Lifetime
  imports Startup Confinement
begin

text \<open>
  The lives of the program on one database: it is started, runs, and ends at any moment -- a
  shutdown, a crash, a kill between two calls of the start or in the middle of a sweep --, and is
  started again on what it has left.  The guarantees of the threads -- on rows, memberships
  and posts -- hold over all of it.
\<close>

definition reborn :: "('d, 'k, 'o) world \<Rightarrow> ('d, 'k, 'o) world" where
  "reborn w = w\<lparr>w_client := new_client_mem, w_manager := new_manager_mem, w_log := [], w_held := {}\<rparr>"

lemma reborn_simps [simp]:
  "w_db (reborn w) = w_db w" "w_kc (reborn w) = w_kc w" "w_other (reborn w) = w_other w"
  "w_client (reborn w) = new_client_mem" "w_held (reborn w) = {}"
  by (simp_all add: reborn_def)

inductive lifetimes ::
  "('d, 'k, 'o) env \<Rightarrow> (string \<Rightarrow> error option) \<Rightarrow> environment \<Rightarrow> string \<Rightarrow> (web_request \<Rightarrow> web_response) \<Rightarrow>
   ('d, 'k, 'o) world \<Rightarrow> ('d, 'k, 'o) world \<Rightarrow> bool"
  for E sql_Open os index files w0
where
  no_life: "lifetimes E sql_Open os index files w0 w0"
| one_life: "lifetimes E sql_Open os index files w0 w \<Longrightarrow>
    process_run E index files evs (booting sql_Open os (reborn w)) = Some p \<Longrightarrow>
    lifetimes E sql_Open os index files w0 (pr_world p)"

text \<open>What a life leaves of the tables: nothing is taken out, rows keep their subject, and nothing
  that is decided is pending again.\<close>

definition kept :: "tables \<Rightarrow> tables \<Rightarrow> bool" where
  "kept t t' \<longleftrightarrow> moved t t' \<and> grown t t'"

lemma kept_trans: "kept a b \<Longrightarrow> kept b c \<Longrightarrow> kept a c"
  by (auto simp: kept_def intro: moved_trans grown_trans)

lemma sound_all_tables: "sound_tables cfg t \<Longrightarrow> all_tables t"
  by (simp add: sound_tables_def all_tables_def store_ok_def audit_ok_def notif_ok_def)

lemma kept_refl: "recoverable cfg t \<Longrightarrow> kept (completed t) (completed t)"
  by (auto simp: kept_def recoverable_def moved_refl intro: grown_refl sound_all_tables)

context pool_world
begin

lemma step_grown_rows:
  assumes "step E p w = Some (p', w')" "recoverable cfg (tabs (w_db w))"
  shows "grown (rows w) (rows w')"
proof -
  have t: "all_tables (rows w)" "has_requests (tabs (w_db w)) \<longrightarrow> has_notes (tabs (w_db w))"
    using assms(2) by (auto simp: recoverable_def intro: sound_all_tables)
  show ?thesis
  proof (cases p)
    case (Exec st k)
    with assms(1) obtain r d where e: "e_exec E st (w_db w) = (r, d)" "w' = w\<lparr>w_db := d\<rparr>" by (auto split: prod.splits)
    from exec_cases [OF e(1)] show ?thesis
    proof (elim disjE exE conjE)
      fix n i assume "exec_sem st (tabs (w_db w)) (n, i) (tabs d)"
      from exec_completed [OF this t(2)] have "exec_sem st (rows w) (n, i) (completed (tabs d))" by blast
      from exec_grown [OF this t(1)] show ?thesis by (simp add: e(2))
    qed (simp add: e(2) grown_refl [OF t(1)])
  qed (use assms(1) query_frame audit_frame grown_refl [OF t(1)] in \<open>auto split: prod.splits if_splits\<close>)
qed

lemma step_kept:
  assumes "upholds cfg Q K p" "known K (rows w)" "recoverable cfg (tabs (w_db w))" "fair (w_other w)"
    and "step E p w = Some (p', w')"
  shows "(\<exists>K'. upholds cfg Q K' p' \<and> known K' (rows w')) \<and> recoverable cfg (tabs (w_db w')) \<and>
    fair (w_other w') \<and> kept (rows w) (rows w')"
  using step_upholds [OF assms] step_grown_rows [OF assms(5,3)] by (simp add: kept_def)

lemma process_sound:
  assumes run: "process_run E index files evs (booting sql_Open os w) = Some p"
    and w: "recoverable (FromEnv os) (tabs (w_db w))" "fair (w_other w)"
  shows "recoverable (FromEnv os) (tabs (w_db (pr_world p))) \<and> fair (w_other (pr_world p)) \<and>
    kept (rows w) (rows (pr_world p))"
proof -
  let ?cfg = "FromEnv os"
  let ?I = "\<lambda>w. recoverable ?cfg (tabs (w_db w)) \<and> fair (w_other w)"
  let ?B = "\<lambda>w q. \<exists>K. upholds ?cfg (\<lambda>_ r. r \<in> {None, Some (make_service ?cfg)}) K q \<and> known K (rows w)"
  let ?J = "\<lambda>w q. \<exists>K. keeps ?cfg K q \<and> known K (rows w)"
  have "?I (pr_world p) \<and> kept (rows w) (rows (pr_world p))"
    using run
  proof (rule process_rely [where B = ?B and J = "\<lambda>q. keeps ?cfg {} q" and J' = ?J])
    show "?B w (main_start sql_Open os)" using upheld_main_start known_empty by blast
    show "?B w' q' \<and> ?I w' \<and> kept (rows w) (rows w')" if "?B w q" "?I w" "step E q w = Some (q', w')" for q w q' w'
      using that step_kept by blast
    show "?J w' q' \<and> ?I w' \<and> kept (rows w) (rows w')" if "?J w q" "?I w" "step E q w = Some (q', w')" for q w q' w'
      using that step_kept by blast
    show "keeps ?cfg {} t" if "?B w (Ret (Some s))" "t \<in> threads index files s" for s w t
      using that built_careful.writes_threads [of t index files os] by auto
    show "?J w' q" if "?J w q" "kept (rows w) (rows w')" for q w w' using that known_moved unfolding kept_def by blast
    show "?J w q" if "keeps ?cfg {} q" for q w using that known_empty by blast
    show "kept (rows w) (rows w'')" if "kept (rows w) (rows w')" "kept (rows w') (rows w'')" for w' w''
      using that by (rule kept_trans)
    show "?I (w\<lparr>w_log := l\<rparr>) \<and> kept (rows w) (rows (w\<lparr>w_log := l\<rparr>))" if "?I w" for w l
      using that kept_refl by auto
  qed (use w kept_refl in auto)
  then show ?thesis by blast
qed

lemma lifetimes_sound:
  assumes "lifetimes E sql_Open os index files w0 w"
    and "recoverable (FromEnv os) (tabs (w_db w0))" "fair (w_other w0)"
  shows "recoverable (FromEnv os) (tabs (w_db w)) \<and> fair (w_other w) \<and> kept (rows w0) (rows w)"
  using assms(1)
proof (induction rule: lifetimes.induct)
  case no_life
  with assms(2,3) kept_refl show ?case by blast
next
  case (one_life w evs p)
  have "recoverable (FromEnv os) (tabs (w_db (reborn w)))" "fair (w_other (reborn w))"
    using one_life.IH by simp_all
  from process_sound [OF one_life.hyps(2) this] one_life.IH show ?case by (auto intro: kept_trans)
qed

end

text \<open>The memberships.\<close>

context pim
begin

abbreviation entered :: "('d, 'k, 'o) world \<Rightarrow> ('d, 'k, 'o) world \<Rightarrow> bool" where
  "entered w w' \<equiv> only_requested user_id (GroupActive cfg) in_grp (ran (reqs (rows w'))) (w_kc w) (w_kc w')"

lemma entered_refl: "w_kc w' = w_kc w \<Longrightarrow> entered w w'"
  by (rule unchanged_only) simp

lemma entered_trans: "entered a b \<Longrightarrow> entered b c \<Longrightarrow> moved (rows b) (rows c) \<Longrightarrow> entered a c"
  by (blast intro: only_requested_trans requested_moved)

lemma step_entered:
  assumes "upholds cfg P K p" "known K (rows w)" "cautious Q L p" "known L (rows w)"
    and "recoverable cfg (tabs (w_db w))" "fair (w_other w)" "ids_ok (w_client w)" and s: "step E p w = Some (p', w')"
  shows "(\<exists>K. upholds cfg P K p' \<and> known K (rows w')) \<and> (\<exists>L. cautious Q L p' \<and> known L (rows w')) \<and>
    recoverable cfg (tabs (w_db w')) \<and> fair (w_other w') \<and> ids_ok (w_client w') \<and>
    moved (rows w) (rows w') \<and> entered w w'"
proof -
  note 1 = step_upholds [OF assms(1,2,5,6) s]
  then have "moved (rows w) (rows w')" by blast
  from 1 step_cautious [OF assms(3,4,5,7) s this] show ?thesis by blast
qed

lemma process_entered:
  assumes os: "cfg = FromEnv os" and run: "process_run E index files evs (booting sql_Open os w) = Some p"
    and w: "recoverable cfg (tabs (w_db w))" "fair (w_other w)" "ids_ok (w_client w)"
  shows "moved (rows w) (rows (pr_world p)) \<and> entered w (pr_world p)"
proof -
  let ?I = "\<lambda>w. recoverable cfg (tabs (w_db w)) \<and> fair (w_other w) \<and> ids_ok (w_client w)"
  let ?R = "\<lambda>w w'. moved (rows w) (rows w') \<and> entered w w'"
  let ?B = "\<lambda>w q. (\<exists>K. upholds cfg (\<lambda>_ r. r \<in> {None, Some (make_service cfg)}) K q \<and> known K (rows w)) \<and>
    (\<exists>K. cautious (\<lambda>_ _. True) K q \<and> known K (rows w))"
  let ?N = "\<lambda>q. keeps cfg {} q \<and> cautious (\<lambda>_ _. True) {} q"
  let ?J = "\<lambda>w q. (\<exists>K. keeps cfg K q \<and> known K (rows w)) \<and> (\<exists>K. cautious (\<lambda>_ _. True) K q \<and> known K (rows w))"
  have "?I (pr_world p) \<and> ?R w (pr_world p)"
    using run
  proof (rule process_rely [where B = ?B and J = ?N and J' = ?J])
    have "cautious (\<lambda>_ _. True) {} (main_start sql_Open os)"
      by (rule stays_main_start) (simp_all add: os ids_ok_def new_client_mem_def)
    then show "?B w (main_start sql_Open os)" using upheld_main_start os known_empty by blast
    show "?B w' q' \<and> ?I w' \<and> ?R w w'" if "?B w q" "?I w" "step E q w = Some (q', w')" for q w q' w'
    proof -
      from that(1) obtain K L where k: "upholds cfg (\<lambda>_ r. r \<in> {None, Some (make_service cfg)}) K q" "known K (rows w)"
        "cautious (\<lambda>_ _. True) L q" "known L (rows w)" by blast
      from that(2) have i: "recoverable cfg (tabs (w_db w))" "fair (w_other w)" "ids_ok (w_client w)" by blast+
      from step_entered [OF k i that(3)] show ?thesis by blast
    qed
    show "?J w' q' \<and> ?I w' \<and> ?R w w'" if "?J w q" "?I w" "step E q w = Some (q', w')" for q w q' w'
    proof -
      from that(1) obtain K L where k: "keeps cfg K q" "known K (rows w)"
        "cautious (\<lambda>_ _. True) L q" "known L (rows w)" by blast
      from that(2) have i: "recoverable cfg (tabs (w_db w))" "fair (w_other w)" "ids_ok (w_client w)" by blast+
      from step_entered [OF k i that(3)] show ?thesis by blast
    qed
    show "?N t" if "?B w (Ret (Some s))" "t \<in> threads index files s" for s w t
    proof -
      have s: "s = make_service cfg" using that(1) by auto
      have "keeps cfg {} t" using built_careful.writes_threads [of t index files os] that(2) s os by simp
      moreover have "cautious (\<lambda>_ _. True) {} t" by (rule stays_threads) (use that(2) s in simp)
      ultimately show ?thesis ..
    qed
    show "?J w' q" if "?J w q" "?R w w'" for q w w' using that known_moved by blast
    show "?J w q" if "?N q" for q w using that known_empty by blast
    show "?R w w''" if "?R w w'" "?R w' w''" for w' w''
      using that by (blast intro: moved_trans entered_trans)
    show "?I (w\<lparr>w_log := l\<rparr>) \<and> ?R w (w\<lparr>w_log := l\<rparr>)" if "?I w" for w l
      using that by (simp add: moved_refl entered_refl)
  qed (use w in \<open>simp_all add: moved_refl entered_refl\<close>)
  then show ?thesis by blast
qed

lemma lifetimes_entered:
  assumes "lifetimes E sql_Open os index files w0 w" and os: "cfg = FromEnv os"
    and w0: "recoverable cfg (tabs (w_db w0))" "fair (w_other w0)"
  shows "entered w0 w"
  using assms(1)
proof (induction rule: lifetimes.induct)
  case no_life
  show ?case by (simp add: entered_refl)
next
  case (one_life w evs p)
  have "recoverable cfg (tabs (w_db (reborn w)))" "fair (w_other (reborn w))"
    using lifetimes_sound [OF one_life.hyps(1)] w0 os by simp_all
  moreover have "ids_ok (w_client (reborn w))" by (simp add: ids_ok_def new_client_mem_def)
  ultimately have "moved (rows w) (rows (pr_world p)) \<and> entered w (pr_world p)"
    using process_entered [OF os one_life.hyps(2)] by simp
  with one_life.IH show ?case by (blast intro: entered_trans)
qed

end

text \<open>The posts: over all lives the webhook is called at most once per mark that was set.\<close>

lemma permits_main_start: "permits 0 (main_start sql_Open os)"
proof -
  have "permits 0 (exec_only st)" for st by (auto simp: exec_only_def intro!: permits_bnd)
  then have "permits 0 (Open sql_Open path)" for path
    by (auto simp: Open_def migrate_def migrateAudit_def migrateNotify_def migrateApprovalNotes_def
        intro!: permits_bnd split: option.split sum.split)
  then show ?thesis
    by (auto simp: main_start_def Let_def intro!: permits_bnd built.permits_tick split: sum.split)
qed

context posting
begin

abbreviation covered :: "('d, 'k, 'o) world \<Rightarrow> nat \<Rightarrow> ('d, 'k, 'o) world \<Rightarrow> bool" where
  "covered w0 n w \<equiv> posts (w_other w) + n + mark_count w0 \<le> mark_count w + posts (w_other w0)"

lemma boot_covered:
  assumes "pr_main p = Starting q" "pr_service p = None" "permits n q" "covered w0 n (pr_world p)"
    and "boot_step E q p = Some p'"
  shows "(pr_service p' = None \<and> covered w0 0 (pr_world p') \<and>
      (\<forall>q'. pr_main p' = Starting q' \<longrightarrow> (\<exists>n. permits n q' \<and> covered w0 n (pr_world p')))) \<or>
    (pr_service p' \<noteq> None \<and> q = Ret (pr_service p') \<and> covered w0 0 (pr_world p) \<and> pr_world p' = pr_world p)"
proof (cases "step E q (pr_world p)")
  case (Some x)
  then obtain q' w where s: "step E q (pr_world p) = Some (q', w)" by (cases x) simp
  with assms(5) have p': "p' = p\<lparr>pr_main := Starting q', pr_world := w\<rparr>" by (simp add: boot_step_def)
  from permits_step [OF assms(3) s] assms(4) obtain n' where "permits n' q'" "covered w0 n' w" by force
  with p' assms(2) show ?thesis by (auto intro!: exI [of _ n'])
next
  case None
  with assms(5) obtain r where "q = Ret r" by (auto simp: boot_step_def split: prog.splits)
  with assms None show ?thesis by (cases r) (auto simp: boot_step_def)
qed

lemma process_posts:
  assumes "process_run E index files evs (booting sql_Open os w0) = Some p"
  shows "covered w0 0 (pr_world p)"
proof -
  let ?r = "run E (main_start sql_Open os) w0"
  let ?B = "\<lambda>p. covered w0 0 (pr_world p) \<and> (\<forall>q. pr_main p = Starting q \<longrightarrow> (\<exists>n. permits n q \<and> covered w0 n (pr_world p)))"
  have "follows E index files ?r p \<and> (case pr_service p of None \<Rightarrow> ?B p | Some s \<Rightarrow> covered w0 0 (snd ?r))"
    using assms
  proof (rule process_invariant)
    show "follows E index files ?r (booting sql_Open os w0) \<and> (case pr_service (booting sql_Open os w0) of
        None \<Rightarrow> ?B (booting sql_Open os w0) | Some s \<Rightarrow> covered w0 0 (snd ?r))"
      using follows_booting permits_main_start [of sql_Open os] by (auto simp: booting_def)
  next
    fix ev p p'
    assume I: "follows E index files ?r p \<and> (case pr_service p of None \<Rightarrow> ?B p | Some s \<Rightarrow> covered w0 0 (snd ?r))"
      and st: "process_step E index files ev p = Some p'"
    have "follows E index files ?r p'" using I follows_step [OF _ st] by blast
    moreover have "case pr_service p' of None \<Rightarrow> ?B p' | Some s \<Rightarrow> covered w0 0 (snd ?r)"
      using st
    proof (rule process_step_cases)
      fix q assume q: "pr_main p = Starting q" and b: "boot_step E q p = Some p'"
      with I have n: "pr_service p = None" "run E q (pr_world p) = ?r"
        by (auto simp: follows_def split: option.splits)
      from n(2) have r: "?r = run E q (pr_world p)" ..
      from I q n(1) obtain n where "permits n q" "covered w0 n (pr_world p)" by auto
      from boot_covered [OF q n(1) this b] show ?thesis unfolding r by (auto split: option.split)
    next
      fix s
      assume s: "pr_service p = Some s" "pr_main p \<in> {Waiting, Cancelling, Closing, Draining}"
        and r: "main_step ev p = Some p' \<or> worker_step E s ev p = Some p' \<or> server_step E index files s ev p = Some p'"
      from running_same [OF s r] I s(1) show ?thesis by simp
    qed
    ultimately show "follows E index files ?r p' \<and> (case pr_service p' of None \<Rightarrow> ?B p' | Some s \<Rightarrow> covered w0 0 (snd ?r))" ..
  qed
  then have f: "follows E index files ?r p" and c: "case pr_service p of None \<Rightarrow> ?B p | Some s \<Rightarrow> covered w0 0 (snd ?r)"
    by blast+
  show ?thesis
  proof (cases "pr_service p")
    case (Some s)
    with f obtain ps where pool: "pool E (service_threads index files s) (snd ?r) (ps, pr_world p)" and r: "fst ?r = Some s"
      by (auto simp: follows_def)
    have s: "s = make_service (FromEnv os)" using main_start_builds [of E sql_Open os w0] r by simp
    have "permits 0 q" if "q \<in> service_threads index files s" for q
      using that built.permits_threads [of q index files "FromEnv os"] by (auto simp: service_threads_def s)
    from pool_posts [OF pool this] c Some show ?thesis by force
  qed (use c in simp)
qed

lemma lifetimes_posts:
  assumes "lifetimes E sql_Open os index files w0 w"
  shows "covered w0 0 w"
  using assms
proof (induction rule: lifetimes.induct)
  case (one_life w evs p)
  have "mark_count (reborn w) = mark_count w" by (simp add: mark_count_def)
  with process_posts [OF one_life.hyps(2)] one_life.IH show ?case by simp
qed simp

end

end
