(* ===== verification/RowSpec.thy ===== *)
theory RowSpec
  imports PoolSpec StartSpec Lifetime Startup
begin

text \<open>
  What holds of every row and every membership over all lives of the program, however the requests
  and ticks interleave in them and wherever they end; and, as it was in one life, behind its start.
\<close>

lemma reqs_empty_tables [simp]: "reqs empty_tables i = None"
  by (simp add: reqs_def requests_of_def empty_tables_def)

section \<open>All lives\<close>

text \<open>
  C4: whatever happens to the program -- any number of starts, each ended at any moment by a
  shutdown, a crash or a kill, also between two statements of the migration or in the middle of
  a sweep or an approval; any interleaving of requests and ticks in between; any answers of
  Keycloak, the webhook and the database --, what is in the database is always something the
  next start makes a sound one of: an approved or released row names an approver, has notes of
  eight characters, was approved before its deadline and ends the configured time after the
  approval, a pending or expired one carries nothing of an approval.  No request, audit row or
  mark is lost, no request changes its subject, and none that was decided is pending again.
\<close>

theorem lives_keep_rows_sound:
  assumes "pool_world E tabs fair" "fair (w_other w0)" "recoverable (FromEnv os) (tabs (w_db w0))"
    and "lifetimes E sql_Open os index files w0 w"
  shows "recoverable (FromEnv os) (tabs (w_db w)) \<and>
    moved (completed (tabs (w_db w0))) (completed (tabs (w_db w))) \<and>
    grown (completed (tabs (w_db w0))) (completed (tabs (w_db w)))"
  using pool_world.lifetimes_sound [OF assms(1,4,3,2)] by (simp add: kept_def)

text \<open>
  C5: the same lives with a Keycloak server that keeps its contract: no membership but those of
  the active group ever changes, and who is in the active group and was not before is the user of
  an access request in the table -- nobody enters it unasked.
\<close>

theorem nobody_enters_in_any_life:
  assumes "pim E tabs fair (FromEnv os) user_id group_id in_grp" "fair (w_other w0)"
    and "recoverable (FromEnv os) (tabs (w_db w0))" "lifetimes E sql_Open os index files w0 w"
  shows "in_grp (w_kc w) - in_grp (w_kc w0) \<subseteq>
      {(u, g). g = GroupActive (FromEnv os) \<and>
         (\<exists>q \<in> ran (reqs (completed (tabs (w_db w)))). user_id (Username q) = Some u)} \<and>
    in_grp (w_kc w0) - in_grp (w_kc w) \<subseteq> {(u, g). g = GroupActive (FromEnv os)}"
  using pim.lifetimes_entered [OF assms(1,4) refl assms(3,2)] unfolding only_requested_def by blast

text \<open>The marks that are set, also before their table is there.\<close>

lemma mark_len_completed: "mark_len t = length (t_notifs (completed t))"
  by (simp add: mark_len_def completed_def)

text \<open>
  C23: over all lives the service posts no more messages than it has set marks, and no two marks
  are of the same kind for the same request: each notification goes out at most once, also when
  two requests or a tick handle the same access request at the same time, and when the program is
  killed and started again between a mark and its post.
\<close>

theorem lives_post_once:
  assumes "posting E tabs posts" "pool_world E tabs fair" "fair (w_other w0)"
    and "recoverable (FromEnv os) (tabs (w_db w0))" "lifetimes E sql_Open os index files w0 w"
  shows "posts (w_other w) + length (t_notifs (completed (tabs (w_db w0)))) \<le>
      posts (w_other w0) + length (t_notifs (completed (tabs (w_db w)))) \<and>
    distinct (map notif_key (t_notifs (completed (tabs (w_db w)))))"
  using posting.lifetimes_posts [OF assms(1,5)] pool_world.lifetimes_sound [OF assms(2,5,4,3)]
  by (simp add: kept_def grown_def all_tables_def posting.mark_count_def [OF assms(1)] mark_len_completed)

section \<open>One life, after the start\<close>

text \<open>While the service runs, the tables are all there and sound as they are.\<close>

context service_db
begin

lemma run_grown:
  "run E p w = (a, w') \<Longrightarrow> all_tables (tabs (w_db w)) \<Longrightarrow> grown (tabs (w_db w)) (tabs (w_db w'))"
proof (induction p arbitrary: w)
  case (Exec st k)
  then obtain r d where e: "e_exec E st (w_db w) = (r, d)" "run E (k r) (w\<lparr>w_db := d\<rparr>) = (a, w')"
    by (auto split: prod.splits)
  have "grown (tabs (w_db w)) (tabs d)"
    using exec_cases [OF e(1)] exec_grown [OF _ Exec.prems(2)] grown_refl [OF Exec.prems(2)] by metis
  moreover from this have "all_tables (tabs d)" by (simp add: grown_def)
  ultimately show ?case using Exec.IH [OF _ e(2)] by (auto intro: grown_trans)
next
  case (Query q k)
  then show ?case using query_frame by (fastforce split: prod.splits)
next
  case (QueryAudit q k)
  then show ?case using audit_frame by (fastforce split: prod.splits)
qed (fastforce intro: grown_refl split: prod.splits)+

end

lemma opened_sound:
  assumes "opened t t'" "t = empty_tables \<or> sound_tables cfg t"
  shows "sound_tables cfg t'" "moved t t'"
proof -
  have "startable t" using assms(2) by (auto simp: startable_def sound_tables_def)
  note g = opened_good [OF assms(1) this]
  show "sound_tables cfg t'" "moved t t'"
  proof (atomize (full), cases "t = empty_tables")
    case True
    with g show "sound_tables cfg t' \<and> moved t t'" by (simp add: sound_tables_def moved_def)
  next
    case False
    with assms(2) have t: "sound_tables cfg t" by blast
    then have "has_requests t" "has_notes t" "has_audit t" "has_notifs t"
      by (simp_all add: sound_tables_def store_ok_def audit_ok_def notif_ok_def)
    with assms(1) have "t' = t" by (simp add: opened_def)
    with t show "sound_tables cfg t' \<and> moved t t'" by (simp add: moved_refl)
  qed
qed

text \<open>Tables that are all there are complete.\<close>

lemma recoverable_full: "recoverable cfg t \<Longrightarrow> all_tables t \<Longrightarrow> sound_tables cfg t"
  using completed_full [of t] by (simp add: recoverable_def all_tables_def)

lemma sound_grown:
  assumes "sound_tables cfg t" "grown t t'" "recoverable cfg t'" "moved (completed t) (completed t')"
  shows "sound_tables cfg t' \<and> moved t t'"
proof -
  have "sound_tables cfg t'" using assms(2,3) by (auto simp: grown_def intro: recoverable_full)
  with assms(1,4) show ?thesis by (simp add: sound_full)
qed

context pool_world
begin

lemma start_sound:
  assumes t: "tabs (w_db w) = empty_tables \<or> sound_tables (FromEnv os) (tabs (w_db w))" and fair: "fair (w_other w)"
    and r: "run E (main_start sql_Open os) w = (Some s, w1)"
  shows "s = make_service (FromEnv os) \<and> sound_tables (FromEnv os) (tabs (w_db w1)) \<and> fair (w_other w1) \<and>
    moved (tabs (w_db w)) (tabs (w_db w1)) \<and> (w_held w = {} \<longrightarrow> w_held w1 = {})"
proof -
  obtain wc y wd where st: "s = make_service (FromEnv os)"
    "opened (tabs (w_db w)) (tabs (w_db wc))" "w_kc wc = w_kc w" "w_other wc = w_other w" "w_client wc = new_client_mem"
    "w_held wc = w_held w" and d: "run E (Reconcile s) wc = (y, wd)"
    and w1: "w_db w1 = w_db wd" "w_kc w1 = w_kc wd" "w_other w1 = w_other wd" "w_client w1 = w_client wd"
    "w_held w1 = w_held wd"
    by (rule main_start_runs [OF r])
  note o = opened_sound [OF st(2) t]
  have "keeps (FromEnv os) {} (Reconcile s)" using built_careful.writes_tick(1) [of os] st(1) by simp
  from run_upholds [OF this _ sound_recoverable [OF o(1)] _ d]
  have k: "recoverable (FromEnv os) (tabs (w_db wd)) \<and> fair (w_other wd) \<and> moved (rows wc) (rows wd)"
    using fair st(4) by simp
  with sound_grown [OF o(1) run_grown [OF d sound_all_tables [OF o(1)]]]
  have "sound_tables (FromEnv os) (tabs (w_db wd)) \<and> moved (tabs (w_db wc)) (tabs (w_db wd))" by blast
  moreover have "w_held wd = {}" if "w_held w = {}"
    using run_held [OF built.locked_tick(1) d [unfolded st(1)]] that st(6) by simp
  ultimately show ?thesis using k st(1) w1 o(2) by (auto intro: moved_trans)
qed

end

lemma interleaved_rows_sound:
  assumes "pool_world E tabs fair" "fair (w_other w)"
    and "tabs (w_db w) = empty_tables \<or> sound_tables (FromEnv os) (tabs (w_db w))"
    and "run E (main_start sql_Open os) w = (Some s, w1)" "pool E (threads index files s) w1 (ps, w2)"
  shows "sound_tables (FromEnv os) (tabs (w_db w2)) \<and> moved (tabs (w_db w)) (tabs (w_db w2))"
proof -
  note st = pool_world.start_sound [OF assms(1,3,2,4)]
  then have t: "sound_tables (FromEnv os) (tabs (w_db w1))" by blast
  have new: "keeps (FromEnv os) {} p" if "p \<in> threads index files s" for p
    using built_careful.writes_threads [of p index files os] that st by simp
  have "service_db E tabs" using assms(1) by (simp add: pool_world_def)
  from sound_grown [OF t service_db.pool_grown [OF this assms(5) sound_all_tables [OF t], unfolded snd_conv]]
    pool_world.pool_sound [OF assms(1,5) sound_recoverable [OF t] _ new] st
  show ?thesis by (auto intro: moved_trans)
qed

text \<open>The memberships.\<close>

context pim
begin

lemma started_requested:
  assumes os: "cfg = FromEnv os" and t: "tabs (w_db w) = empty_tables \<or> sound_tables cfg (tabs (w_db w))"
    and fair: "fair (w_other w)" and r: "run E (main_start sql_Open os) w = (Some s, w1)"
    and p: "pool E (threads index files s) w1 (ps, w2)"
  shows "only_requested user_id (GroupActive cfg) in_grp (ran (reqs (tabs (w_db w2)))) (w_kc w) (w_kc w2)"
proof -
  have "startable (tabs (w_db w))" using t by (auto simp: startable_def sound_tables_def)
  note m = main_start_fine [OF os this fair r]
  have "pool_world E tabs fair" by (intro pool_world.intro service_db_axioms clock_axioms)
  note st = pool_world.start_sound [OF this t [unfolded os] fair r]
  have s: "s = make_service cfg" using m by blast
  have t1: "sound_tables cfg (tabs (w_db w1))" and w1: "fair (w_other w1)" "ids_ok (w_client w1)"
    using st m os by (simp_all add: fine_def)
  have threads: "keeps cfg {} q" "cautious (\<lambda>_ _. True) {} q" if "q \<in> threads index files s" for q
  proof -
    show "keeps cfg {} q" using built_careful.writes_threads [of q index files os] that s os by simp
    show "cautious (\<lambda>_ _. True) {} q" by (rule stays_threads) (use that s in simp)
  qed
  have t2: "all_tables (tabs (w_db w2))"
    using pool_grown [OF p sound_all_tables [OF t1]] by (simp add: grown_def)
  then have "completed (tabs (w_db w2)) = tabs (w_db w2)" by (simp add: completed_full all_tables_def)
  with pool_cautious [OF p sound_recoverable [OF t1] w1 threads]
  have "only_requested user_id (GroupActive cfg) in_grp (ran (reqs (tabs (w_db w2)))) (w_kc w1) (w_kc w2)" by simp
  moreover have "only_requested user_id (GroupActive cfg) in_grp (ran (reqs (tabs (w_db w2)))) (w_kc w) (w_kc w1)"
    using m unfolding only_requested_def by blast
  ultimately show ?thesis by (rule only_requested_trans [rotated])
qed

end

lemma nobody_enters_unasked:
  assumes "pim E tabs fair (FromEnv os) user_id group_id in_grp" "fair (w_other w)"
    and "tabs (w_db w) = empty_tables \<or> sound_tables (FromEnv os) (tabs (w_db w))"
    and "run E (main_start sql_Open os) w = (Some s, w1)" "pool E (threads index files s) w1 (ps, w2)"
  shows "in_grp (w_kc w2) - in_grp (w_kc w) \<subseteq>
      {(u, g). g = GroupActive (FromEnv os) \<and> (\<exists>q \<in> ran (reqs (tabs (w_db w2))). user_id (Username q) = Some u)} \<and>
    in_grp (w_kc w) - in_grp (w_kc w2) \<subseteq> {(u, g). g = GroupActive (FromEnv os)}"
  using pim.started_requested [OF assms(1) refl assms(3,2,4,5)] unfolding only_requested_def by blast

section \<open>An example\<close>

text \<open>A request that was made two hours ago, and the lives that follow.\<close>

interpretation rest_pool: pool_world rest_env fst ref_fair
  by (intro pool_world.intro rest_db.service_db_axioms rest_clock.clock_axioms)

interpretation rest_posts: posting rest_env fst o_posts
proof (intro posting.intro posting_axioms.intro)
  show "sqlite (e_exec rest_env) (e_query rest_env) (e_audit rest_env) fst"
    using rest_db.service_db_axioms by (simp add: service_db_def)
qed (auto simp: rest_env_def ref_webhook_def ref_now_def ref_rand_def split: if_splits)

definition asked_request :: request where
  "asked_request =
     new_request ref_config ''r1'' \<lparr>cb_Username = ''alice'', cb_Justification = ''fix the outage''\<rparr> (noon - 2 * Hour)"

definition asked_world :: "(engine, rest_state, outside) world" where
  "asked_world = (rest_world [] [(''u2'', ''admin-permanent'')] noon)\<lparr>w_db := (ref_tables [asked_request], [])\<rparr>"

lemma asked_sound: "sound_request ref_config asked_request"
  by (simp add: sound_request_def asked_request_def new_request_def storable_req_def noon_def storable_def
      days_before_year_def Second_def duration_defs ref_config_def minJustificationLen_def)

lemma asked_tables: "sound_tables (FromEnv demo_os) (fst (w_db asked_world))"
  "reqs (fst (w_db asked_world)) = [''r1'' \<mapsto> asked_request]"
proof -
  have s: "list_all storable_req [asked_request]" using asked_sound by (simp add: sound_request_def)
  have "ID asked_request = ''r1''" by (simp add: asked_request_def new_request_def)
  with ref_tables_ok [OF s] show "reqs (fst (w_db asked_world)) = [''r1'' \<mapsto> asked_request]"
    by (simp add: asked_world_def)
  with ref_tables_ok [OF s] asked_sound show "sound_tables (FromEnv demo_os) (fst (w_db asked_world))"
    by (simp add: sound_tables_def demo_os asked_world_def split: if_splits)
qed

lemma asked_fair: "ref_fair (w_other asked_world)"
  using noon_sane by (simp add: asked_world_def rest_world_def ref_fair_def)

text \<open>Two lives: the first is cut after its first call, the second starts and sweeps once.\<close>

abbreviation asked_life :: "process_event list \<Rightarrow> (engine, rest_state, outside) process option" where
  "asked_life evs \<equiv> process_run rest_env [] (\<lambda>_. healthz) evs (booting (\<lambda>_. None) demo_os (reborn asked_world))"

lemma rest_started:
  assumes "w_held w = {}" "engine_healthy (w_db w)"
  obtains n w1 where "run rest_env (main_start (\<lambda>_. None) os) w = (Some (make_service (FromEnv os)), w1)" "w_held w1 = {}"
    "process_run rest_env [] (\<lambda>_. healthz) (replicate n Boot) (booting (\<lambda>_. None) os w) =
       Some (started (make_service (FromEnv os)) w1)"
proof -
  let ?s = "make_service (FromEnv os)"
  obtain w1 where r: "run rest_env (main_start (\<lambda>_. None) os) w = (Some ?s, w1)"
    using rest_start [OF assms(2), of os] main_start_builds [of rest_env "\<lambda>_. None" os w] by auto
  have h1: "w_held w1 = {}" using main_start_ends [OF assms(1), of rest_env "\<lambda>_. None" os] r by simp
  obtain n where "process_run rest_env [] (\<lambda>_. healthz) (replicate n Boot) (booting (\<lambda>_. None) os w) = Some (started ?s w1)"
    using boot_complete [OF assms(1) r] by auto
  from that [OF r h1 this] show thesis .
qed

lemma asked_lives:
  obtains n m p where
    "asked_life (replicate n Boot @ [Start_worker, Fire, Choose Tick] @ replicate m Sweep) = Some p"
    "pr_worker p = Selecting" "pr_service p = Some (make_service (FromEnv demo_os))"
    "lifetimes rest_env (\<lambda>_. None) demo_os [] (\<lambda>_. healthz) asked_world (pr_world p)"
proof -
  let ?w = "reborn asked_world" and ?s = "make_service (FromEnv demo_os)"
  have "w_held ?w = {}" "engine_healthy (w_db ?w)" by (simp_all add: asked_world_def engine_healthy_def)
  then obtain n w1 where h1: "w_held w1 = {}" and n: "asked_life (replicate n Boot) = Some (started ?s w1)"
    by (rule rest_started)
  have "0 < PollInterval (FromEnv demo_os)" by (simp add: demo_os ref_config_def duration_defs)
  from started_tick [OF h1 this] obtain m where
    m: "process_run rest_env [] (\<lambda>_. healthz) ([Start_worker, Fire, Choose Tick] @ replicate m Sweep) (started ?s w1) =
      Some ((started ?s w1)\<lparr>pr_worker := Selecting, pr_world := snd (run rest_env (tick ?s) w1)\<rparr>)" by blast
  let ?p = "(started ?s w1)\<lparr>pr_worker := Selecting, pr_world := snd (run rest_env (tick ?s) w1)\<rparr>"
  have life: "asked_life (replicate n Boot @ [Start_worker, Fire, Choose Tick] @ replicate m Sweep) = Some ?p"
    by (subst process_run_append) (simp only: n m option.case)
  obtain p1 where p1: "asked_life [Boot] = Some p1" "reborn (pr_world p1) = ?w"
    by (simp add: booting_def process_step_def boot_step_def main_start_def Let_def log_line_def reborn_def)
  have "lifetimes rest_env (\<lambda>_. None) demo_os [] (\<lambda>_. healthz) asked_world (pr_world p1)"
    using one_life [OF no_life p1(1)] .
  from one_life [OF this, unfolded p1(2), OF life] have
    "lifetimes rest_env (\<lambda>_. None) demo_os [] (\<lambda>_. healthz) asked_world (pr_world ?p)" .
  from that [OF life _ _ this] show thesis by (simp add: started_def)
qed

theorem lives_keep_rows_sound_witness:
  "\<exists>n m p r. asked_life (replicate n Boot @ [Start_worker, Fire, Choose Tick] @ replicate m Sweep) = Some p \<and>
     pr_worker p = Selecting \<and> reqs (completed (fst (w_db (pr_world p)))) ''r1'' = Some r \<and>
     same_subject asked_request r \<and> sound_request ref_config r"
proof (rule asked_lives)
  fix n m p
  assume p: "asked_life (replicate n Boot @ [Start_worker, Fire, Choose Tick] @ replicate m Sweep) = Some p"
    "pr_worker p = Selecting"
    and l: "lifetimes rest_env (\<lambda>_. None) demo_os [] (\<lambda>_. healthz) asked_world (pr_world p)"
  let ?t = "completed (fst (w_db (pr_world p)))"
  have "recoverable (FromEnv demo_os) (fst (w_db (pr_world p))) \<and> moved (completed (fst (w_db asked_world))) ?t"
    using lives_keep_rows_sound [OF rest_pool.pool_world_axioms asked_fair sound_recoverable [OF asked_tables(1)] l] by blast
  then have "sound_tables ref_config ?t" "moved (fst (w_db asked_world)) ?t"
    using sound_full [OF asked_tables(1)] by (simp_all add: recoverable_def demo_os)
  moreover have "reqs (fst (w_db asked_world)) ''r1'' = Some asked_request" by (simp add: asked_tables(2))
  ultimately obtain q where "reqs ?t ''r1'' = Some q" "same_subject asked_request q" "sound_request ref_config q"
    unfolding moved_def sound_tables_def by blast
  with p show ?thesis by blast
qed

theorem nobody_enters_in_any_life_witness:
  "\<exists>n m p. asked_life (replicate n Boot @ [Start_worker, Fire, Choose Tick] @ replicate m Sweep) = Some p \<and>
     (''u2'', ''admin-permanent'') \<in> rest_in_grp (w_kc (pr_world p)) \<and>
     rest_in_grp (w_kc (pr_world p)) - {(''u2'', ''admin-permanent'')} \<subseteq>
       {(u, g). g = ''admin-active'' \<and>
          (\<exists>q \<in> ran (reqs (completed (fst (w_db (pr_world p))))). rest_user_id (Username q) = Some u)}"
proof (rule asked_lives)
  fix n m p
  assume p: "asked_life (replicate n Boot @ [Start_worker, Fire, Choose Tick] @ replicate m Sweep) = Some p"
    and l: "lifetimes rest_env (\<lambda>_. None) demo_os [] (\<lambda>_. healthz) asked_world (pr_world p)"
  let ?w = "pr_world p"
  have "pim rest_env fst ref_fair (FromEnv demo_os) rest_user_id (map_of rest_groups) rest_in_grp"
    unfolding demo_os by (rule rest_pim.pim_axioms)
  note n = nobody_enters_in_any_life [OF this asked_fair sound_recoverable [OF asked_tables(1)] l]
  have g: "GroupActive (FromEnv demo_os) = ''admin-active''" unfolding demo_os by (simp add: ref_config_def)
  have b: "rest_in_grp (w_kc asked_world) = {(''u2'', ''admin-permanent'')}"
    by (auto simp: asked_world_def rest_world_def rest_in_grp_def rest_groups_def)
  note into = conjunct1 [OF n, unfolded g b] and out = conjunct2 [OF n, unfolded g b]
  have "(''u2'', ''admin-permanent'') \<in> rest_in_grp (w_kc ?w)"
  proof (rule ccontr)
    assume "(''u2'', ''admin-permanent'') \<notin> rest_in_grp (w_kc ?w)"
    then have "(''u2'', ''admin-permanent'') \<in> {(u, g). g = ''admin-active''}" by (intro subsetD [OF out]) simp
    then show False by simp
  qed
  with p into show ?thesis by (intro exI conjI)
qed

theorem lives_post_once_witness:
  "\<exists>n m p. asked_life (replicate n Boot @ [Start_worker, Fire, Choose Tick] @ replicate m Sweep) = Some p \<and>
     o_posts (w_other (pr_world p)) \<le> length (t_notifs (completed (fst (w_db (pr_world p)))))"
proof (rule asked_lives)
  fix n m p
  assume p: "asked_life (replicate n Boot @ [Start_worker, Fire, Choose Tick] @ replicate m Sweep) = Some p"
    and l: "lifetimes rest_env (\<lambda>_. None) demo_os [] (\<lambda>_. healthz) asked_world (pr_world p)"
  have "o_posts (w_other asked_world) = 0" by (simp add: asked_world_def rest_world_def)
  with lives_post_once [OF rest_posts.posting_axioms rest_pool.pool_world_axioms asked_fair
      sound_recoverable [OF asked_tables(1)] l]
  have "o_posts (w_other (pr_world p)) \<le> length (t_notifs (completed (fst (w_db (pr_world p)))))" by linarith
  with p show ?thesis by blast
qed

end
