(* ===== verification/LossSpec.thy ===== *)
theory LossSpec
  imports AuditSpec RowSpec
begin

text \<open>
  Messages that are lost: a mark is set before its post and nothing takes it back, so a post that
  fails is not made again, in this life of the program or in any later one.
\<close>

section \<open>Marks stay\<close>

text \<open>No statement of the program takes a mark out of a table that is there.\<close>

lemma exec_keeps_marks:
  assumes "exec_sem st t (n, i) t'" "has_notifs t"
  shows "has_notifs t' \<and> marks t \<subseteq> marks t'"
  using assms by (cases st) (auto simp: marks_def split: if_splits)

context service_db
begin

abbreviation marked_for_good :: "(string \<times> string) \<Rightarrow> ('d, 'k, 'o) world \<Rightarrow> bool" where
  "marked_for_good x w \<equiv> has_notifs (tabs (w_db w)) \<and> x \<in> marks (tabs (w_db w))"

lemma step_marks:
  assumes "step E p w = Some (p', w')" "marked_for_good x w"
  shows "marked_for_good x w'"
proof (cases p)
  case (Exec st k)
  with assms(1) obtain r d where e: "e_exec E st (w_db w) = (r, d)" "w' = w\<lparr>w_db := d\<rparr>" by (auto split: prod.splits)
  from exec_cases [OF e(1)] show ?thesis
  proof (elim disjE exE conjE)
    fix n i assume "exec_sem st (tabs (w_db w)) (n, i) (tabs d)"
    from exec_keeps_marks [OF this] assms(2) e(2) show ?thesis by auto
  qed (use assms(2) e(2) in simp)
qed (use assms query_frame audit_frame in \<open>auto split: prod.splits if_splits\<close>)

lemma process_step_marks:
  assumes "process_step E index files ev p = Some p'" "marked_for_good x (pr_world p)"
  shows "marked_for_good x (pr_world p')"
  using assms(1)
proof (rule process_step_cases)
  fix q assume "boot_step E q p = Some p'"
  then show ?thesis using step_marks [OF _ assms(2), of q] assms(2)
    by (auto simp: boot_step_def split: option.splits prog.splits)
next
  fix s assume "main_step ev p = Some p' \<or> worker_step E s ev p = Some p' \<or> server_step E index files s ev p = Some p'"
  then show ?thesis
    by (rule running_step) (use assms(2) step_marks in \<open>simp_all add: say_def\<close>)
qed

lemma process_marks:
  "process_run E index files evs p = Some p' \<Longrightarrow> marked_for_good x (pr_world p) \<Longrightarrow> marked_for_good x (pr_world p')"
  by (erule process_invariant [where I = "\<lambda>p. marked_for_good x (pr_world p)"]) (auto dest: process_step_marks)

lemma lifetimes_marks:
  "lifetimes E sql_Open os index files w0 w \<Longrightarrow> marked_for_good x w0 \<Longrightarrow> marked_for_good x w"
proof (induction rule: lifetimes.induct)
  case (one_life w evs p)
  then show ?case using process_marks [OF one_life.hyps(2), of x] by (simp add: booting_def)
qed simp

text \<open>A mark that was set is one for good.\<close>

lemma mark_set_for_good:
  assumes "run E (TryMarkNotified i k) w = (Inr True, w')"
  shows "marked_for_good (i, k) w'"
proof -
  obtain r n j where m: "notif_key r = (i, k)" "n = 1"
    "exec_sem (InsertNotification r) (tabs (w_db w)) (n, j) (tabs (w_db w'))"
    using mark_cases [OF assms] by (auto simp del: exec_sem.simps)
  have "marks (tabs (w_db w')) = insert (i, k) (marks (tabs (w_db w)))" using mark_exec(1) [OF m(3,2)] m(1) by simp
  moreover have "has_notifs (tabs (w_db w'))" using m(3) by (auto split: if_splits)
  ultimately show ?thesis by simp
qed

end

section \<open>Posts that fail\<close>

text \<open>The request a post is made of.\<close>

lemma run_failed_post:
  assumes "e_webhook E \<lparr>hq_method = ''POST'', hq_url = webhookURL n,
        hq_header = [(''Content-Type'', ''application/json'')],
        hq_body = ''{'' @ print_string ''text'' @ '':'' @ print_string t @ ''}''\<rparr> (w_other w) = (r, x)"
    and "case r of Inl e \<Rightarrow> True | Inr resp \<Rightarrow> 300 \<le> hp_code resp"
  shows "\<exists>e. run E (post n t) w = (Inl e, w\<lparr>w_other := x\<rparr>)"
  using assms by (cases r) (simp_all add: post_def)

context notifying_world
begin

lemma failed_post_run:
  assumes "Enabled (Some n)" "run E (TryMarkNotified i k) w = (Inr True, w0)" "run E (post n t) w0 = (Inl e, w1)"
  obtains w2 where "run E (NotifyOnce n i k t) w = (False, w2)" "marked_for_good (i, k) w2"
    "posts (w_other w2) = Suc (posts (w_other w))"
proof -
  obtain u w2 where l: "run E (log_line (''notify send '' @ i @ ''/'' @ k @ '': '' @ error_text e)) w1 = (u, w2)"
    by (rule prod.exhaust)
  then have same: "w_db w2 = w_db w1" "w_other w2 = w_other w1" by (auto simp: log_line_def)
  have "run E (NotifyOnce n i k t) w = (False, w2)" using assms l by (simp add: NotifyOnce_def run_bnd)
  moreover have "marked_for_good (i, k) w2" using mark_set_for_good [OF assms(2)] run_post [OF assms(3)] same by simp
  moreover have "posts (w_other w2) = Suc (posts (w_other w))"
    using run_post [OF assms(3)] mark_posts [OF assms(2)] same by simp
  ultimately show thesis by (rule that)
qed

lemma marked_no_post:
  assumes "marked_for_good (i, k) w" "run E (NotifyOnce n i k t) w = (b, w')"
  shows "\<not> b \<and> posts (w_other w') = posts (w_other w)"
  using notify_once_cases [OF assms(2)] assms(1) by auto

end

section \<open>An example\<close>

text \<open>A notifier whose webhook answers 503, and an empty database.\<close>

interpretation rest_notifying: notifying_world rest_env fst o_posts
proof (intro notifying_world.intro notifying_world_axioms.intro)
  show "posting rest_env fst o_posts" by (rule rest_posts.posting_axioms)
  show "service_db rest_env fst" by (rule rest_db.service_db_axioms)
qed (auto simp: rest_env_def ref_webhook_def)

definition down_hook :: notifier where
  "down_hook = \<lparr>webhookURL = ''http://down'', publicURL = []\<rparr>"

definition quiet_world :: "(engine, rest_state, outside) world" where
  "quiet_world = rest_world [] [] noon"

lemma quiet_mark:
  obtains w0 where "run rest_env (TryMarkNotified ''r1'' ''approved_requester'') quiet_world = (Inr True, w0)"
    "engine_healthy (w_db w0)"
proof -
  obtain x w0 where r: "run rest_env (TryMarkNotified ''r1'' ''approved_requester'') quiet_world = (x, w0)"
    by (rule prod.exhaust)
  then have "x = Inr True \<and> engine_healthy (w_db w0)"
    by (auto simp: TryMarkNotified_def run_simps rest_env_def ref_now_def engine_exec_def quiet_world_def rest_world_def
        ref_tables_def notif_key_def engine_healthy_def)
  with r that show thesis by blast
qed

section \<open>The property\<close>

text \<open>
  C36: a post that fails is lost for good, and reported as not attempted.  When the mark of a
  message is set by this call and the webhook answers its post with an error or with a status of
  300 or more, the call returns \<open>False\<close> although exactly one post was made.  From then on --
  after any further events of this life of the program, and after any number of later lives, each
  ended at any moment -- every notification of that kind for that request returns \<open>False\<close> without
  a post, whatever its text and whatever webhook is configured by then.
\<close>

theorem failed_post_is_lost:
  assumes "notifying_world E tabs posts" "Enabled (Some n)"
    and "run E (TryMarkNotified i k) w = (Inr True, w0)"
    and "e_webhook E \<lparr>hq_method = ''POST'', hq_url = webhookURL n,
        hq_header = [(''Content-Type'', ''application/json'')],
        hq_body = ''{'' @ print_string ''text'' @ '':'' @ print_string t @ ''}''\<rparr> (w_other w0) = (r, x)"
    and "case r of Inl e \<Rightarrow> True | Inr resp \<Rightarrow> 300 \<le> hp_code resp"
  shows "\<exists>w1. run E (NotifyOnce n i k t) w = (False, w1) \<and> posts (w_other w1) = Suc (posts (w_other w)) \<and>
    (\<forall>p evs p' w2 n' t' b w3. pr_world p = w1 \<longrightarrow> process_run E index files evs p = Some p' \<longrightarrow>
       lifetimes E sql_Open os index files (pr_world p') w2 \<longrightarrow> run E (NotifyOnce n' i k t') w2 = (b, w3) \<longrightarrow>
       \<not> b \<and> posts (w_other w3) = posts (w_other w2))"
proof -
  have db: "service_db E tabs" using assms(1) by (simp add: notifying_world_def)
  obtain e where "run E (post n t) w0 = (Inl e, w0\<lparr>w_other := x\<rparr>)" using run_failed_post [OF assms(4,5)] by blast
  from notifying_world.failed_post_run [OF assms(1-3) this] obtain w1 where
    one: "run E (NotifyOnce n i k t) w = (False, w1)" "posts (w_other w1) = Suc (posts (w_other w))"
    and set: "has_notifs (tabs (w_db w1)) \<and> (i, k) \<in> marks (tabs (w_db w1))" by blast
  have "\<not> b \<and> posts (w_other w3) = posts (w_other w2)"
    if "pr_world p = w1" "process_run E index files evs p = Some p'"
      "lifetimes E sql_Open os index files (pr_world p') w2" "run E (NotifyOnce n' i k t') w2 = (b, w3)"
    for p evs p' w2 n' t' b w3
  proof -
    have "has_notifs (tabs (w_db (pr_world p'))) \<and> (i, k) \<in> marks (tabs (w_db (pr_world p')))"
      using service_db.process_marks [OF db that(2)] set that(1) by blast
    from service_db.lifetimes_marks [OF db that(3) this]
    show ?thesis by (rule notifying_world.marked_no_post [OF assms(1) _ that(4)])
  qed
  with one show ?thesis by blast
qed

theorem failed_post_is_lost_witness:
  "\<exists>w1 w2 w3. run rest_env (NotifyOnce down_hook ''r1'' ''approved_requester'' ''a'') quiet_world = (False, w1) \<and>
     o_posts (w_other w1) = 1 \<and> lifetimes rest_env (\<lambda>_. None) demo_os [] (\<lambda>_. healthz) w1 w2 \<and> w_held w2 = {} \<and>
     run rest_env (NotifyOnce (New ''http://hook'' []) ''r1'' ''approved_requester'' ''b'') w2 = (False, w3) \<and>
     o_posts (w_other w3) = o_posts (w_other w2)"
proof -
  obtain w0 where m: "run rest_env (TryMarkNotified ''r1'' ''approved_requester'') quiet_world = (Inr True, w0)"
    "engine_healthy (w_db w0)" by (rule quiet_mark)
  have en: "Enabled (Some down_hook)" by (simp add: Enabled_def down_hook_def)
  let ?q = "\<lparr>hq_method = ''POST'', hq_url = webhookURL down_hook,
        hq_header = [(''Content-Type'', ''application/json'')],
        hq_body = ''{'' @ print_string ''text'' @ '':'' @ print_string ''a'' @ ''}''\<rparr>"
  obtain r x where h: "e_webhook rest_env ?q (w_other w0) = (r, x)" by (rule prod.exhaust)
  then have bad: "case r of Inl e \<Rightarrow> True | Inr resp \<Rightarrow> 300 \<le> hp_code resp"
    by (auto simp: rest_env_def ref_webhook_def down_hook_def)
  from failed_post_is_lost [OF rest_notifying.notifying_world_axioms en m(1) h bad,
      where os = demo_os and sql_Open = "\<lambda>_. None" and index = "[]" and files = "\<lambda>_. healthz"]
  obtain w1 where one: "run rest_env (NotifyOnce down_hook ''r1'' ''approved_requester'' ''a'') quiet_world = (False, w1)"
    "o_posts (w_other w1) = Suc (o_posts (w_other quiet_world))"
    and later: "\<And>p evs p' w2 n' t' b w3. pr_world p = w1 \<Longrightarrow> process_run rest_env [] (\<lambda>_. healthz) evs p = Some p' \<Longrightarrow>
       lifetimes rest_env (\<lambda>_. None) demo_os [] (\<lambda>_. healthz) (pr_world p') w2 \<Longrightarrow>
       run rest_env (NotifyOnce n' ''r1'' ''approved_requester'' t') w2 = (b, w3) \<Longrightarrow>
       \<not> b \<and> o_posts (w_other w3) = o_posts (w_other w2)" by blast
  obtain e where "run rest_env (post down_hook ''a'') w0 = (Inl e, w0\<lparr>w_other := x\<rparr>)"
    using run_failed_post [OF h bad] by blast
  with one(1) en m(1) have "w_db w1 = w_db w0" by (auto simp: NotifyOnce_def run_bnd log_line_def)
  with m(2) have "w_held (reborn w1) = {}" "engine_healthy (w_db (reborn w1))" by simp_all
  then obtain k w2 where st: "w_held w2 = {}"
    "process_run rest_env [] (\<lambda>_. healthz) (replicate k Boot) (booting (\<lambda>_. None) demo_os (reborn w1)) =
       Some (started (make_service (FromEnv demo_os)) w2)"
    by (rule rest_started [of "reborn w1" demo_os])
  have life: "lifetimes rest_env (\<lambda>_. None) demo_os [] (\<lambda>_. healthz) w1 w2"
    using one_life [OF no_life st(2)] by (simp add: started_def)
  obtain b w3 where two: "run rest_env (NotifyOnce (New ''http://hook'' []) ''r1'' ''approved_requester'' ''b'') w2 = (b, w3)"
    by (rule prod.exhaust)
  have "\<not> b \<and> o_posts (w_other w3) = o_posts (w_other w2)"
    by (rule later [of "booting (\<lambda>_. None) demo_os w1" "[]" "booting (\<lambda>_. None) demo_os w1", OF _ _ _ two]) (simp_all add: booting_def life)
  with one life st(1) two show ?thesis by (auto simp: quiet_world_def rest_world_def)
qed

end
