(* ===== verification/Shutdown.thy ===== *)
theory Shutdown
  imports Startup
begin

text \<open>
  The end of a life.  The goroutines of every reachable state keep the mutexes apart and one of
  them can always move; the calls of a goroutine run out, however the others move in between.
\<close>

section \<open>Mutexes of the goroutines\<close>

text \<open>The mutex invariant does not depend on the order of the threads, nor on those that have ended.\<close>

lemma one_holder:
  "(\<forall>i j m. i < length hs \<longrightarrow> j < length hs \<longrightarrow> hs ! i = Some m \<longrightarrow> hs ! j = Some m \<longrightarrow> i = j) \<longleftrightarrow>
     (\<forall>m. count (mset hs) (Some m) \<le> Suc 0)"
proof -
  have "count (mset hs) x \<le> Suc 0 \<longleftrightarrow> (\<forall>i j. i < length hs \<longrightarrow> j < length hs \<longrightarrow> hs ! i = x \<longrightarrow> hs ! j = x \<longrightarrow> i = j)" for x
  proof -
    have "count (mset hs) x = card {i. i < length hs \<and> x = hs ! i}" by (simp add: count_mset count_list_eq_length_filter length_filter_conv_card eq_commute [of x])
    then show ?thesis by (auto simp: card_le_Suc0_iff_eq)
  qed
  then show ?thesis by auto
qed

lemma lock_inv_mset:
  "lock_inv hs ps w \<longleftrightarrow>
     list_all2 locked hs ps \<and> w_held w = {m. Some m \<in># mset hs} \<and> (\<forall>m. count (mset hs) (Some m) \<le> Suc 0)"
  by (simp only: lock_inv_def held_by_def one_holder set_mset_mset)

lemma lock_inv_reorder:
  assumes "lock_inv hs ps w" "mset qs = mset ps"
  shows "\<exists>hs'. lock_inv hs' qs w"
proof -
  from assms(1) have "list_all2 (\<lambda>p h. locked h p) ps hs" by (simp add: lock_inv_mset list_all2_conv_all_nth)
  from list_all2_reorder_left_invariance [OF this assms(2)] obtain hs' where
    "list_all2 (\<lambda>p h. locked h p) qs hs'" "mset hs' = mset hs" by blast
  moreover from this have "list_all2 locked hs' qs" by (simp add: list_all2_conv_all_nth)
  ultimately show ?thesis using assms(1) unfolding lock_inv_mset by metis
qed

lemma lock_inv_drop:
  assumes "lock_inv hs (ps @ ds) w" "list_all finished ds"
  shows "\<exists>hs'. lock_inv hs' ps w"
proof -
  from assms(1) obtain as bs where hs: "hs = as @ bs" "list_all2 locked as ps" "list_all2 locked bs ds"
    unfolding lock_inv_mset by (auto simp: list_all2_append2)
  from hs(3) assms(2) have "set bs \<subseteq> {None}"
    by (induction rule: list_all2_induct) (auto simp: finished_iff)
  then have "Some m \<notin> set bs" for m by auto
  with assms(1) hs have "lock_inv as ps w" unfolding lock_inv_mset by (auto intro: add_leD1)
  then show ?thesis ..
qed

lemma process_locks:
  assumes run: "process_run E index files evs (booting sql_Open os w) = Some p" "w_held w = {}"
    and "pr_service p = Some s"
  shows "\<exists>hs. lock_inv hs (live p) (pr_world p)"
proof -
  from process_follows [OF run(1)] assms(3) obtain ps where
    r: "fst (run E (main_start sql_Open os) w) = Some s"
    and pool: "pool E (service_threads index files s) (snd (run E (main_start sql_Open os) w)) (ps, pr_world p)"
    and "shows_as ps (mset (live p))" by (auto simp: follows_def)
  then obtain D where D: "mset ps = mset (live p) + D" "\<forall>q \<in># D. finished q" by (auto simp: shows_as_def)
  obtain ds where ds: "mset ds = D" using ex_mset by blast
  have s: "s = make_service (FromEnv os)" using r main_start_builds [of E sql_Open os w] by simp
  have "locked None q" if "q \<in> service_threads index files s" for q
    using that built.locked_threads [of q index files "FromEnv os"] by (auto simp: service_threads_def s)
  from pool_locks [OF pool _ this] main_start_ends [OF run(2), of E sql_Open os]
  obtain hs where "lock_inv hs ps (pr_world p)" by auto
  moreover have "mset (live p @ ds) = mset ps" using D(1) ds by simp
  ultimately obtain hs' where "lock_inv hs' (live p @ ds) (pr_world p)" using lock_inv_reorder by metis
  moreover have "list_all finished ds" using D(2) ds by (auto simp: list_all_iff)
  ultimately show ?thesis by (rule lock_inv_drop)
qed

text \<open>A goroutine that is not done can move, or another one can.\<close>

lemma some_moves:
  assumes "lock_inv hs (live p) (pr_world p)" "running p" "pr_service p = Some s"
    and "q \<in> set (live p)" "\<not> finished q"
  obtains j q' w' where "j < length (live p)" "step E (live p ! j) (pr_world p) = Some (q', w')"
    "process_step E index files (if j < length (pr_threads p) then Serve j else Sweep) p =
       Some (if j < length (pr_threads p) then p\<lparr>pr_threads := (pr_threads p)[j := q'], pr_world := w'\<rparr>
             else p\<lparr>pr_worker := Sweeping q', pr_world := w'\<rparr>)"
proof -
  from assms(4) obtain i where i: "i < length (live p)" "live p ! i = q" by (auto simp: in_set_conv_nth)
  with assms(5) have "\<not> (\<exists>a. live p ! i = Ret a)" by (auto simp: finished_iff)
  from no_deadlock [OF assms(1) i(1) this] obtain j q' w' where
    j: "j < length (live p)" "step E (live p ! j) (pr_world p) = Some (q', w')"
    by (fastforce simp: pool_step_iff)
  note st = running_process_step [OF assms(2,3)]
  show thesis
  proof (cases "j < length (pr_threads p)")
    case True
    then have "live p ! j = pr_threads p ! j" by (simp add: live_def nth_append)
    with True j(2) have "process_step E index files (Serve j) p = Some (p\<lparr>pr_threads := (pr_threads p)[j := q'], pr_world := w'\<rparr>)"
      by (simp add: st pool_step_def)
    with True show thesis by (intro that [OF j]) simp
  next
    case False
    with j(1) obtain r where r: "pr_worker p = Sweeping r" "j = length (pr_threads p)"
      by (auto simp: live_def split: worker.splits)
    then have "live p ! j = r" by (simp add: live_def)
    with j(2) have "step E r (pr_world p) = Some (q', w')" "\<not> finished r" by (auto simp: finished_iff)
    with r have "process_step E index files Sweep p = Some (p\<lparr>pr_worker := Sweeping q', pr_world := w'\<rparr>)"
      by (simp add: st)
    with False show thesis by (intro that [OF j]) simp
  qed
qed

section \<open>Calls run out\<close>

text \<open>A program is a tree of finite depth: whatever its calls answer, it makes finitely many.\<close>

definition calls :: "('d, 'k, 'o) env \<Rightarrow> ('a prog \<times> 'a prog) set" where
  "calls E = {(q', q). \<exists>w w'. step E q w = Some (q', w')}"

lemma calls_into: "(q', q) \<in> calls E \<Longrightarrow> \<exists>w w'. step E q w = Some (q', w')"
  by (simp add: calls_def)

lemma wf_calls: "wf (calls E)"
proof (rule acc_wfI, rule allI)
  show "q \<in> Wellfounded.acc (calls E)" for q :: "'a prog"
    by (induction q) (rule accI, drule calls_into, fastforce split: prod.splits if_splits)+
qed

lemma call_less:
  assumes "step E q w = Some (q', w')"
  shows "(add_mset q' A, add_mset q A) \<in> mult1 (calls E)"
proof -
  have "add_mset q' A = A + {#q'#} \<and> (\<forall>b. b \<in># {#q'#} \<longrightarrow> (b, q) \<in> calls E)" using assms by (auto simp: calls_def)
  then show ?thesis unfolding mult1_def by blast
qed

section \<open>After \<open>Shutdown\<close> has closed the listener\<close>

definition closing :: "('d, 'k, 'o) process \<Rightarrow> bool" where
  "closing p \<longleftrightarrow> pr_main p = Draining \<and> pr_service p \<noteq> None \<and> pr_server p \<noteq> Listening"

lemma shut_closing: "process_step E index files Shut p = Some p' \<Longrightarrow> closing p'"
  by (auto simp: process_step_def closing_def split: phase.splits option.splits if_splits)

text \<open>Nothing is accepted any more; the requests that are handled go on, and nobody else moves them.\<close>

lemma closing_step:
  assumes c: "closing p" and st: "process_step E index files ev p = Some p'"
  shows "(closing p' \<or> pr_main p' \<in> range Exited) \<and> ev \<notin> range Accept \<and>
    length (pr_threads p') = length (pr_threads p) \<and>
    (if ev \<in> range Serve then (mset (pr_threads p'), mset (pr_threads p)) \<in> mult1 (calls E)
     else pr_threads p' = pr_threads p)"
proof -
  from c obtain s where s: "pr_service p = Some s" "running p" "pr_main p = Draining" "pr_server p \<noteq> Listening"
    by (auto simp: closing_def)
  note ev = st [unfolded running_process_step [OF s(2,1)]]
  show ?thesis
  proof (cases "ev \<in> range Serve")
    case True
    then obtain j where j: "ev = Serve j" by blast
    with ev obtain q' w' where q: "j < length (pr_threads p)" "step E (pr_threads p ! j) (pr_world p) = Some (q', w')"
      "p' = p\<lparr>pr_threads := (pr_threads p)[j := q'], pr_world := w'\<rparr>"
      by (auto simp: pool_step_iff split: option.splits)
    let ?A = "mset (pr_threads p) - {#pr_threads p ! j#}"
    have "mset (pr_threads p) = add_mset (pr_threads p ! j) ?A" "mset (pr_threads p') = add_mset q' ?A"
      using q by (simp_all add: mset_update)
    with call_less [OF q(2), of ?A] c q(3) j show ?thesis by (auto simp: closing_def)
  next
    case False
    with ev s show ?thesis
      by (cases "(E, s, ev, p)" rule: worker_step.cases)
        (auto simp: closing_def say_def stopped_def split: if_splits option.splits worker.splits)
  qed
qed

lemma exited_stays: "pr_main p \<in> range Exited \<Longrightarrow> process_step E index files ev p = None"
  by (auto simp: process_step_def)

lemma closing_run:
  "process_run E index files evs p = Some p' \<Longrightarrow> closing p \<or> pr_main p \<in> range Exited \<Longrightarrow> Accept rq \<notin> set evs"
proof (induction evs arbitrary: p)
  case (Cons ev evs)
  then obtain p1 where p1: "process_step E index files ev p = Some p1" "process_run E index files evs p1 = Some p'"
    by (auto split: option.splits)
  with Cons.prems(2) have "closing p" using exited_stays [of p E index files ev] by auto
  from closing_step [OF this p1(1)] Cons.IH [OF p1(2)] show ?case by auto
qed simp

text \<open>The requests can all be handled to their end.\<close>

lemma drains:
  assumes "lock_inv hs (live p) (pr_world p)" "pr_main p = Draining" "pr_service p = Some s"
  shows "\<exists>cs p'. set cs \<subseteq> insert Sweep (range Serve) \<and> process_run E index files cs p = Some p' \<and>
    pr_main p' = Draining \<and> pr_service p' = Some s \<and> list_all finished (pr_threads p') \<and>
    length (pr_threads p') = length (pr_threads p)"
  using assms
proof (induction "mset (live p)" arbitrary: p hs rule: wf_induct_rule [OF wf_mult1 [OF wf_calls [of E]]])
  case (1 p)
  show ?case
  proof (cases "list_all finished (pr_threads p)")
    case True
    with 1(3,4) show ?thesis by (intro exI [of _ "[]"] exI [of _ p]) simp
  next
    case False
    then obtain q where q: "q \<in> set (live p)" "\<not> finished q" by (auto simp: live_def list_all_iff)
    have "running p" using 1(3) by simp
    note moves = some_moves [OF 1(2) this 1(4) q, of E index files]
    obtain j q' w' where j: "j < length (live p)" "step E (live p ! j) (pr_world p) = Some (q', w')"
      "process_step E index files (if j < length (pr_threads p) then Serve j else Sweep) p =
         Some (if j < length (pr_threads p) then p\<lparr>pr_threads := (pr_threads p)[j := q'], pr_world := w'\<rparr>
               else p\<lparr>pr_worker := Sweeping q', pr_world := w'\<rparr>)"
      by (rule moves)
    let ?ev = "if j < length (pr_threads p) then Serve j else Sweep"
    let ?p = "if j < length (pr_threads p) then p\<lparr>pr_threads := (pr_threads p)[j := q'], pr_world := w'\<rparr>
         else p\<lparr>pr_worker := Sweeping q', pr_world := w'\<rparr>"
    have live: "live ?p = (live p)[j := q']" using j(1)
      by (auto simp: live_def list_update_append not_less split: worker.splits)
    let ?A = "mset (live p) - {#live p ! j#}"
    have "mset (live p) = add_mset (live p ! j) ?A" "mset (live ?p) = add_mset q' ?A"
      unfolding live using j(1) by (simp_all add: mset_update)
    with call_less [OF j(2), of ?A] have less: "(mset (live ?p), mset (live p)) \<in> mult1 (calls E)" by simp
    have world: "pr_world ?p = w'" "pr_main ?p = Draining" "pr_service ?p = Some s"
      "length (pr_threads ?p) = length (pr_threads p)" using 1(3,4) by simp_all
    obtain hs' where "lock_inv hs' (live ?p) (pr_world ?p)"
      using lock_inv_step [OF 1(2) j(1,2)] unfolding live world(1) by blast
    from 1(1) [OF less this world(2,3)] obtain cs p' where
      cs: "set cs \<subseteq> insert Sweep (range Serve)" "process_run E index files cs ?p = Some p'"
        "pr_main p' = Draining" "pr_service p' = Some s" "list_all finished (pr_threads p')"
        "length (pr_threads p') = length (pr_threads p)" unfolding world(4) by blast
    have "process_run E index files (?ev # cs) p = Some p'" using j(3) cs(2) by (simp only: process_run.simps option.case)
    moreover have "set (?ev # cs) \<subseteq> insert Sweep (range Serve)" using cs(1) by simp
    ultimately show ?thesis using cs(3-6) by blast
  qed
qed

text \<open>The calls of the requests run out.\<close>

lemma closing_finite:
  assumes "closing (f 0)" "\<And>i. process_step E index files (e i) (f i) = Some (f (Suc i))"
  shows "finite {i. e i \<in> range Serve}"
  using assms
proof (induction "mset (pr_threads (f 0))" arbitrary: f e rule: wf_induct_rule [OF wf_mult1 [OF wf_calls [of E]]])
  case (1 f e)
  have go: "closing (f i)" for i
  proof (induction i)
    case (Suc i)
    from closing_step [OF this 1(3)] exited_stays [of "f (Suc i)" E index files "e (Suc i)"] 1(3) [of "Suc i"]
    show ?case by auto
  qed (rule 1(2))
  show ?case
  proof (cases "\<exists>i. e i \<in> range Serve")
    case True
    define k where "k = (LEAST i. e i \<in> range Serve)"
    have k: "e k \<in> range Serve" using True unfolding k_def by (rule LeastI_ex)
    have before: "e i \<notin> range Serve" if "i < k" for i using that not_less_Least unfolding k_def by blast
    have "pr_threads (f i) = pr_threads (f 0)" if "i \<le> k" for i
      using that
    proof (induction i)
      case (Suc i)
      with closing_step [OF go 1(3)] before [of i] show ?case by (auto split: if_splits)
    qed simp
    from this [OF order_refl] have same: "pr_threads (f k) = pr_threads (f 0)" .
    let ?f = "\<lambda>i. f (Suc k + i)"
    have less: "(mset (pr_threads (?f 0)), mset (pr_threads (f 0))) \<in> mult1 (calls E)"
      using closing_step [OF go [of k] 1(3)] k same by simp
    have "process_step E index files (e (Suc k + i)) (?f i) = Some (?f (Suc i))" for i
      using 1(3) [of "Suc k + i"] by simp
    from 1(1) [of ?f, OF less go this] have "finite {i. e (Suc k + i) \<in> range Serve}" .
    then have "finite (insert k ((+) (Suc k) ` {i. e (Suc k + i) \<in> range Serve}))" by simp
    moreover have "{i. e i \<in> range Serve} \<subseteq> insert k ((+) (Suc k) ` {i. e (Suc k + i) \<in> range Serve})"
    proof
      fix i assume i: "i \<in> {i. e i \<in> range Serve}"
      then have "\<not> i < k" using before by auto
      then consider "i = k" | "k < i" by linarith
      then show "i \<in> insert k ((+) (Suc k) ` {i. e (Suc k + i) \<in> range Serve})"
      proof cases
        case 2
        then obtain m where "i = Suc (k + m)" by (auto dest: less_imp_Suc_add)
        with i show ?thesis by (intro insertI2 image_eqI [of _ _ m]) simp_all
      qed simp
    qed
    ultimately show ?thesis by (rule rev_finite_subset)
  qed auto
qed

section \<open>\<open>main\<close> and the worker\<close>

text \<open>When no request is handled, \<open>main\<close> is gone at once, wherever the worker is.\<close>

lemma stop_run:
  assumes "pr_main p = Waiting" "pr_service p = Some s" "list_all finished (pr_threads p)"
  shows "\<exists>p'. process_run E index files [Signal, Cancel, Shut, Drained] p = Some p' \<and> pr_main p' = Exited 0 \<and>
    pr_worker p' = pr_worker p \<and>
    pr_world p' = (pr_world p)\<lparr>w_log := w_log (pr_world p) @ [''pim stopped'']\<rparr>"
  using assms by (simp add: process_step_def stopped_def say_def)

text \<open>A part of the sweep of the started service.\<close>

lemma first_part:
  assumes "locked None p" "w_held w = {}" "run E p w = (a, w')"
  obtains n where "schedule E (replicate n 0) ([bnd p f], w) = Some ([f a], w')" "w_held w' = {}"
proof -
  obtain n where n: "schedule E (replicate n 0) ([p], w) = Some ([Ret a], w')"
    using steps_complete [OF assms(1,2), of E] assms(3) by auto
  have "w_held w' = {}" using run_held [OF assms(1,3)] assms(2) by simp
  with schedule_lift [OF n, of 0 "[bnd p f]" f] show thesis by (intro that [of n]) simp_all
qed

lemma sweep_part:
  assumes "process_run E index files evs p = Some ((started s w)\<lparr>pr_worker := Sweeping (bnd q f)\<rparr>)"
    and "locked None q" "w_held w = {}" "run E q w = (a, w')"
  obtains n where "process_run E index files (evs @ replicate n Sweep) p =
      Some ((started s w')\<lparr>pr_worker := Sweeping (f a)\<rparr>)" "w_held w' = {}"
proof -
  obtain n where n: "schedule E (replicate n 0) ([bnd q f], w) = Some ([f a], w')" "w_held w' = {}"
    by (rule first_part [OF assms(2-4)])
  from sweep_schedule [OF n(1), of "(started s w)\<lparr>pr_worker := Sweeping (bnd q f)\<rparr>" s index files]
  have "process_run E index files (replicate n Sweep) ((started s w)\<lparr>pr_worker := Sweeping (bnd q f)\<rparr>) =
      Some ((started s w')\<lparr>pr_worker := Sweeping (f a)\<rparr>)" by (simp add: started_def)
  with assms(1) n(2) show thesis by (intro that [of n]) (simp_all add: process_run_append)
qed

text \<open>A worker that is never created.\<close>

lemma zero_worker:
  assumes "process_run E index files evs (booting sql_Open os w) = Some p" "PollInterval (FromEnv os) \<le> 0"
  shows "pr_worker p = Created \<and> (\<forall>s. pr_service p = Some s \<longrightarrow> sv_cfg s = FromEnv os)"
proof -
  let ?r = "run E (main_start sql_Open os) w"
  have r: "sv_cfg s = FromEnv os" if "fst ?r = Some s" for s
    using main_start_builds [of E sql_Open os w] that by (auto simp: make_service_def NewService_def)
  have "follows E index files ?r p \<and> pr_worker p = Created"
    using assms(1)
  proof (rule process_invariant)
    show "follows E index files ?r (booting sql_Open os w) \<and> pr_worker (booting sql_Open os w) = Created"
      using follows_booting by (simp add: booting_def)
    fix ev and p p' :: "('a, 'b, 'c) process"
    assume p: "follows E index files ?r p \<and> pr_worker p = Created" and st: "process_step E index files ev p = Some p'"
    have "pr_worker p' = Created"
      using st
    proof (rule process_step_cases)
      fix q assume "boot_step E q p = Some p'"
      with p show ?thesis by (auto simp: boot_step_def split: option.splits prog.splits)
    next
      fix s
      assume s: "pr_service p = Some s"
        and r': "main_step ev p = Some p' \<or> worker_step E s ev p = Some p' \<or> server_step E index files s ev p = Some p'"
      from p s have "fst ?r = Some s" by (simp add: follows_def)
      with r assms(2) have zero: "PollInterval (sv_cfg s) \<le> 0" by simp
      from r' show ?thesis
      proof (elim disjE)
        assume "main_step ev p = Some p'"
        with p show ?thesis by (cases ev) (auto simp: stopped_def say_def split: if_splits)
      next
        assume "worker_step E s ev p = Some p'"
        with p zero show ?thesis by (cases "(E, s, ev, p)" rule: worker_step.cases) (auto split: if_splits)
      next
        assume "server_step E index files s ev p = Some p'"
        with p show ?thesis by (cases ev) (auto simp: say_def split: if_splits option.splits)
      qed
    qed
    with follows_step [OF _ st] p show "follows E index files ?r p' \<and> pr_worker p' = Created" by blast
  qed
  with r show ?thesis by (auto simp: follows_def)
qed

end
