(* ===== verification/ProcessSpec.thy ===== *)
theory ProcessSpec
  imports Shutdown RowSpec
begin

text \<open>
  The properties of the whole process: it refines the pool of threads, no goroutine waits for
  ever, a shutdown answers what was accepted and nothing else -- but does not wait for the
  worker --, and a poll interval that is not positive ends the process before any sweep.
\<close>

section \<open>An example\<close>

text \<open>A service that is started and sweeps, and one that has accepted a request when it is stopped.\<close>

definition list_call :: web_request where
  "list_call = \<lparr>rq_method = ''GET'', rq_path = [''api'', ''v1'', ''requests''], rq_query = [], rq_cookies = [],
     rq_header = [], rq_body = []\<rparr>"

lemma list_thread: "http_thread [] (\<lambda>_. healthz) s list_call = Query SelectRequests (\<lambda>_. Ret ())"
  by (simp add: http_thread_def NewRouter_def list_call_def is_get_def is_post_def handleList_def List_requests_def
      scan_rows_def call_defs Let_def)

lemma asked_healthy: "w_held (reborn asked_world) = {}" "engine_healthy (w_db (reborn asked_world))"
  by (simp_all add: asked_world_def engine_healthy_def)

lemma demo_poll: "\<not> PollInterval (FromEnv demo_os) \<le> 0"
  by (simp add: demo_os ref_config_def)

lemma made_config: "sv_cfg (make_service cfg) = cfg"
  by (simp add: make_service_def NewService_def)

lemma asked_sweeping:
  obtains n p where "asked_life (replicate n Boot @ [Start_worker, Fire, Choose Tick]) = Some p" "running p"
    "live p = [tick (make_service (FromEnv demo_os))]"
proof (rule rest_started [OF asked_healthy, of demo_os])
  fix n w1 assume n: "asked_life (replicate n Boot) = Some (started (make_service (FromEnv demo_os)) w1)"
  let ?p = "(started (make_service (FromEnv demo_os)) w1)\<lparr>pr_worker := Sweeping (tick (make_service (FromEnv demo_os)))\<rparr>"
  have "asked_life (replicate n Boot @ [Start_worker, Fire, Choose Tick]) = Some ?p"
    by (simp add: process_run_append n process_step_def started_def made_config demo_poll)
  then show thesis by (rule that) (simp_all add: started_def live_def)
qed

definition stop_events :: "process_event list" where
  "stop_events = [Start_worker, Fire, Announce, Bind None, Accept list_call, Signal, Cancel]"

lemma asked_stopping:
  obtains n p where "asked_life ((replicate n Boot @ stop_events) @ [Shut]) = Some p" "pr_main p = Draining"
    "pr_worker p = Selecting" "pr_fired p" "pr_service p \<noteq> None" "pr_threads p = [Query SelectRequests (\<lambda>_. Ret ())]"
proof (rule rest_started [OF asked_healthy, of demo_os])
  fix n w1 assume n: "asked_life (replicate n Boot) = Some (started (make_service (FromEnv demo_os)) w1)"
  obtain p where "process_run rest_env [] (\<lambda>_. healthz) (stop_events @ [Shut]) (started (make_service (FromEnv demo_os)) w1) = Some p"
    "pr_main p = Draining" "pr_worker p = Selecting" "pr_fired p" "pr_service p \<noteq> None"
    "pr_threads p = [Query SelectRequests (\<lambda>_. Ret ())]"
    by (simp add: stop_events_def process_step_def started_def made_config demo_poll say_def list_thread)
  then show thesis by (intro that [of n p]) (simp_all add: process_run_append n)
qed

section \<open>The goroutines\<close>

text \<open>
  C17: the process refines the pool.  In every state that is reached after the start, the first
  part of \<open>main\<close> has come to the result it has when it runs alone, and the goroutines that
  are handling a request or sweeping are, with some that have ended, the threads of a pool that
  began where the start ended: all that is proved of interleaved requests and ticks holds of
  the process, whatever \<open>main\<close> and the goroutine of the server do in between.
\<close>

theorem process_refines_pool:
  assumes "process_run E index files evs (booting sql_Open os w) = Some p" "pr_service p = Some s"
  shows "s = make_service (FromEnv os) \<and>
    (\<exists>w1 ps ended. run E (main_start sql_Open os) w = (Some s, w1) \<and>
       pool E (threads index files s \<union> range log_line) w1 (ps, pr_world p) \<and>
       mset ps = mset (live p) + ended \<and> ended \<subseteq># filter_mset finished (mset ps))"
proof -
  let ?r = "run E (main_start sql_Open os) w"
  from process_follows [OF assms(1)] assms(2) obtain ps D where r: "fst ?r = Some s"
    and p: "pool E (service_threads index files s) (snd ?r) (ps, pr_world p)"
    and D: "mset ps = mset (live p) + D" "\<forall>q \<in># D. finished q" by (auto simp: follows_def shows_as_def)
  have "s = make_service (FromEnv os)" using main_start_builds [of E sql_Open os w] r by simp
  moreover have "D \<subseteq># filter_mset finished (mset ps)"
  proof -
    have "filter_mset finished D = D" using D(2) by (simp add: filter_mset_eq_conv)
    then show ?thesis unfolding D(1) by simp
  qed
  ultimately show ?thesis using r p D(1) unfolding service_threads_def by (metis prod.collapse)
qed

theorem process_refines_pool_witness:
  "\<exists>n m p w1 ps. asked_life (replicate n Boot @ [Start_worker, Fire, Choose Tick] @ replicate m Sweep) = Some p \<and>
     pool rest_env (threads [] (\<lambda>_. healthz) (make_service (FromEnv demo_os)) \<union> range log_line) w1 (ps, pr_world p)"
proof (rule asked_lives)
  fix n m p
  assume p: "asked_life (replicate n Boot @ [Start_worker, Fire, Choose Tick] @ replicate m Sweep) = Some p"
    "pr_service p = Some (make_service (FromEnv demo_os))"
  from process_refines_pool [OF this] p(1) show ?thesis by blast
qed

text \<open>
  C18: in no state of the running service are two goroutines about to touch the fields of the
  same mutex, and as long as one of them is not done, a request or the sweep can make its next
  call: no data race and no deadlock.
\<close>

theorem goroutines_never_stuck:
  assumes "process_run E index files evs (booting sql_Open os w) = Some p" "w_held w = {}" "running p"
  shows "(\<forall>i < length (live p). \<forall>j < length (live p). \<forall>m.
      touches (live p ! i) = Some m \<longrightarrow> touches (live p ! j) = Some m \<longrightarrow> i = j) \<and>
    ((\<exists>q \<in> set (live p). \<not> finished q) \<longrightarrow>
      (\<exists>ev \<in> insert Sweep (range Serve). process_step E index files ev p \<noteq> None))"
proof -
  obtain s where s: "pr_service p = Some s"
    using process_follows [OF assms(1)] assms(3) by (auto simp: follows_def split: option.splits)
  obtain hs where inv: "lock_inv hs (live p) (pr_world p)" using process_locks [OF assms(1,2) s] by blast
  have "\<exists>ev \<in> insert Sweep (range Serve). process_step E index files ev p \<noteq> None"
    if "q \<in> set (live p)" "\<not> finished q" for q
    by (rule some_moves [OF inv assms(3) s that, of E index files]) (auto split: if_splits)
  with no_race [OF inv] show ?thesis by blast
qed

theorem goroutines_never_stuck_witness:
  "\<exists>n p ev. asked_life (replicate n Boot @ [Start_worker, Fire, Choose Tick]) = Some p \<and>
     process_step rest_env [] (\<lambda>_. healthz) ev p \<noteq> None"
proof (rule asked_sweeping)
  fix n p assume p: "asked_life (replicate n Boot @ [Start_worker, Fire, Choose Tick]) = Some p" "running p"
    "live p = [tick (make_service (FromEnv demo_os))]"
  have "\<not> finished (tick (make_service (FromEnv demo_os)))" by (simp add: tick_def Reconcile_def time_now_def)
  with goroutines_never_stuck [OF p(1) asked_healthy(1) p(2)] p show ?thesis by fastforce
qed

section \<open>The shutdown\<close>

text \<open>
  C19: when \<open>Shutdown\<close> has closed the listener, whatever happens from then on no further request
  is accepted; and there is a way on, of calls of the requests and the sweep only, on which every
  request that was accepted is handled to its end and \<open>main\<close> returns with code 0.
\<close>

theorem shutdown_drains:
  assumes "process_run E index files (evs @ [Shut]) (booting sql_Open os w) = Some p" "w_held w = {}"
  shows "(\<forall>later rq. process_run E index files (later @ [Accept rq]) p = None) \<and>
    (\<exists>cs p'. set cs \<subseteq> insert Sweep (range Serve) \<and>
       process_run E index files (cs @ [Drained]) p = Some p' \<and> pr_main p' = Exited 0 \<and>
       list_all finished (pr_threads p') \<and> length (pr_threads p') = length (pr_threads p))"
proof
  obtain p0 where "process_step E index files Shut p0 = Some p"
    using assms(1) by (auto simp: process_run_append split: option.splits)
  then have c: "closing p" by (rule shut_closing)
  show "\<forall>later rq. process_run E index files (later @ [Accept rq]) p = None"
  proof (intro allI)
    fix later rq
    show "process_run E index files (later @ [Accept rq]) p = None"
      using closing_run [of E index files "later @ [Accept rq]" p _ rq] c
      by (cases "process_run E index files (later @ [Accept rq]) p") auto
  qed
  from c obtain s where s: "pr_service p = Some s" "pr_main p = Draining" by (auto simp: closing_def)
  obtain hs where "lock_inv hs (live p) (pr_world p)" using process_locks [OF assms s(1)] by blast
  from drains [OF this s(2,1), of E index files] obtain cs p1 where
    cs: "set cs \<subseteq> insert Sweep (range Serve)" "process_run E index files cs p = Some p1" "pr_main p1 = Draining"
      "pr_service p1 = Some s" "list_all finished (pr_threads p1)" "length (pr_threads p1) = length (pr_threads p)" by blast
  then have "process_run E index files (cs @ [Drained]) p = Some (stopped p1)"
    by (simp add: process_run_append process_step_def)
  with cs show "\<exists>cs p'. set cs \<subseteq> insert Sweep (range Serve) \<and>
      process_run E index files (cs @ [Drained]) p = Some p' \<and> pr_main p' = Exited 0 \<and>
      list_all finished (pr_threads p') \<and> length (pr_threads p') = length (pr_threads p)"
    by (intro exI [of _ cs] exI [of _ "stopped p1"]) (simp add: stopped_def say_def)
qed

theorem shutdown_drains_witness:
  "\<exists>n p cs p'. asked_life ((replicate n Boot @ stop_events) @ [Shut]) = Some p \<and>
     process_run rest_env [] (\<lambda>_. healthz) (cs @ [Drained]) p = Some p' \<and> pr_main p' = Exited 0 \<and>
     pr_threads p' = [Ret ()]"
proof (rule asked_stopping)
  fix n p
  assume p: "asked_life ((replicate n Boot @ stop_events) @ [Shut]) = Some p"
    "pr_threads p = [Query SelectRequests (\<lambda>_. Ret ())]"
  from shutdown_drains [OF p(1) asked_healthy(1)] obtain cs p' where
    "process_run rest_env [] (\<lambda>_. healthz) (cs @ [Drained]) p = Some p'" "pr_main p' = Exited 0"
    "list_all finished (pr_threads p')" "length (pr_threads p') = 1" using p(2) by auto
  moreover from this(3,4) have "pr_threads p' = [Ret ()]" by (auto simp: length_Suc_conv finished_iff)
  ultimately show ?thesis using p(1) by blast
qed



section \<open>The poll interval\<close>

text \<open>
  C21: with a poll interval that is not positive, which the configuration does not refuse, the
  worker never comes to its loop, in no state of the process; and in any state of the running
  service the moment its goroutine gets to run, the process is gone with the code of a panic.
\<close>

theorem zero_interval:
  assumes "process_run E index files evs (booting sql_Open os w) = Some p" "PollInterval (FromEnv os) \<le> 0"
  shows "pr_worker p = Created \<and>
    (running p \<longrightarrow> process_step E index files Start_worker p = Some (p\<lparr>pr_main := Exited 2\<rparr>))"
proof -
  note z = zero_worker [OF assms]
  show ?thesis
  proof (intro conjI impI)
    assume r: "running p"
    then obtain s where s: "pr_service p = Some s"
      using process_follows [OF assms(1)] by (auto simp: follows_def split: option.splits)
    with z assms(2) show "process_step E index files Start_worker p = Some (p\<lparr>pr_main := Exited 2\<rparr>)"
      by (simp add: running_process_step [OF r])
  qed (use z in blast)
qed

theorem zero_interval_witness:
  "\<exists>n p. process_run rest_env [] (\<lambda>_. healthz) (replicate n Boot @ [Start_worker])
       (booting (\<lambda>_. None) (\<lambda>_. ''0'') (reborn asked_world)) = Some p \<and> pr_main p = Exited 2"
proof (rule rest_started [OF asked_healthy, of "\<lambda>_. ''0''"])
  fix n w1
  let ?s = "make_service (FromEnv (\<lambda>_. ''0''))" and ?b = "booting (\<lambda>_. None) (\<lambda>_. ''0'') (reborn asked_world)"
  assume n: "process_run rest_env [] (\<lambda>_. healthz) (replicate n Boot) ?b = Some (started ?s w1)"
  have "ParseDuration ''0'' = Inr 0" by (simp add: ParseDuration_def)
  then have "PollInterval (FromEnv (\<lambda>_. ''0'')) \<le> 0" by (simp add: FromEnv_def durationEnv_def)
  from zero_interval [OF n this] have "process_step rest_env [] (\<lambda>_. healthz) Start_worker (started ?s w1) =
      Some ((started ?s w1)\<lparr>pr_main := Exited 2\<rparr>)" by (simp add: started_def)
  then have "process_run rest_env [] (\<lambda>_. healthz) (replicate n Boot @ [Start_worker]) ?b =
      Some ((started ?s w1)\<lparr>pr_main := Exited 2\<rparr>)" by (simp add: process_run_append n)
  then show ?thesis by (intro exI conjI) (assumption, simp)
qed

end
