(* ===== verification/ExitSpec.thy ===== *)
theory ExitSpec
  imports ProcessSpec
begin

text \<open>
  What the exit of the program cuts: \<open>main\<close> returns when the requests are handled and does not
  wait for the worker, so a sweep may end between the write of a row and the write of its event.
\<close>

section \<open>A request that is due after the start\<close>

text \<open>The start reads the clock a nanosecond before noon, the tick a millisecond later; that is
  the deadline of the one request.\<close>

definition due_request :: request where
  "due_request =
     new_request ref_config ''r1'' \<lparr>cb_Username = ''alice'', cb_Justification = ''fix the outage''\<rparr>
       (noon + 999999 - Hour)"

definition exit_world :: "(engine, rest_state, outside) world" where
  "exit_world = rest_world [due_request] [(''u2'', ''admin-permanent'')] (noon - 1)"

abbreviation exit_life :: "process_event list \<Rightarrow> (engine, rest_state, outside) process option" where
  "exit_life evs \<equiv> process_run rest_env [] (\<lambda>_. healthz) evs (booting (\<lambda>_. None) demo_os exit_world)"

lemma due_simps [simp]:
  "ID due_request = ''r1''" "Status due_request = StatusPending" "RequestExpiresAt due_request = noon + 999999"
  by (simp_all add: due_request_def new_request_def ref_config_def duration_defs)

lemma due_sound: "sound_request ref_config due_request"
  by (simp add: sound_request_def due_request_def new_request_def storable_req_def noon_def storable_def
      days_before_year_def Second_def duration_defs ref_config_def minJustificationLen_def)

lemma due_tables: "sound_tables (FromEnv demo_os) (ref_tables [due_request])"
  "reqs (ref_tables [due_request]) = [''r1'' \<mapsto> due_request]"
proof -
  have s: "list_all storable_req [due_request]" using due_sound by (simp add: sound_request_def)
  from ref_tables_ok [OF s] show "reqs (ref_tables [due_request]) = [''r1'' \<mapsto> due_request]" by simp
  with ref_tables_ok [OF s] due_sound show "sound_tables (FromEnv demo_os) (ref_tables [due_request])"
    by (simp add: sound_tables_def demo_os split: if_splits)
qed

lemma due_overdue: "pending_overdue now due_request \<longleftrightarrow> text_le (FormatRFC3339Nano (noon + 999999)) (FormatRFC3339Nano now)"
  "\<not> active_overdue now due_request"
  by (simp_all add: overdue_def)

lemma due_later: "\<not> text_le (FormatRFC3339Nano (noon + 999999)) (FormatRFC3339Nano (noon - 1))"
proof
  assume "text_le (FormatRFC3339Nano (noon + 999999)) (FormatRFC3339Nano (noon - 1))"
  then have "(noon + 999999) div Second \<le> (noon - 1) div Second"
    by (rule Format_le_seconds [rotated 2]) (simp_all add: noon_def storable_def days_before_year_def Second_def)
  then show False by (simp add: noon_def Second_def)
qed

text \<open>The listings on the engine with its tables all there.\<close>

lemma rest_before:
  assumes ok: "store_ok (fst (w_db w))"
    and col: "\<And>r. col_value col (row_of r) = map_option FormatRFC3339Nano (due r)"
  shows "\<exists>rs. run rest_env (byStatusBefore st col now) w = (Inr rs, w) \<and> distinct (map ID rs) \<and>
    set rs = {r \<in> ran (reqs (fst (w_db w))). overdue st due now r}"
proof -
  let ?q = "SelectByStatusBefore st col (FormatRFC3339Nano now)" and ?t = "fst (w_db w)"
  have has: "has_requests ?t" "has_notes ?t" using ok by (simp_all add: store_ok_def)
  from query_fun_sem [OF has, of ?q] obtain rs where
    rs: "traverse scanRequest (query_fun ?q ?t) = Inr rs" "distinct (map ID rs)"
      "set rs = {r \<in> ran (reqs ?t). overdue st due now r}"
    using rest_db.before_correct [OF ok refl _ col] by blast
  have "run rest_env (byStatusBefore st col now) w = (traverse scanRequest (query_fun ?q ?t), w)"
    using has by (simp add: byStatusBefore_def scan_rows_def run_simps rest_env_def engine_query_def del: query_fun.simps)
  with rs show ?thesis by auto
qed

lemma due_listings:
  assumes "fst (w_db w) = ref_tables [due_request]"
  shows "run rest_env (PendingExpired now) w =
      (Inr (if pending_overdue now due_request then [due_request] else []), w)"
    "run rest_env (ActiveExpired now) w = (Inr [], w)"
proof -
  have ok: "store_ok (fst (w_db w))" using due_tables(1) assms by (simp add: sound_tables_def)
  obtain rs where rs: "run rest_env (PendingExpired now) w = (Inr rs, w)" "distinct (map ID rs)"
    "set rs = {r \<in> ran (reqs (fst (w_db w))). pending_overdue now r}"
    using rest_before [OF ok, of Col_request_expires_at "\<lambda>r. Some (RequestExpiresAt r)" StatusPending now]
    by (auto simp: PendingExpired_def row_of_def)
  have "set rs = (if pending_overdue now due_request then {due_request} else {})"
    using rs(3) by (auto simp: assms due_tables(2))
  moreover have "distinct rs" using rs(2) by (simp add: distinct_map)
  ultimately have "rs = (if pending_overdue now due_request then [due_request] else [])"
    by (cases rs) (auto simp: insert_eq_iff subset_singleton_iff split: if_splits)
  with rs(1) show "run rest_env (PendingExpired now) w =
      (Inr (if pending_overdue now due_request then [due_request] else []), w)" by simp
  obtain rs where rs: "run rest_env (ActiveExpired now) w = (Inr rs, w)"
    "set rs = {r \<in> ran (reqs (fst (w_db w))). active_overdue now r}"
    using rest_before [OF ok, of Col_active_expires_at ActiveExpiresAt StatusApproved now]
    by (auto simp: ActiveExpired_def row_of_def nullTime_def)
  have "set rs = {}" using due_overdue(2) [of now] by (auto simp: rs(2) assms due_tables(2))
  with rs(1) show "run rest_env (ActiveExpired now) w = (Inr [], w)" by simp
qed

lemma rest_clock_reads:
  "o_time (w_other w) = t \<Longrightarrow> t \<le> noon \<Longrightarrow>
   run rest_env time_now w = (t, w\<lparr>w_other := (w_other w)\<lparr>o_time := t + 1000000\<rparr>\<rparr>)"
  by (simp add: run_simps rest_env_def ref_now_def noon_def)

section \<open>The start finds nothing to do\<close>

lemma due_started:
  obtains n w1 where "exit_life (replicate n Boot) = Some (started (make_service (FromEnv demo_os)) w1)"
    "fst (w_db w1) = ref_tables [due_request]" "engine_healthy (w_db w1)" "o_time (w_other w1) = noon + 999999"
    "w_held w1 = {}"
proof -
  let ?s = "make_service (FromEnv demo_os)" and ?t = "ref_tables [due_request]"
  have start: "w_held exit_world = {}" "engine_healthy (w_db exit_world)" "fst (w_db exit_world) = ?t"
    "o_time (w_other exit_world) = noon - 1"
    by (simp_all add: exit_world_def rest_world_def engine_healthy_def)
  obtain n w1 where r: "run rest_env (main_start (\<lambda>_. None) demo_os) exit_world = (Some ?s, w1)"
    and h: "w_held w1 = {}" and n: "exit_life (replicate n Boot) = Some (started ?s w1)"
    by (rule rest_started [OF start(1,2)])
  obtain wc y wd where st: "opened (fst (w_db exit_world)) (fst (w_db wc))" "w_other wc = w_other exit_world"
    and d: "run rest_env (Reconcile ?s) wc = (y, wd)" and w1: "w_db w1 = w_db wd" "w_other w1 = w_other wd"
    by (rule rest_db.main_start_runs [OF r])
  have "has_requests ?t \<and> has_notes ?t \<and> has_audit ?t \<and> has_notifs ?t" by (simp add: ref_tables_def)
  with st(1) start(3) have wc: "fst (w_db wc) = ?t" by (simp add: opened_def)
  let ?wc = "wc\<lparr>w_other := (w_other wc)\<lparr>o_time := noon - 1 + 1000000\<rparr>\<rparr>"
  have "fst (w_db ?wc) = ?t" using wc by simp
  note lists = due_listings [OF this, of "noon - 1"]
  have "run rest_env time_now wc = (noon - 1, ?wc)"
    by (rule rest_clock_reads) (use st(2) start(4) in simp_all)
  with lists have "run rest_env (Reconcile ?s) wc = (Inr (), ?wc)"
    by (simp add: Reconcile_def run_bnd due_overdue due_later)
  with d have wd: "wd = ?wc" by simp
  have "engine_healthy (w_db w1)" using service_db_up.run_healthy [OF rest_db.service_db_up_axioms r start(2)] .
  then show thesis using w1 wd wc by (intro that [OF n _ _ _ h]) simp_all
qed

section \<open>The exit in the middle of a sweep\<close>

lemma due_written:
  assumes w: "fst (w_db w) = ref_tables [due_request]" "engine_healthy (w_db w)"
    and r: "run rest_env (Update (due_request\<lparr>Status := StatusExpired\<rparr>)) w = (x, w')"
  shows "x = Inr () \<and> reqs (fst (w_db w')) = [''r1'' \<mapsto> due_request\<lparr>Status := StatusExpired\<rparr>] \<and>
    t_audit (fst (w_db w')) = [] \<and> t_notifs (fst (w_db w')) = [] \<and> all_tables (fst (w_db w'))"
proof -
  let ?q = "due_request\<lparr>Status := StatusExpired\<rparr>" and ?t = "ref_tables [due_request]"
  have so: "store_ok (fst (w_db w))" and all: "all_tables (fst (w_db w))"
    using due_tables(1) w(1) sound_all_tables by (auto simp: sound_tables_def)
  have "storable_req due_request" using due_sound by (simp add: sound_request_def)
  then have q: "storable_req ?q" by (simp add: storable_req_def)
  have i: "reqs (fst (w_db w)) (ID ?q) = Some due_request" by (simp add: w(1) due_tables(2))
  have "x = Inr ()" using rest_db.update_up [OF w(2) so q r] i by simp
  with rest_db.update_ok [OF so q] r i
  have "reqs (fst (w_db w')) = (reqs (fst (w_db w)))(ID ?q \<mapsto> merge_update due_request ?q)" by fastforce
  moreover have "merge_update due_request ?q = ?q" by (simp add: merge_update_def)
  moreover have "t_audit (fst (w_db w')) = [] \<and> t_notifs (fst (w_db w')) = []"
  proof -
    obtain d y where d: "e_exec rest_env (update_stmt ?q) (w_db w) = (y, d)" "w' = w\<lparr>w_db := d\<rparr>"
      using rest_db.run_Update [OF r] by blast
    from rest_db.exec_cases [OF d(1)] d(2) w(1) show ?thesis
      by (auto simp: update_stmt_def ref_tables_def)
  qed
  moreover have "all_tables (fst (w_db w'))"
    using rest_db.run_grown [OF r all] by (simp add: grown_def)
  ultimately show ?thesis using \<open>x = Inr ()\<close> by (simp add: w(1) due_tables(2))
qed

lemma due_swept:
  obtains n m p where "exit_life ((replicate n Boot @ [Start_worker, Fire, Choose Tick]) @ replicate m Sweep) = Some p"
    "pr_main p = Waiting" "pr_service p \<noteq> None" "pr_threads p = []"
    "reqs (fst (w_db (pr_world p))) = [''r1'' \<mapsto> due_request\<lparr>Status := StatusExpired\<rparr>]"
    "t_audit (fst (w_db (pr_world p))) = []" "t_notifs (fst (w_db (pr_world p))) = []"
    "all_tables (fst (w_db (pr_world p)))"
proof -
  let ?s = "make_service (FromEnv demo_os)" and ?q = "due_request\<lparr>Status := StatusExpired\<rparr>"
  obtain n w1 where n: "exit_life (replicate n Boot) = Some (started ?s w1)"
    and w1: "fst (w_db w1) = ref_tables [due_request]" "engine_healthy (w_db w1)" "o_time (w_other w1) = noon + 999999"
    "w_held w1 = {}" by (rule due_started)
  let ?report = "\<lambda>res. case res of Inl e \<Rightarrow> log_line (''reconcile: '' @ error_text e) | Inr _ \<Rightarrow> Ret ()"
  let ?listed = "\<lambda>now res. case res of Inl e \<Rightarrow> Ret (Inl e) | Inr pending \<Rightarrow>
      bnd (for_each (expire_one ?s) pending) (\<lambda>_. bnd (ActiveExpired now) (\<lambda>res. case res of
         Inl e \<Rightarrow> Ret (Inl e) | Inr rs \<Rightarrow> bnd (for_each (revoke_one ?s) rs) (\<lambda>_. Ret (Inr ()))))"
  let ?evs = "replicate n Boot @ [Start_worker, Fire, Choose Tick]" and ?now = "noon + 999999"
  let ?at = "\<lambda>w q. (started ?s w)\<lparr>pr_worker := Sweeping q\<rparr>"
  have tick: "tick ?s = bnd time_now (\<lambda>now. bnd (PendingExpired now) (\<lambda>res. bnd (?listed now res) ?report))"
    unfolding tick_def Reconcile_def bnd_assoc by (rule refl)
  have "exit_life ?evs = Some (?at w1 (tick ?s))"
    by (simp add: process_run_append n process_step_def started_def made_config demo_poll)
  note life = this [unfolded tick]
  let ?w2 = "w1\<lparr>w_other := (w_other w1)\<lparr>o_time := ?now + 1000000\<rparr>\<rparr>"
  have clock: "run rest_env time_now w1 = (?now, ?w2)"
    using w1(3) by (simp add: run_simps rest_env_def ref_now_def noon_def)
  have "locked None time_now" by simp
  from sweep_part [OF life this w1(4) clock] obtain m1 where
    m1: "exit_life (?evs @ replicate m1 Sweep) =
      Some (?at ?w2 (bnd (PendingExpired ?now) (\<lambda>res. bnd (?listed ?now res) ?report)))" by blast
  have w2: "fst (w_db ?w2) = ref_tables [due_request]" "w_held ?w2 = {}" "engine_healthy (w_db ?w2)"
    using w1 by simp_all
  have "run rest_env (PendingExpired ?now) ?w2 = (Inr [due_request], ?w2)"
    using due_listings(1) [OF w2(1), of ?now] by (simp add: due_overdue)
  from sweep_part [OF m1 locked_store(5) w2(2) this] obtain m2 where
    m2: "exit_life ((?evs @ replicate m1 Sweep) @ replicate m2 Sweep) =
      Some (?at ?w2 (bnd (?listed ?now (Inr [due_request])) ?report))" by blast
  have "\<exists>f. bnd (?listed ?now (Inr [due_request])) ?report = bnd (Update ?q) f"
    by (simp add: expire_one_def Let_def bnd_assoc) blast
  then obtain f where f: "bnd (?listed ?now (Inr [due_request])) ?report = bnd (Update ?q) f" ..
  obtain x w3 where u: "run rest_env (Update ?q) ?w2 = (x, w3)" by (rule prod.exhaust)
  from sweep_part [OF m2 [unfolded f] locked_store(4) w2(2) u] obtain m3 where
    m3: "exit_life (((?evs @ replicate m1 Sweep) @ replicate m2 Sweep) @ replicate m3 Sweep) = Some (?at w3 (f x))" by blast
  have "exit_life (?evs @ replicate (m1 + m2 + m3) Sweep) = Some (?at w3 (f x))"
    using m3 by (simp only: replicate_add append_assoc)
  from that [OF this] due_written [OF w2(1,3) u] show thesis by (simp add: started_def)
qed

text \<open>
  C22: \<open>main\<close> does not wait for the worker.  There is a life that ends with code 0 on a signal,
  in which the sweep has set the row of an overdue request to \<open>expired\<close> and nothing else: the
  event \<open>request_expired\<close> is not in the log and nobody is notified; and as in no later life the
  request is pending again, no later sweep finds it to make up for that.
\<close>

theorem exit_cuts_sweep:
  "\<exists>n m p. exit_life (replicate n Boot @ [Start_worker, Fire, Choose Tick] @ replicate m Sweep @
       [Signal, Cancel, Shut, Drained]) = Some p \<and> pr_main p = Exited 0 \<and>
     reqs (fst (w_db (pr_world p))) = [''r1'' \<mapsto> due_request\<lparr>Status := StatusExpired\<rparr>] \<and>
     t_audit (fst (w_db (pr_world p))) = [] \<and> t_notifs (fst (w_db (pr_world p))) = [] \<and>
     Collect (lifetimes rest_env (\<lambda>_. None) demo_os [] (\<lambda>_. healthz) (pr_world p)) \<subseteq>
       {w. \<exists>q. reqs (completed (fst (w_db w))) ''r1'' = Some q \<and> Status q \<noteq> StatusPending}"
proof (rule due_swept)
  fix n m p
  assume life: "exit_life ((replicate n Boot @ [Start_worker, Fire, Choose Tick]) @ replicate m Sweep) = Some p"
    and p: "pr_main p = Waiting" "pr_service p \<noteq> None" "pr_threads p = []"
    and t: "reqs (fst (w_db (pr_world p))) = [''r1'' \<mapsto> due_request\<lparr>Status := StatusExpired\<rparr>]"
      "t_audit (fst (w_db (pr_world p))) = []" "t_notifs (fst (w_db (pr_world p))) = []" "all_tables (fst (w_db (pr_world p)))"
  from p stop_run [OF p(1)] obtain p' where
    p': "process_run rest_env [] (\<lambda>_. healthz) [Signal, Cancel, Shut, Drained] p = Some p'" "pr_main p' = Exited 0"
      "w_db (pr_world p') = w_db (pr_world p)" by fastforce
  let ?evs = "replicate n Boot @ [Start_worker, Fire, Choose Tick] @ replicate m Sweep @ [Signal, Cancel, Shut, Drained]"
  have "exit_life (((replicate n Boot @ [Start_worker, Fire, Choose Tick]) @ replicate m Sweep) @
      [Signal, Cancel, Shut, Drained]) = Some p'"
    by (subst process_run_append) (simp only: life p'(1) option.case)
  then have run: "exit_life ?evs = Some p'" by (simp only: append_assoc)
  have w: "recoverable (FromEnv demo_os) (fst (w_db exit_world))" "ref_fair (w_other exit_world)"
    using sound_recoverable [OF due_tables(1)] by (simp_all add: exit_world_def rest_world_def ref_fair_def sane_def noon_def)
  note s = rest_pool.process_sound [OF run w]
  have full: "completed (fst (w_db (pr_world p'))) = fst (w_db (pr_world p'))"
    using t(4) p'(3) by (simp add: completed_full all_tables_def)
  have "\<exists>q. reqs (completed (fst (w_db w))) ''r1'' = Some q \<and> Status q \<noteq> StatusPending"
    if "lifetimes rest_env (\<lambda>_. None) demo_os [] (\<lambda>_. healthz) (pr_world p') w" for w
  proof -
    have "moved (fst (w_db (pr_world p'))) (completed (fst (w_db w)))"
      using rest_pool.lifetimes_sound [OF that] s full by (simp add: kept_def)
    moreover have "reqs (fst (w_db (pr_world p'))) ''r1'' = Some (due_request\<lparr>Status := StatusExpired\<rparr>)"
      using t(1) p'(3) by simp
    ultimately show ?thesis unfolding moved_def by fastforce
  qed
  with run p' t show ?thesis by (intro exI [of _ n] exI [of _ m] exI [of _ p']) auto
qed

end
