(* ===== verification/Spec2Isabelle.thy ===== *)
theory Spec2Isabelle
  imports System Reference JsonText JsonRound GoDuration StoreSpec AuditSpec ClientSpec LoginSpec ServiceSpec
    SweepSpec GapSpec PoolSpec StartSpec RowSpec LossSpec Interleaving Guarantee Confinement RestReference Upkeep
    Process Lifetime Startup Shutdown ProcessSpec ExitSpec
begin

text \<open>
  The Privileged-access service \<open>keycloak-jit-access\<close> (Go module of \<open>src/\<close>): users of an
  eligible Keycloak group ask for membership of an active group, members of a permanent group
  approve, the service adds them for a limited time and a worker takes them out again; every
  step is written to an audit log in SQLite, and a webhook is told.

  The model.  A function of the source that only computes is an Isabelle function; one that
  touches the database, Keycloak, the clock, entropy, the webhook, a mutex or the log is a value
  of \<open>'a prog\<close> (\<open>Prog\<close>), a tree of calls in the order of the source.  \<open>run\<close> carries such a
  program out alone; \<open>step\<close> makes one call, and \<open>pool\<close> is the set of configurations of threads
  that interleave call by call.  The outside is a record of functions (\<open>env\<close>) over three state
  types; what the service relies on is stated in locales, each of them interpreted on a concrete
  environment: \<open>sqlite\<close> and \<open>sqlite_up\<close> (the statements mean what the SQL says; an engine that
  is up carries out what the tables allow), \<open>clock\<close>, \<open>groups_iface\<close> and \<open>groups_up\<close> (the three
  operations behind the interface \<open>Groups\<close>), \<open>keycloak_api\<close> (the REST answers the client
  reads), \<open>posting\<close>.  Errors are values of \<open>error\<close> in \<open>error + 'a\<close>; strings are byte strings;
  a time is the number of nanoseconds since year 0, kept as RFC 3339 text in the tables.

  Theories and what they model.
    \<^item> \<open>Prelude\<close>, \<open>GoText\<close>, \<open>GoTime\<close>, \<open>GoDuration\<close>, \<open>GoNet\<close>, \<open>GoCrypto\<close>, \<open>Json\<close>, \<open>Http\<close>: the
      functions of the standard library the service calls -- trimming, decimal numbers, times and
      durations, URL escaping, SHA-256, HMAC, base64, hex, JSON, requests and responses.
      \<open>JsonText\<close> and \<open>JsonRound\<close> hold their round trips; the JSON parser takes fuel, two units per
      byte and two more, which \<open>JsonRound\<close> shows to be enough for whatever is printed.
    \<^item> \<open>Config\<close>: \<open>internal/config/config.go\<close>.
    \<^item> \<open>Sql\<close>, \<open>Store\<close>, \<open>AuditLog\<close>, \<open>Notify\<close>: \<open>internal/store\<close> (statements, requests,
      audit events, marks, opening and migration) and \<open>internal/notify/notify.go\<close>.  The abstract
      store is a map from ids to requests, the abstract log a list of events, and the locales
      \<open>request_store\<close>, \<open>audit_log\<close>, \<open>mark_table\<close> are their contracts.
    \<^item> \<open>Membership\<close>, \<open>Keycloak\<close>: the interface of \<open>internal/api/api.go\<close> and the client of
      \<open>internal/keycloak/client.go\<close>, with its cached token and group ids under the mutex.
    \<^item> \<open>Auth\<close>: \<open>internal/auth/auth.go\<close>, logins with PKCE, the session cookie, the actor.
    \<^item> \<open>Api\<close>, \<open>Worker\<close>: \<open>internal/api/api.go\<close>, \<open>internal/ui/ui.go\<close>,
      \<open>internal/worker/worker.go\<close> and \<open>cmd/pim/main.go\<close> up to the point where the worker
      and the server run beside each other.
    \<^item> \<open>Process\<close>: the whole of \<open>cmd/pim/main.go\<close> as a process: a record with the place of \<open>main\<close>,
      of the server and of the worker, the requests that are handled and the world; \<open>process_step\<close>
      says what each event does (a call of the start, of a request or of the sweep; the ticker, a
      signal, the cancellation, \<open>Shutdown\<close>, its end or its timeout), down to the exit codes.  It
      is shown to refine the pool of \<open>Interleaving\<close>, and \<open>process_rely\<close> is the rule for what
      holds in all its states.  \<open>Startup\<close> and \<open>Shutdown\<close>: the start comes to its end, the
      goroutines never wait for ever, their calls run out, the requests can be drained.
    \<^item> \<open>Lifetime\<close>: any number of lives of the process on one database, each cut after any of its
      events, and what all of them keep.
    \<^item> \<open>Discipline\<close>, \<open>Interleaving\<close>: mutex and posting disciplines of programs, what they give for
      every configuration of the pool, and the proofs that every handler and the tick keep them.
    \<^item> \<open>Guarantee\<close>, \<open>Confinement\<close>: what every thread guarantees while the others run -- every
      statement leaves the rows sound, every exchange with Keycloak stays within the active group
      and the users of requests the thread has read -- and the rule that puts the threads together.
    \<^item> \<open>Effects\<close>, \<open>Handlers\<close>, \<open>System\<close>, \<open>Upkeep\<close>: one rule per operation, one case distinction
      per handler, the invariant \<open>fine\<close> and the lifecycle over any operations, and what the
      handlers achieve when the database and the membership server are up.
    \<^item> \<open>Reference\<close>, \<open>RestReference\<close>: executable surroundings (an engine with a script of faults, a
      ticking clock, a membership server, a Keycloak REST server) that satisfy every contract; the
      witnesses run on them.

  Properties.
    \<^item> \<open>ServiceSpec\<close>: what creating, approving and releasing may change, who may cause it, and what
      they achieve, with their audit events.
    \<^item> \<open>SweepSpec\<close>, \<open>StartSpec\<close>: the sweep revokes only what is due (to a second) and all that is
      due; the invariant and the lifecycle over any number of operations, from the start of the
      program on; reads change nothing; the configuration.
    \<^item> \<open>StoreSpec\<close>, \<open>AuditSpec\<close>: rows and requests, refinement of the abstract store, the listings,
      migration, the newest events, at most one post per mark.  \<open>LossSpec\<close>: a post that fails is lost
      for this life of the program and all later ones.
    \<^item> \<open>LoginSpec\<close>, \<open>ClientSpec\<close>: sessions, logins, who the actor of a request is in every case, when
      exactly the cached token is used, memberships over REST.
    \<^item> \<open>PoolSpec\<close>, \<open>RowSpec\<close>: no data race, no deadlock, termination, growing tables and single
      posts in every interleaving; over all lives of the program, wherever they end, every row stays
      sound, nothing decided becomes pending again, nobody enters the active group without a
      request, and no notification is posted twice.  Between two statements of a migration the tables may not be complete; what is
      stated is then stated of \<open>completed\<close>, the tables the next start makes of them.
    \<^item> \<open>ProcessSpec\<close>: the process refines the pool, no goroutine is stuck, a shutdown accepts
      nothing more and can answer all it has accepted, the calls of the requests run out.
    \<^item> Where the code falls short: \<open>GapSpec\<close> (a grant that is not recorded stays for good, two grants
      of one user share a membership, a grant is missing from the log of any database that refuses
      the events: the locale \<open>unlogged\<close>),
      \<open>sweep_overwrites_approval\<close> in \<open>PoolSpec\<close>, \<open>listing_wrong_within_a_second\<close> in \<open>StoreSpec\<close>,
      \<open>zero_interval\<close> in \<open>ProcessSpec\<close>, \<open>exit_cuts_sweep\<close> in \<open>ExitSpec\<close> (the exit does not wait
      for the worker, so an expiry may stay without its event).

  Bounds.  Times are those of years 0 to 9999 in the tables (\<open>storable\<close>) and 1000 to 9000 on the
  clock (\<open>sane\<close>), and the two lifetimes are durations of at most about 292 years, as in Go
  (\<open>ttl_ok\<close>); within them no time leaves the layout.

  Not modelled.  Of the process: the ten seconds of the shutdown and the timeouts of the HTTP
  clients are not measured (a timeout may come at any moment), the close of the database after the
  last line is one step with the exit, and idle connections, headers that never end and second
  signals are left to \<open>net/http\<close> and the runtime; what is assumed of them is said in \<open>Process\<close>.
  A signal before \<open>signal.Notify\<close> kills the process without an event: it is one of the cuts of
  \<open>Lifetime\<close>.  There is one clock: a reading is both the wall time and the monotonic time Go
  compares in \<open>accessToken\<close>.  The creation of a table and of its index is one statement.
  The file server and the embedded page behind \<open>ui.Handler\<close>, which are arguments; the JavaScript
  of the page, the Helm chart and the scripts, which are no Go code.  SQLite, Keycloak and the
  webhook receiver are parameters.
\<close>

end
